(* ===== verification/Prelude.thy ===== *)
theory Prelude
  imports Main
begin

text \<open>
  Shared vocabulary of the development: the result type that carries exceptions as values,
  instants in milliseconds, the relational operations the persistence layers are written with
  (a table is the list of its rows in insertion order), decimal printing of integers, and the
  theorem collections the component theories add to.
\<close>

section \<open>Theorem collections\<close>

named_theorems table_simps \<open>rewrite rules for the relational operations\<close>
named_theorems handler_defs \<open>definitions of request handlers, unfolded together\<close>

section \<open>Results, instants, identifiers\<close>

text \<open>A JavaScript promise that may reject: \<open>Inl\<close> is the rejection, \<open>Inr\<close> the value.\<close>

type_synonym ('e, 'a) result = "'e + 'a"

text \<open>\<open>Date\<close> values are read through \<open>getTime()\<close>: integral milliseconds since the epoch.\<close>

type_synonym instant = int
type_synonym ident = string

section \<open>Tables\<close>

text \<open>
  The query objects handed to the database client are translated clause by clause into these
  operations: \<open>where\<close> is a predicate, \<open>data\<close> a row update.
\<close>

definition find_many :: "('r \<Rightarrow> bool) \<Rightarrow> 'r list \<Rightarrow> 'r list" where
  "find_many p rows = filter p rows"

definition find_unique :: "('r \<Rightarrow> bool) \<Rightarrow> 'r list \<Rightarrow> 'r option" where
  "find_unique p rows = find p rows"

definition count_where :: "('r \<Rightarrow> bool) \<Rightarrow> 'r list \<Rightarrow> nat" where
  "count_where p rows = length (filter p rows)"

definition update_many :: "('r \<Rightarrow> bool) \<Rightarrow> ('r \<Rightarrow> 'r) \<Rightarrow> 'r list \<Rightarrow> 'r list" where
  "update_many p f rows = map (\<lambda>r. if p r then f r else r) rows"

definition delete_many :: "('r \<Rightarrow> bool) \<Rightarrow> 'r list \<Rightarrow> 'r list" where
  "delete_many p rows = filter (\<lambda>r. \<not> p r) rows"

lemma update_many_Nil [simp, table_simps]: "update_many p f [] = []"
  by (simp add: update_many_def)

lemma update_many_Cons [simp, table_simps]:
  "update_many p f (r # rs) = (if p r then f r else r) # update_many p f rs"
  by (simp add: update_many_def)

lemma length_update_many [simp, table_simps]: "length (update_many p f rows) = length rows"
  by (simp add: update_many_def)

lemma set_update_many: "set (update_many p f rows) = (\<lambda>r. if p r then f r else r) ` set rows"
  by (simp add: update_many_def)

lemma update_manyE:
  assumes "x \<in> set (update_many p f rows)"
  obtains (hit) r where "r \<in> set rows" "p r" "x = f r" | (miss) "x \<in> set rows" "\<not> p x"
proof -
  from assms obtain r where r: "r \<in> set rows" "x = (if p r then f r else r)" by (auto simp: set_update_many)
  then show ?thesis by (cases "p r") (simp_all add: hit miss)
qed

lemma update_many_append [table_simps]:
  "update_many p f (xs @ ys) = update_many p f xs @ update_many p f ys"
  by (simp add: update_many_def)

lemma map_update_many [table_simps]:
  "(\<And>r. k (f r) = k r) \<Longrightarrow> map k (update_many p f rows) = map k rows"
  by (simp add: update_many_def)

lemma update_many_idle: "(\<And>r. r \<in> set rows \<Longrightarrow> \<not> p r) \<Longrightarrow> update_many p f rows = rows"
  by (simp add: update_many_def map_idI)

lemma filter_update_many_same:
  "(\<And>r. q (f r) = q r) \<Longrightarrow> filter q (update_many p f rows) = update_many p f (filter q rows)"
  by (induction rows) auto

lemma count_where_update_many [table_simps]:
  "(\<And>r. q (f r) = q r) \<Longrightarrow> count_where q (update_many p f rows) = count_where q rows"
  by (simp add: count_where_def filter_update_many_same)

lemma count_where_le_length [simp]: "count_where p rows \<le> length rows"
  by (simp add: count_where_def)

lemma count_where_0_iff [table_simps]: "count_where p rows = 0 \<longleftrightarrow> (\<forall>r \<in> set rows. \<not> p r)"
  by (simp add: count_where_def filter_empty_conv)

lemma count_where_pos_iff: "0 < count_where p rows \<longleftrightarrow> (\<exists>r \<in> set rows. p r)"
  by (metis count_where_0_iff gr0I less_numeral_extra(3))

lemma count_where_append [table_simps]:
  "count_where p (xs @ ys) = count_where p xs + count_where p ys"
  by (simp add: count_where_def)

lemma delete_many_Nil [simp]: "delete_many p [] = []"
  by (simp add: delete_many_def)

lemma set_delete_many [simp, table_simps]: "set (delete_many p rows) = {r \<in> set rows. \<not> p r}"
  by (auto simp: delete_many_def)

lemma delete_many_length: "length (delete_many p rows) + count_where p rows = length rows"
  using sum_length_filter_compl [of p rows] by (simp add: delete_many_def count_where_def)

lemma count_where_delete_many_le: "count_where q (delete_many p rows) \<le> count_where q rows"
  by (induction rows) (auto simp: count_where_def delete_many_def)

lemma distinct_map_delete_many [simp]:
  "distinct (map k rows) \<Longrightarrow> distinct (map k (delete_many p rows))"
  by (simp add: delete_many_def distinct_map_filter)

text \<open>A lookup by a column that is a key returns the one row that has it.\<close>

lemma find_unique_Some: "find_unique p rows = Some r \<Longrightarrow> r \<in> set rows \<and> p r"
  by (auto simp: find_unique_def find_Some_iff)

lemma find_unique_None: "find_unique p rows = None \<longleftrightarrow> (\<forall>r \<in> set rows. \<not> p r)"
  by (auto simp: find_unique_def find_None_iff)

lemma find_unique_key:
  assumes "distinct (map k rows)" and "r \<in> set rows"
  shows "find_unique (\<lambda>x. k x = k r) rows = Some r"
  using assms by (induction rows) (auto simp: find_unique_def image_iff)

lemma find_update_many:
  "(\<And>r. q (f r) = q r) \<Longrightarrow>
   find_unique q (update_many p f rows) = map_option (\<lambda>r. if p r then f r else r) (find_unique q rows)"
  by (induction rows) (auto simp: find_unique_def)

lemma find_append: "find q (xs @ ys) = (case find q xs of None \<Rightarrow> find q ys | Some r \<Rightarrow> Some r)"
  by (induction xs) auto

section \<open>Decimal printing\<close>

definition digit_char :: "nat \<Rightarrow> char" where
  "digit_char d = char_of (48 + d)"

fun show_nat :: "nat \<Rightarrow> string" where
  "show_nat n = (if n < 10 then [digit_char n] else show_nat (n div 10) @ [digit_char (n mod 10)])"

declare show_nat.simps [simp del]

definition show_int :: "int \<Rightarrow> string" where
  "show_int i = (if i < 0 then CHR ''-'' # show_nat (nat (- i)) else show_nat (nat i))"

definition is_digit :: "char \<Rightarrow> bool" where
  "is_digit c \<longleftrightarrow> 48 \<le> (of_char c :: nat) \<and> (of_char c :: nat) \<le> 57"

definition digit_val :: "char \<Rightarrow> int" where
  "digit_val c = of_char c - 48"

fun read_digits :: "int \<Rightarrow> string \<Rightarrow> int" where
  "read_digits acc [] = acc"
| "read_digits acc (c # cs) = read_digits (10 * acc + digit_val c) cs"

lemma of_char_digit_char:
  "d < 10 \<Longrightarrow> (of_char (digit_char d) :: 'a :: linordered_euclidean_semiring_bit_operations) = 48 + of_nat d"
proof -
  assume "d < 10"
  then have "(of_char (digit_char d) :: nat) = 48 + d" by (simp add: digit_char_def of_char_of)
  moreover have "(of_char (digit_char d) :: 'a) = of_nat (of_char (digit_char d))"
    by (rule of_nat_of_char [symmetric])
  ultimately show ?thesis by simp
qed

lemma is_digit_digit_char [simp]: "d < 10 \<Longrightarrow> is_digit (digit_char d)"
  by (simp add: is_digit_def of_char_digit_char)

lemma digit_val_digit_char [simp]: "d < 10 \<Longrightarrow> digit_val (digit_char d) = int d"
  using of_char_digit_char [of d, where 'a = int] by (simp add: digit_val_def)

lemma digit_val_range: "is_digit c \<Longrightarrow> 0 \<le> digit_val c \<and> digit_val c \<le> 9"
  using of_nat_of_char [of c, where 'a = int] by (simp add: is_digit_def digit_val_def)

lemma read_digits_append: "read_digits acc (xs @ ys) = read_digits (read_digits acc xs) ys"
  by (induction xs arbitrary: acc) auto

lemma read_show_nat [simp]: "read_digits 0 (show_nat n) = int n"
proof (induction n rule: show_nat.induct)
  case (1 n)
  have "10 * int (n div 10) + int (n mod 10) = int n"
    by (metis mult_div_mod_eq of_nat_add of_nat_mult of_nat_numeral)
  with 1 show ?case by (cases "n < 10") (simp_all add: show_nat.simps [of n] read_digits_append)
qed

lemma show_nat_digits: "c \<in> set (show_nat n) \<Longrightarrow> is_digit c"
proof (induction n rule: show_nat.induct)
  case (1 n)
  then show ?case by (cases "n < 10") (auto simp: show_nat.simps [of n])
qed

lemma show_nat_not_Nil [simp]: "show_nat n \<noteq> []"
  by (subst show_nat.simps) simp

lemma show_nat_inject [simp]: "show_nat m = show_nat n \<longleftrightarrow> m = n"
  by (metis nat_int read_show_nat)

lemma not_digit_minus [simp]: "\<not> is_digit (CHR ''-'')"
  by (simp add: is_digit_def)

lemma not_digit_colon [simp]: "\<not> is_digit (CHR '':'')"
  by (simp add: is_digit_def)

lemma show_nat_no_minus: "show_nat n \<noteq> CHR ''-'' # s"
proof
  assume "show_nat n = CHR ''-'' # s"
  then have "CHR ''-'' \<in> set (show_nat n)" by simp
  then show False using show_nat_digits not_digit_minus by blast
qed

lemma show_int_inject [simp]: "show_int i = show_int j \<longleftrightarrow> i = j"
  using show_nat_no_minus [symmetric]
  by (auto simp: show_int_def show_nat_no_minus nat_eq_iff split: if_splits)

lemma show_int_no_colon: "CHR '':'' \<notin> set (show_int i)"
  by (auto simp: show_int_def dest: show_nat_digits)

text \<open>Evaluation on integers, without unary intermediate values.\<close>

function show_pos :: "int \<Rightarrow> string" where
  "show_pos i = (if i < 10 then [char_of (48 + i)] else show_pos (i div 10) @ [char_of (48 + i mod 10)])"
  by pat_completeness auto
termination
  by (relation "measure nat") auto

declare show_pos.simps [simp del]

lemma digit_char_int: "digit_char d = char_of (48 + int d)"
  using char_of_nat [of "48 + d", where 'a = int] by (simp add: digit_char_def)

lemma show_pos_of_nat: "show_pos (int n) = show_nat n"
proof (induction n rule: show_nat.induct)
  case (1 n)
  then show ?case
    by (subst show_pos.simps, subst show_nat.simps) (auto simp: digit_char_int zdiv_int zmod_int)
qed

lemma show_int_code [code]:
  "show_int i = (if i < 0 then CHR ''-'' # show_pos (- i) else show_pos i)"
  using show_pos_of_nat [of "nat i"] show_pos_of_nat [of "nat (- i)"] by (cases "i < 0") (simp_all add: show_int_def)

text \<open>A separator that occurs in neither field makes a composite key injective.\<close>

lemma append_sep_inject:
  assumes "c \<notin> set xs" and "c \<notin> set xs'" and "xs @ c # ys = xs' @ c # ys'"
  shows "xs = xs' \<and> ys = ys'"
  using assms by (induction xs arbitrary: xs') (auto simp: Cons_eq_append_conv append_eq_Cons_conv)

end
