(* ===== verification/JsNumber.thy ===== *)
theory JsNumber
  imports Prelude Complex_Main
begin

text \<open>
  The part of JavaScript's \<open>number\<close> the sources compute with. Every finite double denotes a
  rational, so a finite number is its exact rational value and each arithmetic operation is the
  exact one followed by \<open>rnd64\<close>, IEEE-754 round-to-nearest-even at 53 significant bits (with
  gradual underflow). Comparisons are exact. \<open>js_Number\<close> is the conversion \<open>Number(x)\<close> of a string,
  a number or \<open>undefined\<close>, which is how every environment variable is read. The sign of zero is not
  kept: no source reads it.
\<close>

section \<open>Rounding to nearest, ties to even\<close>

definition round_half_even :: "rat \<Rightarrow> int" where
  "round_half_even x =
     (let f = \<lfloor>x\<rfloor>; d = x - of_int f
      in if d < 1/2 then f else if 1/2 < d then f + 1 else if even f then f else f + 1)"

function bits :: "int \<Rightarrow> nat" where
  "bits n = (if n \<le> 0 then 0 else Suc (bits (n div 2)))"
  by pat_completeness auto
termination
  by (relation "measure nat") auto

declare bits.simps [simp del]

text \<open>The binary exponent of a positive rational.\<close>

definition ilog2 :: "rat \<Rightarrow> int" where
  "ilog2 x = (if 1 \<le> x then int (bits \<lfloor>x\<rfloor>) - 1 else - int (bits (\<lceil>1/x\<rceil> - 1)))"

text \<open>The spacing of doubles around \<open>x\<close>; \<open>-1022\<close> is the least normal exponent.\<close>

definition quantum :: "rat \<Rightarrow> rat" where
  "quantum x = 2 powi (max (ilog2 \<bar>x\<bar>) (-1022) - 52)"

definition rnd64 :: "rat \<Rightarrow> rat" where
  "rnd64 x = (if x = 0 then 0 else of_int (round_half_even (x / quantum x)) * quantum x)"

lemma round_half_even_bounds: "\<lfloor>x\<rfloor> \<le> round_half_even x \<and> round_half_even x \<le> \<lfloor>x\<rfloor> + 1"
  by (simp add: round_half_even_def Let_def)

lemma round_half_even_of_int [simp]: "round_half_even (of_int n) = n"
  by (simp add: round_half_even_def)

lemma round_half_even_mono:
  assumes "x \<le> y" shows "round_half_even x \<le> round_half_even y"
proof (cases "\<lfloor>x\<rfloor> = \<lfloor>y\<rfloor>")
  case True
  with assms show ?thesis by (auto simp: round_half_even_def Let_def)
next
  case False
  with floor_mono [OF assms] have "\<lfloor>x\<rfloor> + 1 \<le> \<lfloor>y\<rfloor>" by simp
  then show ?thesis using round_half_even_bounds [of x] round_half_even_bounds [of y] by linarith
qed

lemma round_half_even_minus: "round_half_even (- x) = - round_half_even x"
proof (cases "x = of_int \<lfloor>x\<rfloor>")
  case True
  then show ?thesis by (metis of_int_minus round_half_even_of_int)
next
  case False
  then have "\<lfloor>- x\<rfloor> = - \<lfloor>x\<rfloor> - 1"
    by (simp add: floor_minus ceiling_altdef)
  then show ?thesis by (auto simp: round_half_even_def Let_def)
qed

lemma bits_bounds: "0 < n \<Longrightarrow> 2 ^ bits n \<le> 2 * n \<and> n < 2 ^ bits n"
proof (induction n rule: bits.induct)
  case (1 n)
  show ?case
  proof (cases "n div 2 \<le> 0")
    case True
    with 1(2) have "n = 1" by linarith
    then show ?thesis by (simp add: bits.simps)
  next
    case False
    with 1 have "2 ^ bits (n div 2) \<le> 2 * (n div 2) \<and> n div 2 < 2 ^ bits (n div 2)" by simp
    moreover have "bits n = Suc (bits (n div 2))" using 1(2) by (subst bits.simps) simp
    ultimately show ?thesis by auto
  qed
qed

lemma ilog2_bounds:
  assumes "0 < x"
  shows "2 powi ilog2 x \<le> x \<and> x < 2 powi (ilog2 x + 1)"
proof (cases "1 \<le> x")
  case True
  define n where "n = \<lfloor>x\<rfloor>"
  have n: "of_int n \<le> x" "x < of_int n + 1" "0 < n" using True unfolding n_def by linarith+
  have b: "2 ^ bits n \<le> 2 * n" "n + 1 \<le> 2 ^ bits n" using bits_bounds [OF n(3)] by auto
  have b': "(2::rat) ^ bits n \<le> 2 * of_int n" "of_int n + 1 \<le> (2::rat) ^ bits n"
    using b(1) [THEN of_int_le_iff [where 'a = rat, THEN iffD2]] b(2) [THEN of_int_le_iff [where 'a = rat, THEN iffD2]] by simp_all
  have e: "ilog2 x = int (bits n) - 1" using True by (simp add: ilog2_def n_def)
  have "2 powi ilog2 x = (2::rat) ^ bits n / 2" unfolding e by (simp add: power_int_diff)
  moreover have "2 powi (ilog2 x + 1) = (2::rat) ^ bits n" unfolding e by simp
  ultimately show ?thesis using n b' by simp
next
  case False
  define k where "k = \<lceil>1/x\<rceil> - 1"
  have gt: "1 < 1/x" using False assms by simp
  then have c: "2 \<le> \<lceil>1/x\<rceil>" by linarith
  then have k: "of_int k < 1/x" "1/x \<le> of_int k + 1" "0 < k"
    unfolding k_def by (linarith, linarith, linarith)
  have b: "2 ^ bits k \<le> 2 * k" "k + 1 \<le> 2 ^ bits k" using bits_bounds [OF k(3)] by auto
  have b': "(2::rat) ^ bits k \<le> 2 * of_int k" "of_int k + 1 \<le> (2::rat) ^ bits k"
    using b(1) [THEN of_int_le_iff [where 'a = rat, THEN iffD2]] b(2) [THEN of_int_le_iff [where 'a = rat, THEN iffD2]] by simp_all
  have e: "ilog2 x = - int (bits k)" using False by (simp add: ilog2_def k_def)
  have p: "2 powi ilog2 x = 1 / (2::rat) ^ bits k" unfolding e by (simp add: power_int_minus divide_inverse)
  moreover have "2 powi (ilog2 x + 1) = 2 / (2::rat) ^ bits k"
    using p by (simp add: power_int_add)
  moreover have "1/x \<le> (2::rat) ^ bits k" "(2::rat) ^ bits k < 2 / x" using k b' by simp_all
  then have "1 / (2::rat) ^ bits k \<le> x" "x < 2 / (2::rat) ^ bits k"
    using assms by (simp_all add: field_simps)
  ultimately show ?thesis by simp
qed

section \<open>Laws of rounding\<close>

lemma ilog2_mono:
  assumes "0 < x" and "x \<le> y" shows "ilog2 x \<le> ilog2 y"
proof (rule ccontr)
  assume "\<not> ilog2 x \<le> ilog2 y"
  then have "2 powi (ilog2 y + 1) \<le> (2::rat) powi ilog2 x" by (intro power_int_increasing) auto
  then show False using ilog2_bounds [of x] ilog2_bounds [of y] assms by linarith
qed

lemma quantum_pos [simp]: "0 < quantum x"
  by (simp add: quantum_def)

lemma quantum_neq_0 [simp]: "quantum x \<noteq> 0"
  by (simp add: quantum_def)

lemma quantum_nonneg [simp]: "0 \<le> quantum x"
  by (rule less_imp_le) simp

lemma quantum_minus [simp]: "quantum (- x) = quantum x"
  by (simp add: quantum_def)

lemma rnd64_0 [simp]: "rnd64 0 = 0"
  by (simp add: rnd64_def)

lemma rnd64_minus: "rnd64 (- x) = - rnd64 x"
  by (simp add: rnd64_def round_half_even_minus)

lemma rnd64_nonneg: "0 \<le> x \<Longrightarrow> 0 \<le> rnd64 x"
  using round_half_even_mono [of 0 "x / quantum x"] round_half_even_of_int [of 0]
  by (simp add: rnd64_def)

lemma rnd64_le_of_multiple:
  assumes "0 < x" and "x \<le> of_int m * quantum x" shows "rnd64 x \<le> of_int m * quantum x"
proof -
  have "x / quantum x \<le> of_int m" using assms(2) by (simp add: divide_le_eq)
  from round_half_even_mono [OF this] have "round_half_even (x / quantum x) \<le> m" by simp
  then have "of_int (round_half_even (x / quantum x)) * quantum x \<le> of_int m * quantum x"
    by (intro mult_right_mono) simp_all
  then show ?thesis using assms(1) by (simp add: rnd64_def)
qed

lemma rnd64_ge_of_multiple:
  assumes "0 < x" and "of_int m * quantum x \<le> x" shows "of_int m * quantum x \<le> rnd64 x"
proof -
  have "of_int m \<le> x / quantum x" using assms(2) by (simp add: le_divide_eq)
  from round_half_even_mono [OF this] have "m \<le> round_half_even (x / quantum x)" by simp
  then have "of_int m * quantum x \<le> of_int (round_half_even (x / quantum x)) * quantum x"
    by (intro mult_right_mono) simp_all
  then show ?thesis using assms(1) by (simp add: rnd64_def)
qed

lemma powi_multiple_of_quantum:
  assumes "max (ilog2 \<bar>x\<bar>) (-1022) - 52 \<le> e"
  shows "(2::rat) powi e = of_int (2 ^ nat (e - (max (ilog2 \<bar>x\<bar>) (-1022) - 52))) * quantum x"
proof -
  let ?q = "max (ilog2 \<bar>x\<bar>) (-1022) - 52"
  have "(2::rat) powi e = 2 powi (e - ?q) * 2 powi ?q" by (simp flip: power_int_add)
  moreover have "(2::rat) powi (e - ?q) = of_int (2 ^ nat (e - ?q))"
    using assms by (simp add: power_int_def)
  ultimately show ?thesis by (simp add: quantum_def)
qed

lemma rnd64_mono_pos:
  assumes "0 < x" and "x \<le> y" shows "rnd64 x \<le> rnd64 y"
proof (cases "quantum x = quantum y")
  case True
  have "round_half_even (x / quantum y) \<le> round_half_even (y / quantum y)"
    using assms by (intro round_half_even_mono divide_right_mono) (simp_all add: less_imp_le)
  then show ?thesis using assms True by (simp add: rnd64_def less_imp_le mult_right_mono)
next
  case False
  let ?ex = "max (ilog2 \<bar>x\<bar>) (-1022)" and ?ey = "max (ilog2 \<bar>y\<bar>) (-1022)"
  have y: "0 < y" using assms by linarith
  have le: "ilog2 x \<le> ilog2 y" by (rule ilog2_mono [OF assms])
  have lt: "?ex < ?ey" using False le assms y by (cases "ilog2 x = ilog2 y") (auto simp: quantum_def)
  then have ey: "?ey = ilog2 y" using y by (auto simp: max_def split: if_splits)
  have "x \<le> 2 powi (?ex + 1)"
    using ilog2_bounds [OF assms(1)] power_int_increasing [of "ilog2 x + 1" "?ex + 1" "2::rat"] assms
    by simp
  then have "rnd64 x \<le> 2 powi (?ex + 1)"
    using rnd64_le_of_multiple [OF assms(1), of "2 ^ 53"] powi_multiple_of_quantum [of x "?ex + 1"] by simp
  also have "(2::rat) powi (?ex + 1) \<le> 2 powi (ilog2 y)"
    using lt ey by (intro power_int_increasing) auto
  also have "2 powi (ilog2 y) \<le> rnd64 y"
    using rnd64_ge_of_multiple [OF y, of "2 ^ 52"] powi_multiple_of_quantum [of y "ilog2 y"]
      ilog2_bounds [OF y] y ey by simp
  finally show ?thesis .
qed

lemma rnd64_mono: assumes "x \<le> y" shows "rnd64 x \<le> rnd64 y"
proof (cases "0 < x")
  case True
  then show ?thesis using assms by (rule rnd64_mono_pos)
next
  case False
  show ?thesis
  proof (cases "0 \<le> y")
    case True
    then show ?thesis using False rnd64_nonneg [of y] rnd64_nonneg [of "- x"]
      by (simp add: rnd64_minus)
  next
    case neg: False
    then have "rnd64 (- y) \<le> rnd64 (- x)" using assms by (intro rnd64_mono_pos) auto
    then show ?thesis by (simp add: rnd64_minus)
  qed
qed

lemma rnd64_error: "\<bar>rnd64 x - x\<bar> \<le> quantum x / 2"
proof (cases "x = 0")
  case False
  define y where "y = x / quantum x"
  have q: "0 < quantum x" by (rule quantum_pos)
  have "\<bar>of_int (round_half_even y) - y\<bar> \<le> 1/2"
    by (auto simp: round_half_even_def Let_def abs_if split: if_splits) linarith+
  then have "\<bar>of_int (round_half_even y) - y\<bar> * quantum x \<le> 1/2 * quantum x"
    using q by (intro mult_right_mono) simp_all
  moreover have "\<bar>rnd64 x - x\<bar> = \<bar>of_int (round_half_even y) - y\<bar> * quantum x"
  proof -
    have "rnd64 x - x = (of_int (round_half_even y) - y) * quantum x"
      using q False by (simp add: rnd64_def y_def left_diff_distrib)
    then show ?thesis using q by (simp add: abs_mult)
  qed
  ultimately show ?thesis by simp
qed (simp add: quantum_def rnd64_def)

text \<open>The doubles: an integer of at most 53 bits times a power of two.\<close>

definition is_double :: "rat \<Rightarrow> bool" where
  "is_double x \<longleftrightarrow> (\<exists>m e. x = of_int m * 2 powi e \<and> \<bar>m\<bar> \<le> 2 ^ 53 \<and> -1074 \<le> e)"

lemma rnd64_multiple: "x = of_int m * quantum x \<Longrightarrow> rnd64 x = x"
  by (metis nonzero_mult_div_cancel_right quantum_pos order_less_irrefl rnd64_def round_half_even_of_int)

lemma rnd64_exact:
  assumes "is_double x" shows "rnd64 x = x"
proof (cases "x = 0")
  case False
  obtain m e where x: "x = of_int m * 2 powi e" and m: "\<bar>m\<bar> \<le> 2 ^ 53" and e: "-1074 \<le> e"
    using assms unfolding is_double_def by blast
  let ?q = "max (ilog2 \<bar>x\<bar>) (-1022) - 52"
  show ?thesis
  proof (cases "?q \<le> e")
    case True
    from powi_multiple_of_quantum [OF this]
    have "x = of_int (m * 2 ^ nat (e - ?q)) * quantum x" using x by (simp add: mult.assoc)
    then show ?thesis by (rule rnd64_multiple)
  next
    case less: False
    have ax: "0 < \<bar>x\<bar>" using False by simp
    have q: "?q = ilog2 \<bar>x\<bar> - 52" using less e by (auto simp: max_def split: if_splits)
    have "(2::rat) powi (e + 53) \<le> 2 powi ilog2 \<bar>x\<bar>"
      using less q by (intro power_int_increasing) auto
    also have "\<dots> \<le> \<bar>x\<bar>" using ilog2_bounds [OF ax] by simp
    also have "\<bar>x\<bar> = of_int \<bar>m\<bar> * 2 powi e" using x by (simp add: abs_mult)
    finally have "(2::rat) ^ 53 * 2 powi e \<le> of_int \<bar>m\<bar> * 2 powi e"
      by (simp add: power_int_add mult.commute)
    then have "of_int (2 ^ 53) \<le> (of_int \<bar>m\<bar> :: rat)"
      using mult_le_cancel_right_pos [of "2 powi e" "2 ^ 53" "rat_of_int \<bar>m\<bar>"] by simp
    then have m': "\<bar>m\<bar> = 2 ^ 53" using m by (simp only: of_int_le_iff)
    then have xx: "\<bar>x\<bar> = 2 powi (e + 53)" using x by (simp add: abs_mult power_int_add mult.commute)
    then have "2 powi ilog2 \<bar>x\<bar> \<le> (2::rat) powi (e + 53)" using ilog2_bounds [OF ax] by simp
    then have "ilog2 \<bar>x\<bar> \<le> e + 53"
      using power_int_strict_increasing [of "e + 53" "ilog2 \<bar>x\<bar>" "2::rat"] by fastforce
    then have "?q \<le> e + 1 \<and> ?q \<le> e + 53" using q by simp
    from powi_multiple_of_quantum [of x "e + 53"] this xx
    have "\<bar>x\<bar> = of_int (2 ^ nat (e + 53 - ?q)) * quantum x" by simp
    then have "x = of_int (sgn m * 2 ^ nat (e + 53 - ?q)) * quantum x"
      using x False by (cases "0 < m") (simp_all add: abs_mult sgn_if abs_of_neg flip: minus_mult_left)
    then show ?thesis by (rule rnd64_multiple)
  qed
qed simp

lemma is_doubleI: "x = of_int m * 2 powi e \<Longrightarrow> \<bar>m\<bar> \<le> 2 ^ 53 \<Longrightarrow> -1074 \<le> e \<Longrightarrow> is_double x"
  unfolding is_double_def by blast

lemma is_double_of_int: "\<bar>n\<bar> \<le> 2 ^ 53 \<Longrightarrow> is_double (of_int n)"
  by (rule is_doubleI [of _ n 0]) simp_all

text \<open>A bound that is itself a double survives rounding on either side.\<close>

lemma rnd64_le_double: "x \<le> d \<Longrightarrow> is_double d \<Longrightarrow> rnd64 x \<le> d"
  using rnd64_mono [of x d] by (simp add: rnd64_exact)

lemma rnd64_ge_double: "d \<le> x \<Longrightarrow> is_double d \<Longrightarrow> d \<le> rnd64 x"
  using rnd64_mono [of d x] by (simp add: rnd64_exact)

section \<open>Numbers and their conversions\<close>

datatype jsnum = NaN | PosInf | NegInf | Fin rat

text \<open>A value read from the configuration: absent, the raw string, or a number a schema produced.\<close>

datatype cfg = Undef | Str string | Num jsnum

definition mk_num :: "rat \<Rightarrow> jsnum" where
  "mk_num x = (let r = rnd64 x in
     if r \<noteq> 0 \<and> 1024 \<le> ilog2 \<bar>r\<bar> then (if 0 < r then PosInf else NegInf) else Fin r)"

definition is_ws :: "char \<Rightarrow> bool" where
  "is_ws c \<longleftrightarrow> (of_char c :: nat) \<in> {9, 10, 11, 12, 13, 32}"

definition js_trim :: "string \<Rightarrow> string" where
  "js_trim s = rev (dropWhile is_ws (rev (dropWhile is_ws s)))"

fun span_digits :: "string \<Rightarrow> string \<times> string" where
  "span_digits s = (takeWhile is_digit s, dropWhile is_digit s)"

text \<open>The exponent part: absent, or \<open>e\<close>, an optional sign and at least one digit.\<close>

fun parse_exp :: "string \<Rightarrow> int option" where
  "parse_exp [] = Some 0"
| "parse_exp (c # s) =
     (if c = CHR ''e'' \<or> c = CHR ''E''
      then (let (neg, ds) = (case s of x # r \<Rightarrow> if x = CHR ''-'' then (True, r)
                                              else if x = CHR ''+'' then (False, r) else (False, s)
                                     | [] \<Rightarrow> (False, s))
            in if ds \<noteq> [] \<and> list_all is_digit ds
               then Some (if neg then - read_digits 0 ds else read_digits 0 ds) else None)
      else None)"

definition parse_unsigned :: "string \<Rightarrow> jsnum" where
  "parse_unsigned s =
     (if s = ''Infinity'' then PosInf
      else let (ip, r) = span_digits s;
               (fp, r') = (case r of c # t \<Rightarrow> if c = CHR ''.'' then span_digits t else ([], r) | [] \<Rightarrow> ([], []))
           in if ip = [] \<and> fp = [] then NaN
              else case parse_exp r' of
                     None \<Rightarrow> NaN
                   | Some e \<Rightarrow> mk_num (of_int (read_digits 0 (ip @ fp)) * 10 powi (e - int (length fp))))"

fun neg_num :: "jsnum \<Rightarrow> jsnum" where
  "neg_num NaN = NaN"
| "neg_num PosInf = NegInf"
| "neg_num NegInf = PosInf"
| "neg_num (Fin x) = Fin (- x)"

text \<open>Digits of the prefixed literals: \<open>0x\<close>, \<open>0o\<close>, \<open>0b\<close>.\<close>

definition radix_val :: "char \<Rightarrow> int" where
  "radix_val c = (let n = of_char c in
     if 48 \<le> n \<and> n \<le> 57 then n - 48 else if 97 \<le> n \<and> n \<le> 102 then n - 87
     else if 65 \<le> n \<and> n \<le> 70 then n - 55 else 16)"

definition parse_radix :: "int \<Rightarrow> string \<Rightarrow> jsnum" where
  "parse_radix b s =
     (if s \<noteq> [] \<and> list_all (\<lambda>c. radix_val c < b) s
      then mk_num (of_int (foldl (\<lambda>acc c. b * acc + radix_val c) 0 s)) else NaN)"

text \<open>\<open>Number(s)\<close> on a string.\<close>

definition string_to_number :: "string \<Rightarrow> jsnum" where
  "string_to_number s0 =
     (let s = js_trim s0 in
      if s = [] then Fin 0
      else case s of
        a # x # r \<Rightarrow>
          if a = CHR ''0'' \<and> (x = CHR ''x'' \<or> x = CHR ''X'') then parse_radix 16 r
          else if a = CHR ''0'' \<and> (x = CHR ''o'' \<or> x = CHR ''O'') then parse_radix 8 r
          else if a = CHR ''0'' \<and> (x = CHR ''b'' \<or> x = CHR ''B'') then parse_radix 2 r
          else if a = CHR ''-'' then neg_num (parse_unsigned (x # r))
          else if a = CHR ''+'' then parse_unsigned (x # r)
          else parse_unsigned s
      | _ \<Rightarrow> parse_unsigned s)"

fun js_Number :: "cfg \<Rightarrow> jsnum" where
  "js_Number Undef = NaN"
| "js_Number (Str s) = string_to_number s"
| "js_Number (Num n) = n"

text \<open>The idiom \<open>Number.isFinite(n) \<and> n > 0 ? n : fallback\<close>.\<close>

fun positive_or :: "rat \<Rightarrow> jsnum \<Rightarrow> rat" where
  "positive_or d (Fin n) = (if n > 0 then n else d)"
| "positive_or d _ = d"

lemma positive_or_pos: "0 < d \<Longrightarrow> 0 < positive_or d n"
  by (cases n) simp_all

text \<open>The remainder operator on finite numbers: it takes the sign of the dividend and is exact.\<close>

definition js_rem :: "rat \<Rightarrow> rat \<Rightarrow> rat" where
  "js_rem n d = n - d * of_int (if 0 \<le> n / d then \<lfloor>n / d\<rfloor> else \<lceil>n / d\<rceil>)"

lemma js_rem_of_nat: "0 < c \<Longrightarrow> js_rem (of_nat b) (of_nat c) = of_nat (b mod c)"
proof -
  assume "0 < c"
  have "\<lfloor>(of_nat b :: rat) / of_nat c\<rfloor> = int (b div c)"
    by (metis floor_divide_of_nat_eq)
  moreover have "(of_nat b :: rat) = of_nat c * of_nat (b div c) + of_nat (b mod c)"
    by (metis mult_div_mod_eq of_nat_add of_nat_mult)
  ultimately show ?thesis by (simp add: js_rem_def)
qed

text \<open>Comparison: \<open>NaN\<close> is related to nothing.\<close>

fun num_le :: "jsnum \<Rightarrow> jsnum \<Rightarrow> bool" where
  "num_le (Fin x) (Fin y) = (x \<le> y)"
| "num_le NaN _ = False"
| "num_le _ NaN = False"
| "num_le NegInf _ = True"
| "num_le _ PosInf = True"
| "num_le PosInf _ = False"
| "num_le (Fin _) NegInf = False"

fun num_lt :: "jsnum \<Rightarrow> jsnum \<Rightarrow> bool" where
  "num_lt (Fin x) (Fin y) = (x < y)"
| "num_lt NaN _ = False"
| "num_lt _ NaN = False"
| "num_lt PosInf _ = False"
| "num_lt _ NegInf = False"
| "num_lt _ _ = True"

text \<open>Small integers are computed exactly.\<close>

lemma rnd64_of_int [simp]: "\<bar>n\<bar> \<le> 2 ^ 53 \<Longrightarrow> rnd64 (of_int n) = of_int n"
  by (rule rnd64_exact) (rule is_double_of_int)

text \<open>Only numbers of a magnitude near \<open>2^1024\<close> overflow.\<close>

lemma mk_num_small:
  assumes "\<bar>x\<bar> \<le> 2 ^ 53" shows "mk_num x = Fin (rnd64 x)"
proof -
  have b: "\<bar>rnd64 x\<bar> \<le> 2 ^ 53"
    using assms rnd64_of_int [of "2 ^ 53"] rnd64_of_int [of "- (2 ^ 53)"] rnd64_mono [of x "2 ^ 53"] rnd64_mono [of "- (2 ^ 53)" x]
    by (simp add: abs_le_iff minus_le_iff)
  have "ilog2 \<bar>rnd64 x\<bar> < 1024" if "rnd64 x \<noteq> 0"
  proof (rule ccontr)
    assume "\<not> ?thesis"
    then have "(2::rat) powi 54 \<le> 2 powi ilog2 \<bar>rnd64 x\<bar>" by (intro power_int_increasing) auto
    also have "\<dots> \<le> \<bar>rnd64 x\<bar>" using ilog2_bounds [of "\<bar>rnd64 x\<bar>"] that by simp
    finally show False using b by simp
  qed
  then show ?thesis by (auto simp: mk_num_def Let_def)
qed

lemma mk_num_of_int [simp]:
  assumes "\<bar>n\<bar> \<le> 2 ^ 53" shows "mk_num (of_int n) = Fin (of_int n)"
proof -
  have "\<bar>of_int n\<bar> \<le> (2 ^ 53 :: rat)" using assms by (metis of_int_abs of_int_le_iff of_int_numeral of_int_power)
  then show ?thesis using mk_num_small [of "of_int n"] assms by simp
qed

text \<open>A string of decimal digits denotes the integer it spells.\<close>

lemma is_digit_not_ws: "is_digit c \<Longrightarrow> \<not> is_ws c"
  by (auto simp: is_digit_def is_ws_def)

lemma js_trim_digits: "list_all is_digit s \<Longrightarrow> js_trim s = s"
proof -
  assume "list_all is_digit s"
  then have "\<forall>c \<in> set s. \<not> is_ws c" by (auto simp: list_all_iff is_digit_not_ws)
  then have "dropWhile is_ws s = s" and "dropWhile is_ws (rev s) = rev s"
    using hd_in_set [of s] hd_in_set [of "rev s"] by (auto simp: dropWhile_eq_self_iff)
  then show ?thesis by (simp add: js_trim_def)
qed

lemma is_digit_neq:
  "is_digit c \<Longrightarrow> c \<noteq> CHR ''I'' \<and> c \<noteq> CHR ''x'' \<and> c \<noteq> CHR ''X'' \<and> c \<noteq> CHR ''o'' \<and> c \<noteq> CHR ''O'' \<and>
     c \<noteq> CHR ''b'' \<and> c \<noteq> CHR ''B'' \<and> c \<noteq> CHR ''-'' \<and> c \<noteq> CHR ''+''"
  by (auto simp: is_digit_def)

lemma parse_unsigned_digits:
  assumes "s \<noteq> []" and "list_all is_digit s"
  shows "parse_unsigned s = mk_num (of_int (read_digits 0 s))"
proof -
  have "span_digits s = (s, [])" using assms(2) by (simp add: list_all_iff)
  moreover have "s \<noteq> ''Infinity''" using assms is_digit_neq by (cases s) auto
  ultimately show ?thesis using assms by (simp add: parse_unsigned_def del: span_digits.simps)
qed

lemma string_to_number_digits:
  assumes "s \<noteq> []" and "list_all is_digit s"
  shows "string_to_number s = mk_num (of_int (read_digits 0 s))"
proof -
  have p: "js_trim s = s" "parse_unsigned s = mk_num (of_int (read_digits 0 s))"
    using assms by (simp_all add: js_trim_digits parse_unsigned_digits)
  show ?thesis
  proof (cases "tl s")
    case Nil
    with assms(1) p show ?thesis by (cases s) (simp_all add: string_to_number_def)
  next
    case (Cons x r)
    then obtain a where s: "s = a # x # r" by (cases s) auto
    with assms(2) show ?thesis using p is_digit_neq [of a] is_digit_neq [of x]
      by (simp add: string_to_number_def)
  qed
qed

section \<open>Printing\<close>

text \<open>
  \<open>String(n)\<close>: an integer a double holds exactly is printed in full; any other finite number by the
  shortest decimal that reads back as the same double, the closest one among those, in positional or
  exponent notation depending on its magnitude.
\<close>

fun small_exponent :: "nat \<Rightarrow> rat \<Rightarrow> int" where
  "small_exponent 0 x = 0"
| "small_exponent (Suc fuel) x = (if 1 \<le> 10 * x then 0 else small_exponent fuel (10 * x) - 1)"

text \<open>The \<open>n\<close> with \<open>10^(n-1) \<le> x < 10^n\<close>; a positive double is at least \<open>2^-1074\<close>, so 330 steps suffice.\<close>

definition dec_exponent :: "rat \<Rightarrow> int" where
  "dec_exponent x = (if 1 \<le> x then int (length (show_int \<lfloor>x\<rfloor>)) else small_exponent 330 x)"

definition reads_back :: "rat \<Rightarrow> int \<Rightarrow> nat \<Rightarrow> int option" where
  "reads_back x n k =
     (let q = 10 powi (n - int k); f = \<lfloor>x / q\<rfloor>;
          ok = filter (\<lambda>m. m < 10 ^ k \<and> rnd64 (of_int m * q) = x) [f, f + 1]
      in case ok of [] \<Rightarrow> None | [a] \<Rightarrow> Some a
         | a # b # _ \<Rightarrow> Some (if \<bar>of_int a * q - x\<bar> \<le> \<bar>of_int b * q - x\<bar> then a else b))"

fun shortest :: "rat \<Rightarrow> int \<Rightarrow> nat list \<Rightarrow> string" where
  "shortest x n [] = []"
| "shortest x n (k # ks) = (case reads_back x n k of Some m \<Rightarrow> show_int m | None \<Rightarrow> shortest x n ks)"

definition layout_digits :: "string \<Rightarrow> int \<Rightarrow> string" where
  "layout_digits ds n =
     (let k = int (length ds) in
      if k \<le> n \<and> n \<le> 21 then ds @ replicate (nat (n - k)) (CHR ''0'')
      else if 0 < n \<and> n \<le> 21 then take (nat n) ds @ ''.'' @ drop (nat n) ds
      else if -6 < n \<and> n \<le> 0 then ''0.'' @ replicate (nat (- n)) (CHR ''0'') @ ds
      else take 1 ds @ (if k = 1 then [] else ''.'' @ drop 1 ds) @ ''e'' @
           (if n - 1 < 0 then ''-'' else ''+'') @ show_int \<bar>n - 1\<bar>)"

definition js_show :: "rat \<Rightarrow> string" where
  "js_show x =
     (if x = of_int \<lfloor>x\<rfloor> \<and> \<bar>x\<bar> \<le> 2 ^ 53 then show_int \<lfloor>x\<rfloor>
      else let n = dec_exponent \<bar>x\<bar>; body = layout_digits (shortest \<bar>x\<bar> n [1..<18]) n
           in if x < 0 then CHR ''-'' # body else body)"

fun js_show_num :: "jsnum \<Rightarrow> string" where
  "js_show_num NaN = ''NaN''"
| "js_show_num PosInf = ''Infinity''"
| "js_show_num NegInf = ''-Infinity''"
| "js_show_num (Fin x) = js_show x"

lemma js_show_of_int [simp]: "\<bar>i\<bar> \<le> 2 ^ 53 \<Longrightarrow> js_show (of_int i) = show_int i"
proof -
  assume "\<bar>i\<bar> \<le> 2 ^ 53"
  then have "\<bar>of_int i\<bar> \<le> (2 ^ 53 :: rat)" by (metis of_int_abs of_int_le_iff of_int_numeral of_int_power)
  then show ?thesis by (simp add: js_show_def)
qed

lemma js_Number_show_nat: "n \<le> 2 ^ 53 \<Longrightarrow> js_Number (Str (show_nat n)) = Fin (of_nat n)"
  using string_to_number_digits [of "show_nat n"] mk_num_of_int [of "int n"]
  by (auto simp: list_all_iff dest: show_nat_digits)

end
