(* ===== verification/Conditions.thy ===== *)
theory Conditions
  imports JsNumber
begin

text \<open>
  The domain vocabulary (\<open>libs/domain/src/enums.ts\<close>) and the condition evaluator
  (\<open>libs/domain/src/weather/condition-evaluator.ts\<close>): a snapshot of finite numbers, one condition
  compared against it, and a list of conditions combined with AND or OR.
\<close>

section \<open>Vocabulary\<close>

datatype Metric = TEMPERATURE | APPARENT_TEMP | WIND_SPEED | PRECIPITATION | HUMIDITY | SEVERE

datatype Operator = GT | GTE | LT | LTE | EQ

datatype ConditionLogic = LogicAND | LogicOR

datatype TriggerState = ARMED | FIRED

datatype Channel = TELEGRAM | EMAIL | WEB_PUSH

datatype NotifStatus = PENDING | SENT | FAILED

section \<open>Evaluation\<close>

record WeatherSnapshot =
  temperature :: rat
  apparentTemp :: rat
  humidity :: rat
  windSpeed :: rat
  precipitation :: rat
  weatherCode :: rat

record ConditionResult =
  matched :: bool
  observedValue :: rat

definition SEVERE_WEATHER_CODES :: "rat list" where
  "SEVERE_WEATHER_CODES = [65, 67, 75, 82, 86, 95, 96, 99]"

definition isSevereWeatherCode :: "rat \<Rightarrow> bool" where
  "isSevereWeatherCode code \<longleftrightarrow> code \<in> set SEVERE_WEATHER_CODES"

definition EQ_TOLERANCE :: rat where
  "EQ_TOLERANCE = 1/2"

fun metricValue :: "WeatherSnapshot \<Rightarrow> Metric \<Rightarrow> rat" where
  "metricValue s TEMPERATURE = temperature s"
| "metricValue s APPARENT_TEMP = apparentTemp s"
| "metricValue s WIND_SPEED = windSpeed s"
| "metricValue s PRECIPITATION = precipitation s"
| "metricValue s HUMIDITY = humidity s"
| "metricValue s SEVERE = weatherCode s"

fun compare :: "rat \<Rightarrow> Operator \<Rightarrow> rat \<Rightarrow> bool" where
  "compare v GT t = (v > t)"
| "compare v GTE t = (v \<ge> t)"
| "compare v LT t = (v < t)"
| "compare v LTE t = (v \<le> t)"
| "compare v EQ t = (\<bar>rnd64 (v - t)\<bar> \<le> EQ_TOLERANCE)"

definition evaluateCondition ::
  "WeatherSnapshot \<Rightarrow> Metric \<Rightarrow> Operator \<Rightarrow> rat \<Rightarrow> ConditionResult" where
  "evaluateCondition s m op t =
     (if m = SEVERE
      then \<lparr>matched = isSevereWeatherCode (weatherCode s), observedValue = weatherCode s\<rparr>
      else let v = metricValue s m in \<lparr>matched = compare v op t, observedValue = v\<rparr>)"

record ConditionSpec =
  metric :: Metric
  operator :: Operator
  threshold :: rat

text \<open>\<open>T & {matched, observedValue}\<close>: the condition as given, whatever else it carries, and its result.\<close>

record 'c EvaluatedCondition =
  ec_cond :: 'c
  ec_matched :: bool
  ec_observedValue :: rat

record 'c ConditionsResult =
  cs_matched :: bool
  results :: "'c EvaluatedCondition list"

definition evaluateConditions ::
  "WeatherSnapshot \<Rightarrow> 'a ConditionSpec_scheme list \<Rightarrow> ConditionLogic \<Rightarrow>
   'a ConditionSpec_scheme ConditionsResult" where
  "evaluateConditions s conditions logic =
     (let rs = map (\<lambda>c. let r = evaluateCondition s (metric c) (operator c) (threshold c)
                        in \<lparr>ec_cond = c, ec_matched = matched r, ec_observedValue = observedValue r\<rparr>)
                   conditions
      in \<lparr>cs_matched = (if conditions = [] then False
                        else if logic = LogicOR then list_ex ec_matched rs
                        else list_all ec_matched rs),
          results = rs\<rparr>)"

section \<open>Properties\<close>

text \<open>The declarative reading: what it means for one condition to hold of a snapshot.\<close>

definition condition_holds :: "WeatherSnapshot \<Rightarrow> 'a ConditionSpec_scheme \<Rightarrow> bool" where
  "condition_holds s c \<longleftrightarrow>
     (if metric c = SEVERE then weatherCode s \<in> {65, 67, 75, 82, 86, 95, 96, 99}
      else compare (metricValue s (metric c)) (operator c) (threshold c))"

lemma evaluateCondition_matched:
  "matched (evaluateCondition s (metric c) (operator c) (threshold c)) \<longleftrightarrow> condition_holds s c"
  by (auto simp: evaluateCondition_def condition_holds_def isSevereWeatherCode_def
      SEVERE_WEATHER_CODES_def Let_def)

lemma evaluateCondition_observed:
  "observedValue (evaluateCondition s m op t) = metricValue s m"
  by (simp add: evaluateCondition_def Let_def)

lemma evaluateConditions_results:
  "results (evaluateConditions s cs logic) =
     map (\<lambda>c. \<lparr>ec_cond = c, ec_matched = condition_holds s c,
               ec_observedValue = metricValue s (metric c)\<rparr>) cs"
  by (simp add: evaluateConditions_def Let_def evaluateCondition_matched evaluateCondition_observed)

lemma evaluateConditions_cs_matched:
  "cs_matched (evaluateConditions s cs logic) \<longleftrightarrow>
     cs \<noteq> [] \<and> (if logic = LogicOR then \<exists>c \<in> set cs. condition_holds s c
                else \<forall>c \<in> set cs. condition_holds s c)"
  by (auto simp: evaluateConditions_def Let_def list_ex_iff list_all_iff evaluateCondition_matched)

text \<open>
  Evaluating a list of conditions matches exactly when the list is not empty and some (OR) or
  every (AND) condition holds of the snapshot; the results list the conditions in their order, each
  with its own verdict and the value it was compared against.
\<close>

theorem evaluateConditions_correct:
  "evaluateConditions s cs logic =
     \<lparr>cs_matched = (cs \<noteq> [] \<and> (case logic of LogicOR \<Rightarrow> \<exists>c \<in> set cs. condition_holds s c
                                 | LogicAND \<Rightarrow> \<forall>c \<in> set cs. condition_holds s c)),
      results = map (\<lambda>c. \<lparr>ec_cond = c, ec_matched = condition_holds s c,
                          ec_observedValue = metricValue s (metric c)\<rparr>) cs\<rparr>"
  by (cases logic)
    (simp_all add: ConditionsResult.equality evaluateConditions_results evaluateConditions_cs_matched)

theorem evaluateConditions_correct_witness:
  "cs_matched (evaluateConditions
      \<lparr>temperature = 31, apparentTemp = 33, humidity = 40, windSpeed = 12, precipitation = 0,
       weatherCode = 95\<rparr>
      [\<lparr>metric = TEMPERATURE, operator = GT, threshold = 30\<rparr>,
       \<lparr>metric = SEVERE, operator = GT, threshold = 0\<rparr>] LogicAND)"
  by (simp add: evaluateConditions_correct condition_holds_def)

lemma half_is_double: "is_double (1/2)"
  by (rule is_doubleI [of _ 1 "-1"]) simp_all

lemma half_ulp_is_double: "is_double (1/2 + 1 / 2 ^ 53)"
  by (rule is_doubleI [of _ "2 ^ 52 + 1" "-53"]) (simp_all add: power_int_minus)

text \<open>
  An EQ condition matches every value within half a unit of its threshold, and whatever it
  matches is closer than half a unit plus one unit in the last place: rounding the difference to a
  double widens the documented tolerance by less than \<open>2\<^sup>-\<^sup>5\<^sup>3\<close> and never narrows it.
\<close>

theorem compare_EQ_tolerance:
  "(\<bar>v - t\<bar> \<le> 1/2 \<longrightarrow> compare v EQ t) \<and> (compare v EQ t \<longrightarrow> \<bar>v - t\<bar> < 1/2 + 1 / 2 ^ 53)"
proof -
  have abs: "\<bar>rnd64 (v - t)\<bar> = rnd64 \<bar>v - t\<bar>"
    using rnd64_nonneg [of "v - t"] rnd64_nonneg [of "- (v - t)"] rnd64_minus [of "v - t"]
    by (cases "0 \<le> v - t") auto
  have "1/2 + 1 / 2 ^ 53 \<le> rnd64 \<bar>v - t\<bar>" if "\<not> \<bar>v - t\<bar> < 1/2 + 1 / 2 ^ 53"
    using that by (intro rnd64_ge_double half_ulp_is_double) simp
  then show ?thesis
    using rnd64_le_double [OF _ half_is_double, of "\<bar>v - t\<bar>"]
    by (fastforce simp: abs EQ_TOLERANCE_def)
qed

theorem compare_EQ_tolerance_witness:
  "\<bar>(41/2 :: rat) - 20\<bar> \<le> 1/2 \<and> compare (41/2) EQ 20 \<and> \<bar>(41/2 :: rat) - 20\<bar> < 1/2 + 1 / 2 ^ 53"
  using compare_EQ_tolerance [of "41/2" 20] by simp

end
