(* ===== verification/QuietHours.thy ===== *)
theory QuietHours
  imports JsNumber
begin

text \<open>
  \<open>libs/domain/src/quiet-hours.ts\<close>: whether an instant falls into a daily window of local
  \<open>HH:MM\<close> bounds, and the validator of those bounds (\<open>users/dto/update-profile.dto.ts\<close>). The time
  zone database behind \<open>Intl.DateTimeFormat\<close> is a parameter: \<open>zone_parts\<close> is the formatter of a zone
  (\<open>None\<close> where the constructor throws a \<open>RangeError\<close>) and \<open>utc_parts\<close> the one of UTC.
\<close>

record intl =
  zone_parts :: "string \<Rightarrow> (instant \<Rightarrow> (string \<times> string) list) option"
  utc_parts :: "instant \<Rightarrow> (string \<times> string) list"

section \<open>The window\<close>

fun parseHHMM :: "string \<Rightarrow> int option" where
  "parseHHMM [a, b, c, d, e] =
     (if is_digit a \<and> is_digit b \<and> c = CHR '':'' \<and> is_digit d \<and> is_digit e
      then let h = read_digits 0 [a, b]; m = read_digits 0 [d, e]
           in if h > 23 \<or> m > 59 then None else Some (h * 60 + m)
      else None)"
| "parseHHMM _ = None"

definition formatParts :: "intl \<Rightarrow> instant \<Rightarrow> string \<Rightarrow> (string \<times> string) list" where
  "formatParts I now tz = (case zone_parts I tz of Some f \<Rightarrow> f now | None \<Rightarrow> utc_parts I now)"

definition part_number :: "(string \<times> string) list \<Rightarrow> string \<Rightarrow> jsnum" where
  "part_number parts ty =
     string_to_number (case find (\<lambda>p. fst p = ty) parts of Some p \<Rightarrow> snd p | None \<Rightarrow> ''0'')"

definition localMinutes :: "intl \<Rightarrow> instant \<Rightarrow> string option \<Rightarrow> jsnum" where
  "localMinutes I now timezone =
     (let tz = (case timezone of Some z \<Rightarrow> if z = [] then ''UTC'' else z | None \<Rightarrow> ''UTC'');
          parts = formatParts I now tz
      in case (part_number parts ''hour'', part_number parts ''minute'') of
           (Fin h, Fin m) \<Rightarrow> mk_num (rnd64 (js_rem h 24 * 60) + m)
         | (Fin h, m) \<Rightarrow> m
         | _ \<Rightarrow> NaN)"

definition isWithinQuietHours ::
  "intl \<Rightarrow> instant \<Rightarrow> string option \<Rightarrow> string option \<Rightarrow> string option \<Rightarrow> bool" where
  "isWithinQuietHours I now start stop timezone =
     (case (start, stop) of
        (Some s, Some e) \<Rightarrow>
          if s = [] \<or> e = [] then False
          else (case (parseHHMM s, parseHHMM e) of
             (Some startMin, Some endMin) \<Rightarrow>
               if startMin = endMin then False
               else let nowMin = localMinutes I now timezone
                    in if startMin < endMin
                       then num_le (Fin (of_int startMin)) nowMin \<and> num_lt nowMin (Fin (of_int endMin))
                       else num_le (Fin (of_int startMin)) nowMin \<or> num_lt nowMin (Fin (of_int endMin))
           | _ \<Rightarrow> False)
      | _ \<Rightarrow> False)"

text \<open>The pattern a profile update is validated with: \<open>([01][0-9]|2[0-3]):[0-5][0-9]\<close>.\<close>

fun HHMM :: "string \<Rightarrow> bool" where
  "HHMM [a, b, c, d, e] \<longleftrightarrow>
     (a \<in> {CHR ''0'', CHR ''1''} \<and> is_digit b \<or> a = CHR ''2'' \<and> b \<in> {CHR ''0'', CHR ''1'', CHR ''2'', CHR ''3''})
     \<and> c = CHR '':'' \<and> d \<in> {CHR ''0'', CHR ''1'', CHR ''2'', CHR ''3'', CHR ''4'', CHR ''5''} \<and> is_digit e"
| "HHMM _ = False"

section \<open>What the formatter promises\<close>

text \<open>
  The documented shape of \<open>formatToParts\<close> with two-digit hours and minutes on a 24-hour clock: an
  hour of two digits up to 24 (midnight is \<open>24\<close> on some runtimes) and a minute of two digits.
\<close>

definition clock_parts :: "int \<Rightarrow> int \<Rightarrow> (string \<times> string) list \<Rightarrow> bool" where
  "clock_parts h m parts \<longleftrightarrow>
     part_number parts ''hour'' = Fin (of_int h) \<and> part_number parts ''minute'' = Fin (of_int m)
     \<and> 0 \<le> h \<and> h \<le> 24 \<and> 0 \<le> m \<and> m \<le> 59"

definition intl_ok :: "intl \<Rightarrow> bool" where
  "intl_ok I \<longleftrightarrow>
     (\<forall>z f now. zone_parts I z = Some f \<longrightarrow> (\<exists>h m. clock_parts h m (f now)))
     \<and> (\<forall>now. \<exists>h m. clock_parts h m (utc_parts I now))"

lemma formatParts_clock: "intl_ok I \<Longrightarrow> \<exists>h m. clock_parts h m (formatParts I now tz)"
  by (auto simp: intl_ok_def formatParts_def split: option.splits)

lemma clock_minutes:
  assumes "0 \<le> h" "h \<le> 24" "0 \<le> m" "m \<le> (59::int)"
  shows "mk_num (rnd64 (js_rem (of_int h) 24 * 60) + of_int m) = Fin (of_int (h mod 24 * 60 + m))"
proof -
  obtain n where n: "h = int n" using assms(1) by (rule nonneg_int_cases)
  have r: "js_rem (of_int h) 24 = of_int (h mod 24)"
    using js_rem_of_nat [of 24 n] unfolding n by (simp flip: zmod_int [of n 24, simplified])
  have s: "0 \<le> h mod 24 * 60 + m" "h mod 24 * 60 + m < 1440" using assms by auto
  have e: "rnd64 (of_int (h mod 24 * 60)) = of_int (h mod 24 * 60)"
    using s assms by (intro rnd64_of_int) auto
  have "mk_num (of_int (h mod 24 * 60 + m)) = Fin (of_int (h mod 24 * 60 + m))"
    using s by (intro mk_num_of_int) auto
  then show ?thesis using r e by simp
qed

text \<open>The minute of the local day an instant falls on.\<close>

lemma localMinutes_range:
  assumes "intl_ok I"
  shows "\<exists>n. localMinutes I now tz = Fin (of_int n) \<and> 0 \<le> n \<and> n < 1440"
proof -
  define z where "z = (case tz of Some z \<Rightarrow> if z = [] then ''UTC'' else z | None \<Rightarrow> ''UTC'')"
  obtain h m where c: "clock_parts h m (formatParts I now z)" using formatParts_clock [OF assms] by blast
  have "localMinutes I now tz = Fin (of_int (h mod 24 * 60 + m))"
    using c clock_minutes [of h m]
    unfolding localMinutes_def Let_def z_def [symmetric] clock_parts_def by simp
  moreover have "0 \<le> h mod 24 * 60 + m \<and> h mod 24 * 60 + m < 1440"
    using c unfolding clock_parts_def by auto
  ultimately show ?thesis by blast
qed

lemma parseHHMM_range: "parseHHMM s = Some n \<Longrightarrow> 0 \<le> n \<and> n < 1440"
proof (induction s rule: parseHHMM.induct)
  case (1 a b c d e)
  then show ?case
    using digit_val_range [of a] digit_val_range [of b] digit_val_range [of d] digit_val_range [of e]
    by (auto simp: Let_def split: if_splits)
qed simp_all

section \<open>Properties\<close>

lemma cyclic_window:
  assumes "0 \<le> s" "s < 1440" "0 \<le> e" "e < 1440" "0 \<le> n" "n < (1440::int)" "s \<noteq> e"
  shows "(n - s) mod 1440 < (e - s) mod 1440 \<longleftrightarrow> (if s < e then s \<le> n \<and> n < e else s \<le> n \<or> n < e)"
proof -
  have "(x - s) mod 1440 = (if s \<le> x then x - s else x - s + 1440)" if "0 \<le> x" "x < 1440" for x
    using that assms(1,2) by (auto simp: mod_pos_pos_trivial intro: mod_pos_pos_trivial [of "x - s + 1440" 1440, simplified])
  then show ?thesis using assms by auto
qed

lemma digit_eq_iff: "is_digit c \<Longrightarrow> is_digit d \<Longrightarrow> c = d \<longleftrightarrow> digit_val c = digit_val d"
  by (auto simp: digit_val_def)

text \<open>
  C35: on a formatter that behaves as documented, a window of two well-formed bounds contains an
  instant exactly when the local minute lies in the half-open cyclic interval from start to end:
  wrapping past midnight and the empty window are the same rule modulo 1440.
\<close>

theorem isWithinQuietHours_cyclic:
  assumes "intl_ok I" and "parseHHMM s = Some a" and "parseHHMM e = Some b"
  shows "isWithinQuietHours I now (Some s) (Some e) tz \<longleftrightarrow>
    (\<exists>n. localMinutes I now tz = Fin (of_int n) \<and> 0 \<le> n \<and> n < 1440 \<and> (n - a) mod 1440 < (b - a) mod 1440)"
proof -
  obtain n where n: "localMinutes I now tz = Fin (of_int n)" "0 \<le> n" "n < 1440"
    using localMinutes_range [OF assms(1)] by blast
  have ne: "s \<noteq> []" "e \<noteq> []" using assms(2,3) by auto
  have "isWithinQuietHours I now (Some s) (Some e) tz \<longleftrightarrow> (n - a) mod 1440 < (b - a) mod 1440"
  proof (cases "a = b")
    case True
    then show ?thesis using assms(2,3) ne by (simp add: isWithinQuietHours_def)
  next
    case False
    then show ?thesis
      using cyclic_window [of a b n] assms(2,3) ne n parseHHMM_range [OF assms(2)] parseHHMM_range [OF assms(3)]
      by (simp add: isWithinQuietHours_def)
  qed
  then show ?thesis using n by auto
qed

text \<open>A formatter for UTC alone, computed from the epoch: every other zone is rejected.\<close>

definition two_digits :: "int \<Rightarrow> string" where
  "two_digits n = [digit_char (nat (n div 10)), digit_char (nat (n mod 10))]"

definition utc_clock :: "instant \<Rightarrow> (string \<times> string) list" where
  "utc_clock now = (let m = now div 60000 mod 1440
     in [(''hour'', two_digits (m div 60)), (''literal'', '':''), (''minute'', two_digits (m mod 60))])"

definition utc_intl :: intl where
  "utc_intl = \<lparr>zone_parts = (\<lambda>z. if z = ''UTC'' then Some utc_clock else None), utc_parts = utc_clock\<rparr>"

lemma string_to_number_two_digits:
  assumes "0 \<le> n" "n < 100" shows "string_to_number (two_digits n) = Fin (of_int n)"
proof -
  have d: "nat (n div 10) < 10" "nat (n mod 10) < 10" using assms by auto
  have "read_digits 0 (two_digits n) = n" using assms d by (simp add: two_digits_def pos_imp_zdiv_nonneg_iff)
  moreover have "string_to_number (two_digits n) = mk_num (of_int (read_digits 0 (two_digits n)))"
    using d by (intro string_to_number_digits) (simp_all add: two_digits_def)
  moreover have "mk_num (of_int n) = Fin (of_int n)" using assms by (intro mk_num_of_int) auto
  ultimately show ?thesis by simp
qed

lemma utc_clock_parts:
  "clock_parts (now div 60000 mod 1440 div 60) (now div 60000 mod 1440 mod 60) (utc_clock now)"
proof -
  define m where "m = now div 60000 mod 1440"
  have "0 \<le> m" "m < 1440" by (simp_all add: m_def)
  then show ?thesis unfolding m_def [symmetric]
    by (auto simp: clock_parts_def utc_clock_def part_number_def Let_def string_to_number_two_digits
        simp flip: m_def)
qed

lemma utc_intl_ok: "intl_ok utc_intl"
  using utc_clock_parts by (fastforce simp: intl_ok_def utc_intl_def split: if_splits)

theorem isWithinQuietHours_cyclic_witness:
  "isWithinQuietHours utc_intl 82800000 (Some ''22:00'') (Some ''07:00'') (Some ''UTC'') \<longleftrightarrow>
    (\<exists>n. localMinutes utc_intl 82800000 (Some ''UTC'') = Fin (of_int n) \<and> 0 \<le> n \<and> n < 1440 \<and>
      (n - 1320) mod 1440 < (420 - 1320) mod 1440)"
  by (rule isWithinQuietHours_cyclic [OF utc_intl_ok]) code_simp+

text \<open>
  A window and the one with its bounds swapped cover the day without overlapping: for two
  different bounds, at every instant exactly one of the two windows is the quiet one.
\<close>

theorem isWithinQuietHours_complement:
  assumes "intl_ok I" and "parseHHMM s = Some a" and "parseHHMM e = Some b" and "a \<noteq> b"
  shows "isWithinQuietHours I now (Some s) (Some e) tz \<noteq> isWithinQuietHours I now (Some e) (Some s) tz"
proof -
  obtain n where n: "localMinutes I now tz = Fin (of_int n)" "0 \<le> n" "n < 1440"
    using localMinutes_range [OF assms(1)] by blast
  have ne: "s \<noteq> []" "e \<noteq> []" using assms(2,3) by auto
  show ?thesis using assms(2-4) ne n by (auto simp: isWithinQuietHours_def)
qed

theorem isWithinQuietHours_complement_witness:
  "isWithinQuietHours utc_intl 82800000 (Some ''22:00'') (Some ''07:00'') (Some ''UTC'') \<noteq>
   isWithinQuietHours utc_intl 82800000 (Some ''07:00'') (Some ''22:00'') (Some ''UTC'')"
  by (rule isWithinQuietHours_complement [OF utc_intl_ok, of _ 1320 _ 420]) code_simp+

text \<open>
  The validator of the profile endpoint accepts exactly the bounds the evaluator can parse, so
  a stored window is never silently ignored for being malformed.
\<close>

theorem HHMM_iff_parseHHMM: "HHMM s \<longleftrightarrow> parseHHMM s \<noteq> None"
proof (induction s rule: HHMM.induct)
  case (1 a b c d e)
  have lit: "is_digit (CHR ''0'')" "is_digit (CHR ''1'')" "is_digit (CHR ''2'')" "is_digit (CHR ''3'')"
      "is_digit (CHR ''4'')" "is_digit (CHR ''5'')"
      "digit_val (CHR ''0'') = 0" "digit_val (CHR ''1'') = 1" "digit_val (CHR ''2'') = 2"
      "digit_val (CHR ''3'') = 3" "digit_val (CHR ''4'') = 4" "digit_val (CHR ''5'') = 5"
    by (simp_all add: is_digit_def digit_val_def)
  have hour: "a \<in> {CHR ''0'', CHR ''1''} \<and> is_digit b \<or>
      a = CHR ''2'' \<and> b \<in> {CHR ''0'', CHR ''1'', CHR ''2'', CHR ''3''} \<longleftrightarrow>
      is_digit a \<and> is_digit b \<and> 10 * digit_val a + digit_val b \<le> 23"
    using digit_val_range [of a] digit_val_range [of b] lit
    by (auto simp: digit_eq_iff)
  have minute: "d \<in> {CHR ''0'', CHR ''1'', CHR ''2'', CHR ''3'', CHR ''4'', CHR ''5''} \<and> is_digit e \<longleftrightarrow>
      is_digit d \<and> is_digit e \<and> 10 * digit_val d + digit_val e \<le> 59"
    using digit_val_range [of d] digit_val_range [of e] lit
    by (auto simp: digit_eq_iff)
  show ?case unfolding HHMM.simps hour minute by (auto simp: Let_def)
qed simp_all

end
