(* ===== verification/TriggerMachine.thy ===== *)
theory TriggerMachine
  imports Conditions QuietHours
begin

text \<open>
  \<open>libs/domain/src/trigger-state-machine.ts\<close>: what the watcher does with a trigger after evaluating
  its conditions, and the machine that arises when every decision is carried out poll after poll.
  The anti-spam guarantee is a property of whole runs of that machine.
\<close>

section \<open>The decision\<close>

datatype SuppressReason = cooldown | quiet_hours

datatype TriggerDecision = FIRE | SUPPRESS SuppressReason | REARM | NOOP

record TriggerStateInput =
  state :: TriggerState
  lastFiredAt :: "instant option"
  cooldownMin :: int

record QuietHours =
  qh_start :: "string option"
  qh_end :: "string option"
  qh_timezone :: "string option"

definition isCooldownElapsed :: "'a TriggerStateInput_scheme \<Rightarrow> instant \<Rightarrow> bool" where
  "isCooldownElapsed trigger now =
     (case lastFiredAt trigger of
        None \<Rightarrow> True
      | Some t \<Rightarrow> let elapsedMs = now - t in elapsedMs \<ge> cooldownMin trigger * 60000)"

definition isInQuietHours :: "intl \<Rightarrow> QuietHours \<Rightarrow> instant \<Rightarrow> bool" where
  "isInQuietHours I w now = isWithinQuietHours I now (qh_start w) (qh_end w) (qh_timezone w)"

definition decide ::
  "intl \<Rightarrow> 'a TriggerStateInput_scheme \<Rightarrow> bool \<Rightarrow> instant \<Rightarrow> QuietHours option \<Rightarrow> TriggerDecision" where
  "decide I trigger evaluation_matched now quietHours =
     (if \<not> evaluation_matched then (if state trigger = FIRED then REARM else NOOP)
      else if \<not> isCooldownElapsed trigger now then SUPPRESS cooldown
      else case quietHours of
             Some w \<Rightarrow> if isInQuietHours I w now then SUPPRESS quiet_hours else FIRE
           | None \<Rightarrow> FIRE)"

lemma decide_FIRE_iff:
  "decide I t m now q = FIRE \<longleftrightarrow>
     m \<and> isCooldownElapsed t now \<and> (case q of Some w \<Rightarrow> \<not> isInQuietHours I w now | None \<Rightarrow> True)"
  by (auto simp: decide_def split: option.splits)

section \<open>The machine over a sequence of polls\<close>

text \<open>
  One poll of a trigger: the verdict of its conditions, the instant it was evaluated at and the
  instant the firing, if any, was committed (the watcher reads the clock again for
  \<open>lastFiredAt\<close>). The patch is what \<open>processTrigger\<close> writes for each decision.
\<close>

record poll =
  p_matched :: bool
  p_evaluatedAt :: instant
  p_committedAt :: instant

fun apply_decision :: "TriggerDecision \<Rightarrow> instant \<Rightarrow> 'a TriggerStateInput_scheme \<Rightarrow> 'a TriggerStateInput_scheme" where
  "apply_decision FIRE c t = t\<lparr>state := FIRED, lastFiredAt := Some c\<rparr>"
| "apply_decision REARM c t = t\<lparr>state := ARMED\<rparr>"
| "apply_decision (SUPPRESS r) c t = t"
| "apply_decision NOOP c t = t"

definition poll_step :: "intl \<Rightarrow> QuietHours option \<Rightarrow> TriggerStateInput \<Rightarrow> poll \<Rightarrow> TriggerDecision \<times> TriggerStateInput" where
  "poll_step I q t p =
     (let d = decide I t (p_matched p) (p_evaluatedAt p) q in (d, apply_decision d (p_committedAt p) t))"

fun run_polls :: "intl \<Rightarrow> QuietHours option \<Rightarrow> TriggerStateInput \<Rightarrow> poll list \<Rightarrow> (poll \<times> TriggerDecision) list" where
  "run_polls I q t [] = []"
| "run_polls I q t (p # ps) =
     (let (d, t') = poll_step I q t p in (p, d) # run_polls I q t' ps)"

fun final_state :: "intl \<Rightarrow> QuietHours option \<Rightarrow> TriggerStateInput \<Rightarrow> poll list \<Rightarrow> TriggerStateInput" where
  "final_state I q t [] = t"
| "final_state I q t (p # ps) = final_state I q (snd (poll_step I q t p)) ps"

text \<open>The polls that fired, in order.\<close>

definition fired :: "intl \<Rightarrow> QuietHours option \<Rightarrow> TriggerStateInput \<Rightarrow> poll list \<Rightarrow> poll list" where
  "fired I q t ps = map fst (filter (\<lambda>x. snd x = FIRE) (run_polls I q t ps))"

lemma fired_Nil [simp]: "fired I q t [] = []"
  by (simp add: fired_def)

lemma fired_Cons:
  "fired I q t (p # ps) =
     (if fst (poll_step I q t p) = FIRE then p # fired I q (snd (poll_step I q t p)) ps
      else fired I q (snd (poll_step I q t p)) ps)"
  by (simp add: fired_def split_beta)

lemma poll_step_cooldownMin [simp]: "cooldownMin (snd (poll_step I q t p)) = cooldownMin t"
  by (cases "decide I t (p_matched p) (p_evaluatedAt p) q") (simp_all add: poll_step_def)

lemma poll_step_lastFiredAt:
  "lastFiredAt (snd (poll_step I q t p)) =
     (if fst (poll_step I q t p) = FIRE then Some (p_committedAt p) else lastFiredAt t)"
  by (cases "decide I t (p_matched p) (p_evaluatedAt p) q") (simp_all add: poll_step_def)

text \<open>The next firing waits for the cooldown of the last one, whatever happens in between.\<close>

lemma next_firing_waits:
  "lastFiredAt t = Some c \<Longrightarrow> fired I q t ps = p # rest \<Longrightarrow>
   p_evaluatedAt p - c \<ge> cooldownMin t * 60000"
proof (induction ps arbitrary: t)
  case (Cons x xs)
  show ?case
  proof (cases "fst (poll_step I q t x) = FIRE")
    case True
    with Cons.prems have "x = p" by (simp add: fired_Cons)
    moreover have "isCooldownElapsed t (p_evaluatedAt x)"
      using True by (simp add: poll_step_def Let_def decide_FIRE_iff)
    ultimately show ?thesis using Cons.prems by (simp add: isCooldownElapsed_def)
  next
    case False
    with Cons.prems have "fired I q (snd (poll_step I q t x)) xs = p # rest"
      and "lastFiredAt (snd (poll_step I q t x)) = Some c"
      by (simp_all add: fired_Cons poll_step_lastFiredAt)
    from Cons.IH [OF this(2,1)] show ?thesis by simp
  qed
qed simp

lemma fired_suffix:
  "fired I q t ps = p # rest \<Longrightarrow>
   \<exists>t' ps'. lastFiredAt t' = Some (p_committedAt p) \<and> cooldownMin t' = cooldownMin t \<and> fired I q t' ps' = rest"
proof (induction ps arbitrary: t)
  case (Cons x xs)
  show ?case
  proof (cases "fst (poll_step I q t x) = FIRE")
    case True
    with Cons.prems have "x # fired I q (snd (poll_step I q t x)) xs = p # rest"
      by (simp only: fired_Cons if_True simp_thms)
    then have "x = p" and "fired I q (snd (poll_step I q t x)) xs = rest" by auto
    with True show ?thesis
      by (intro exI [of _ "snd (poll_step I q t x)"] exI [of _ xs]) (simp add: poll_step_lastFiredAt)
  next
    case False
    with Cons.prems have "fired I q (snd (poll_step I q t x)) xs = p # rest" by (simp add: fired_Cons)
    from Cons.IH [OF this] show ?thesis by simp
  qed
qed simp

lemma firings_spaced:
  "successively (\<lambda>p p'. p_evaluatedAt p' - p_committedAt p \<ge> cooldownMin t * 60000) (fired I q t ps)"
proof -
  have "fired I q t ps = fs \<Longrightarrow>
    successively (\<lambda>p p'. p_evaluatedAt p' - p_committedAt p \<ge> cooldownMin t * 60000) fs" for fs
  proof (induction fs arbitrary: t ps)
    case (Cons p rest)
    obtain t' ps' where t': "lastFiredAt t' = Some (p_committedAt p)" "cooldownMin t' = cooldownMin t"
        "fired I q t' ps' = rest"
      using fired_suffix [OF Cons.prems] by blast
    show ?case
    proof (cases rest)
      case (Cons p' rest')
      then show ?thesis
        using next_firing_waits [OF t'(1), of I q ps' p' rest'] t' Cons.IH [OF t'(3)] by simp
    qed simp
  qed simp
  then show ?thesis by simp
qed

section \<open>Properties\<close>

text \<open>
  C4: the anti-spam guarantee. Over any sequence of polls, with any pattern of conditions matching
  and clearing, re-arming included, and any quiet hours, two consecutive firings of a trigger are
  separated by its cooldown: the later one is evaluated at least \<open>cooldownMin\<close> minutes after the
  earlier one was committed.
\<close>

theorem firings_respect_cooldown:
  "successively (\<lambda>p p'. p_evaluatedAt p' - p_committedAt p \<ge> cooldownMin t * 60000) (fired I q t ps)"
  by (rule firings_spaced)

lemma spaced_total:
  assumes "successively (\<lambda>p p'. p_evaluatedAt p' - p_committedAt p \<ge> c) (p # ps)"
    and "\<And>x. x \<in> set (p # ps) \<Longrightarrow> p_evaluatedAt x \<le> p_committedAt x"
  shows "p_committedAt (last (p # ps)) - p_committedAt p \<ge> int (length ps) * c"
  using assms
proof (induction ps arbitrary: p)
  case (Cons p' ps)
  then have "p_committedAt (last (p' # ps)) - p_committedAt p' \<ge> int (length ps) * c" by simp
  moreover have "p_committedAt p' - p_committedAt p \<ge> c" using Cons.prems by fastforce
  ultimately show ?case by (simp add: algebra_simps)
qed simp

text \<open>
  The rate bound that follows. When commits do not precede their evaluations, \<open>n\<close> firings of a
  trigger span at least \<open>n - 1\<close> cooldowns, so a condition that flaps on every poll delivers no more
  often than one that holds.
\<close>

theorem firing_rate_bound:
  assumes "\<And>p. p \<in> set ps \<Longrightarrow> p_evaluatedAt p \<le> p_committedAt p"
    and "fired I q t ps = p # rest"
  shows "p_committedAt (last (p # rest)) - p_committedAt p \<ge> int (length rest) * (cooldownMin t * 60000)"
proof -
  have "set (fired I q t ps) \<subseteq> set ps"
    by (induction ps arbitrary: t) (auto simp: fired_Cons split: if_splits)
  then have "x \<in> set (p # rest) \<Longrightarrow> p_evaluatedAt x \<le> p_committedAt x" for x
    using assms by auto
  with firings_spaced [of t I q ps] assms(2) show ?thesis
    by (intro spaced_total [where c = "cooldownMin t * 60000"]) simp_all
qed

definition flapping :: "poll list" where
  "flapping = map (\<lambda>k. \<lparr>p_matched = even k, p_evaluatedAt = k * 300000, p_committedAt = k * 300000 + 40\<rparr>)
     [0, 1, 2, 3, 4, 5, 6, 7, 8, 9, 10, 11, 12, 13, 14]"

definition fresh_trigger :: TriggerStateInput where
  "fresh_trigger = \<lparr>state = ARMED, lastFiredAt = None, cooldownMin = 60\<rparr>"

lemma flapping_fired:
  "fired utc_intl None fresh_trigger flapping =
     [\<lparr>p_matched = True, p_evaluatedAt = 0, p_committedAt = 40\<rparr>,
      \<lparr>p_matched = True, p_evaluatedAt = 4200000, p_committedAt = 4200040\<rparr>]"
  by (simp add: flapping_def fresh_trigger_def fired_Cons poll_step_def Let_def decide_def
      isCooldownElapsed_def)

theorem firing_rate_bound_witness:
  "p_committedAt (last (fired utc_intl None fresh_trigger flapping))
     - p_committedAt (hd (fired utc_intl None fresh_trigger flapping)) \<ge> 1 * (60 * 60000)"
proof -
  have "\<And>p. p \<in> set flapping \<Longrightarrow> p_evaluatedAt p \<le> p_committedAt p" by (auto simp: flapping_def)
  from firing_rate_bound [OF this flapping_fired] show ?thesis
    unfolding flapping_fired by (simp add: fresh_trigger_def)
qed

text \<open>
  When the conditions match, the decision does not look at the state: a trigger that is still
  FIRED because its condition never cleared fires again as soon as its cooldown has elapsed, like
  one that was re-armed.
\<close>

theorem decide_blind_to_state:
  "decide I ((t :: TriggerStateInput)\<lparr>state := s\<rparr>) True now q = decide I (t\<lparr>state := s'\<rparr>) True now q"
  by (simp add: decide_def isCooldownElapsed_def split: option.splits)

lemma final_state_append [simp]: "final_state I q t (ps @ qs) = final_state I q (final_state I q t ps) qs"
  by (induction ps arbitrary: t) simp_all

lemma fired_append: "fired I q t (ps @ qs) = fired I q t ps @ fired I q (final_state I q t ps) qs"
  by (induction ps arbitrary: t) (simp_all add: fired_Cons)

lemma final_state_cooldown:
  "cooldownMin (final_state I q t ps) = cooldownMin t \<and>
   (lastFiredAt (final_state I q t ps) = lastFiredAt t \<or>
    (\<exists>f \<in> set (fired I q t ps). lastFiredAt (final_state I q t ps) = Some (p_committedAt f)))"
proof (induction ps arbitrary: t)
  case (Cons x xs)
  show ?case using Cons.IH [of "snd (poll_step I q t x)"] by (auto simp: fired_Cons poll_step_lastFiredAt)
qed simp

text \<open>A poll that finds the condition clear arms the trigger, and only a firing disarms it.\<close>

lemma clear_arms: "\<not> p_matched p \<Longrightarrow> state (snd (poll_step I q t p)) = ARMED"
  by (cases "state t") (simp_all add: poll_step_def decide_def)

lemma stays_armed: "state t = ARMED \<Longrightarrow> fired I q t ps = [] \<Longrightarrow> state (final_state I q t ps) = ARMED"
proof (induction ps arbitrary: t)
  case (Cons x xs)
  then have "fst (poll_step I q t x) \<noteq> FIRE" "fired I q (snd (poll_step I q t x)) xs = []" by (auto simp: fired_Cons split: if_splits)
  moreover from this(1) Cons.prems(1) have "state (snd (poll_step I q t x)) = ARMED"
    by (cases "decide I t (p_matched x) (p_evaluatedAt x) q") (simp_all add: poll_step_def)
  ultimately show ?case using Cons.IH by simp
qed simp

text \<open>
  C23: a new crossing is reported. Take any history of polls in which the condition has been seen clear at some
  poll and nothing has fired since. Then the trigger is armed, and a matching poll outside quiet hours
  fires as soon as every firing before (and the one the trigger started with) was committed at least a cooldown ago:
  crossings that were suppressed in between leave no trace that delays it.
\<close>

theorem new_crossing_fires:
  assumes "\<not> p_matched clear" and "fired I q (final_state I q t (before @ [clear])) since = []"
    and "p_matched p" and "case q of Some w \<Rightarrow> \<not> isInQuietHours I w (p_evaluatedAt p) | None \<Rightarrow> True"
    and "\<And>c. lastFiredAt t = Some c \<Longrightarrow> p_evaluatedAt p - c \<ge> cooldownMin t * 60000"
    and "\<And>f. f \<in> set (fired I q t before) \<Longrightarrow> p_evaluatedAt p - p_committedAt f \<ge> cooldownMin t * 60000"
  shows "state (final_state I q t (before @ clear # since)) = ARMED \<and>
    fst (poll_step I q (final_state I q t (before @ clear # since)) p) = FIRE"
proof
  let ?t = "final_state I q t (before @ clear # since)"
  show "state ?t = ARMED" using stays_armed [OF _ assms(2)] clear_arms [OF assms(1)] by simp
  have "fst (poll_step I q u clear) \<noteq> FIRE" for u using assms(1) by (simp add: poll_step_def Let_def decide_FIRE_iff)
  then have "fired I q t (before @ clear # since) = fired I q t before" using assms(2) by (simp add: fired_append fired_Cons)
  then have "isCooldownElapsed ?t (p_evaluatedAt p)"
    using assms(5,6) final_state_cooldown [of I q t "before @ clear # since"] by (auto simp: isCooldownElapsed_def split: option.splits)
  then show "fst (poll_step I q ?t p) = FIRE" using assms(3,4) by (simp add: poll_step_def Let_def decide_FIRE_iff)
qed

text \<open>After the flapping hour the condition clears, crosses again too early, and is still there when the cooldown is over.\<close>

theorem new_crossing_fires_witness:
  "fst (poll_step utc_intl None
     (final_state utc_intl None fresh_trigger (flapping @ \<lparr>p_matched = False, p_evaluatedAt = 4500000, p_committedAt = 4500040\<rparr> #
        [\<lparr>p_matched = True, p_evaluatedAt = 4800000, p_committedAt = 4800040\<rparr>]))
     \<lparr>p_matched = True, p_evaluatedAt = 7800040, p_committedAt = 7800050\<rparr>) = FIRE"
proof -
  let ?c = "\<lparr>p_matched = False, p_evaluatedAt = 4500000, p_committedAt = 4500040\<rparr>"
    and ?m = "\<lparr>p_matched = True, p_evaluatedAt = 4800000, p_committedAt = 4800040\<rparr>"
    and ?p = "\<lparr>p_matched = True, p_evaluatedAt = 7800040, p_committedAt = 7800050\<rparr>"
  have "fired utc_intl None (final_state utc_intl None fresh_trigger (flapping @ [?c])) [?m] = []"
    by (simp add: flapping_def fresh_trigger_def fired_Cons poll_step_def Let_def decide_def isCooldownElapsed_def)
  moreover have "lastFiredAt fresh_trigger = None" "cooldownMin fresh_trigger = 60" by (simp_all add: fresh_trigger_def)
  ultimately show ?thesis
    by (intro conjunct2 [OF new_crossing_fires]) (auto simp: flapping_fired)
qed

end
