(* ===== verification/Contracts.thy ===== *)
theory Contracts
  imports Conditions
begin

text \<open>
  \<open>libs/contracts/src\<close>: the event the watcher publishes and the notifier consumes, and the names that
  connect them through the broker (exchanges, routing keys, queues). Also \<open>Date.prototype.toISOString\<close>,
  the form the firing instant takes on the wire.
\<close>

section \<open>Dates on the wire\<close>

text \<open>Proleptic Gregorian date of a day number counted from the epoch, on 400-year eras.\<close>

definition civil_from_days :: "int \<Rightarrow> int \<times> int \<times> int" where
  "civil_from_days days =
     (let z = days + 719468; era = z div 146097; doe = z mod 146097;
          yoe = (doe - doe div 1460 + doe div 36524 - doe div 146096) div 365;
          doy = doe - (365 * yoe + yoe div 4 - yoe div 100);
          mp = (5 * doy + 2) div 153; d = doy - (153 * mp + 2) div 5 + 1;
          m = (if mp < 10 then mp + 3 else mp - 9)
      in (yoe + era * 400 + (if m \<le> 2 then 1 else 0), m, d))"

definition pad :: "nat \<Rightarrow> int \<Rightarrow> string" where
  "pad w i = (let s = show_int i in replicate (w - length s) (CHR ''0'') @ s)"

definition toISOString :: "instant \<Rightarrow> string" where
  "toISOString t =
     (let (y, m, d) = civil_from_days (t div 86400000); ms = t mod 86400000;
          year = (if 0 \<le> y \<and> y \<le> 9999 then pad 4 y else (if y < 0 then ''-'' else ''+'') @ pad 6 \<bar>y\<bar>)
      in year @ ''-'' @ pad 2 m @ ''-'' @ pad 2 d @ ''T'' @ pad 2 (ms div 3600000) @ '':'' @
         pad 2 (ms div 60000 mod 60) @ '':'' @ pad 2 (ms div 1000 mod 60) @ ''.'' @ pad 3 (ms mod 1000) @ ''Z'')"

section \<open>Events\<close>

record FiredCondition =
  fc_metric :: Metric
  fc_operator :: Operator
  fc_threshold :: rat
  fc_observedValue :: rat

record TriggerFiredEvent =
  ev_eventId :: ident
  ev_triggerId :: ident
  ev_userId :: ident
  ev_triggerName :: string
  ev_city :: string
  ev_conditions :: "FiredCondition list"
  ev_conditionLogic :: ConditionLogic
  ev_channels :: "Channel list"
  ev_firedAt :: string
  ev_test :: "bool option"

section \<open>Names on the broker\<close>

definition NOTIFICATIONS_EXCHANGE :: string where
  "NOTIFICATIONS_EXCHANGE = ''notifications''"

fun CHANNEL_ROUTING :: "Channel \<Rightarrow> string" where
  "CHANNEL_ROUTING TELEGRAM = ''telegram''"
| "CHANNEL_ROUTING EMAIL = ''email''"
| "CHANNEL_ROUTING WEB_PUSH = ''push''"

definition routingKeyFor :: "Channel \<Rightarrow> string" where
  "routingKeyFor channel = CHANNEL_ROUTING channel @ ''.fired''"

definition queueNameFor :: "Channel \<Rightarrow> string" where
  "queueNameFor channel = ''notifications.'' @ CHANNEL_ROUTING channel"

definition retryRoutingKeyFor :: "Channel \<Rightarrow> jsnum \<Rightarrow> string" where
  "retryRoutingKeyFor channel attempt = CHANNEL_ROUTING channel @ ''.retry.'' @ js_show_num attempt"

definition retryQueueNameFor :: "Channel \<Rightarrow> jsnum \<Rightarrow> string" where
  "retryQueueNameFor channel attempt = queueNameFor channel @ ''.retry.'' @ js_show_num attempt"

definition deadRoutingKeyFor :: "Channel \<Rightarrow> string" where
  "deadRoutingKeyFor channel = CHANNEL_ROUTING channel @ ''.dead''"

definition deadQueueNameFor :: "Channel \<Rightarrow> string" where
  "deadQueueNameFor channel = queueNameFor channel @ ''.dead''"

definition DLX_EXCHANGE :: string where
  "DLX_EXCHANGE = ''notifications.dlx''"

lemmas routing_defs = routingKeyFor_def queueNameFor_def retryRoutingKeyFor_def retryQueueNameFor_def
  deadRoutingKeyFor_def deadQueueNameFor_def

section \<open>The names do not collide\<close>

lemma routingKeyFor_inject [simp]: "routingKeyFor c = routingKeyFor c' \<longleftrightarrow> c = c'"
  by (cases c; cases c') (simp_all add: routing_defs)

lemma queueNameFor_inject [simp]: "queueNameFor c = queueNameFor c' \<longleftrightarrow> c = c'"
  by (cases c; cases c') (simp_all add: routing_defs)

lemma deadRoutingKeyFor_inject [simp]: "deadRoutingKeyFor c = deadRoutingKeyFor c' \<longleftrightarrow> c = c'"
  by (cases c; cases c') (simp_all add: routing_defs)

lemma deadQueueNameFor_inject [simp]: "deadQueueNameFor c = deadQueueNameFor c' \<longleftrightarrow> c = c'"
  by (cases c; cases c') (simp_all add: routing_defs)

lemma retryRoutingKeyFor_eq:
  "retryRoutingKeyFor c n = retryRoutingKeyFor c' n' \<longleftrightarrow> c = c' \<and> js_show_num n = js_show_num n'"
  by (cases c; cases c') (simp_all add: routing_defs)

lemma retryQueueNameFor_eq:
  "retryQueueNameFor c n = retryQueueNameFor c' n' \<longleftrightarrow> c = c' \<and> js_show_num n = js_show_num n'"
  by (cases c; cases c') (simp_all add: routing_defs)

lemma keys_disjoint [simp]:
  "routingKeyFor c \<noteq> retryRoutingKeyFor c' n" "retryRoutingKeyFor c' n \<noteq> routingKeyFor c"
  "routingKeyFor c \<noteq> deadRoutingKeyFor c'" "deadRoutingKeyFor c' \<noteq> routingKeyFor c"
  "deadRoutingKeyFor c \<noteq> retryRoutingKeyFor c' n" "retryRoutingKeyFor c' n \<noteq> deadRoutingKeyFor c"
  by (cases c; cases c'; simp add: routing_defs)+

lemma queues_disjoint [simp]:
  "queueNameFor c \<noteq> retryQueueNameFor c' n" "retryQueueNameFor c' n \<noteq> queueNameFor c"
  "queueNameFor c \<noteq> deadQueueNameFor c'" "deadQueueNameFor c' \<noteq> queueNameFor c"
  "deadQueueNameFor c \<noteq> retryQueueNameFor c' n" "retryQueueNameFor c' n \<noteq> deadQueueNameFor c"
  by (cases c; cases c'; simp add: routing_defs)+

end
