(* ===== verification/Schema.thy ===== *)
theory Schema
  imports TriggerMachine Contracts
begin

text \<open>
  \<open>prisma/schema.prisma\<close>: the rows the three services share, the database they form, and the writes
  the schema itself performs when a parent row is deleted (\<open>onDelete: Cascade\<close> and \<open>SetNull\<close>). A
  transaction either commits or leaves the database as it was, and its caller may lose the answer.
\<close>

section \<open>Rows\<close>

datatype Role = USER | ADMIN

record User =
  u_id :: ident
  u_email :: string
  u_passwordHash :: string
  u_role :: Role
  u_telegramChatId :: "string option"
  u_telegramLinkTokenHash :: "string option"
  u_telegramLinkTokenExpiresAt :: "instant option"
  u_quietHoursStart :: "string option"
  u_quietHoursEnd :: "string option"
  u_timezone :: "string option"
  u_emailVerified :: bool
  u_emailVerificationTokenHash :: "string option"
  u_emailVerificationTokenExpiresAt :: "instant option"
  u_passwordResetTokenHash :: "string option"
  u_passwordResetTokenExpiresAt :: "instant option"
  u_createdAt :: instant

record Trigger =
  tr_id :: ident
  tr_userId :: ident
  tr_name :: string
  tr_city :: string
  tr_latitude :: rat
  tr_longitude :: rat
  tr_conditionLogic :: ConditionLogic
  tr_channels :: "Channel list"
  tr_cooldownMin :: int
  tr_isActive :: bool
  tr_state :: TriggerState
  tr_lastFiredAt :: "instant option"
  tr_lastEvaluatedAt :: "instant option"
  tr_locationBucket :: nat
  tr_createdAt :: instant

record TriggerCondition =
  tc_id :: ident
  tc_triggerId :: ident
  tc_metric :: Metric
  tc_operator :: Operator
  tc_threshold :: rat
  tc_order :: int
  tc_lastObservedValue :: "rat option"
  tc_lastMatched :: "bool option"

record Notification =
  n_id :: ident
  n_eventId :: "ident option"
  n_triggerId :: "ident option"
  n_userId :: ident
  n_channel :: Channel
  n_status :: NotifStatus
  n_payload :: TriggerFiredEvent
  n_error :: "string option"
  n_claimedAt :: "instant option"
  n_deliveredTo :: "string list"
  n_createdAt :: instant

record PushSubscription =
  ps_id :: ident
  ps_userId :: ident
  ps_endpoint :: string
  ps_p256dh :: string
  ps_auth :: string
  ps_createdAt :: instant

record RefreshToken =
  rt_id :: ident
  rt_userId :: ident
  rt_tokenHash :: string
  rt_expiresAt :: instant
  rt_revoked :: bool

record OutboxEvent =
  ob_id :: ident
  ob_eventId :: ident
  ob_routingKey :: string
  ob_payload :: TriggerFiredEvent
  ob_createdAt :: instant
  ob_publishedAt :: "instant option"

record PinnedCity =
  pc_id :: ident
  pc_userId :: ident
  pc_name :: string
  pc_country :: "string option"
  pc_admin1 :: "string option"
  pc_latitude :: rat
  pc_longitude :: rat
  pc_order :: int
  pc_createdAt :: instant

record db =
  users :: "User list"
  triggers :: "Trigger list"
  conditions :: "TriggerCondition list"
  notifications :: "Notification list"
  pushSubs :: "PushSubscription list"
  refreshTokens :: "RefreshToken list"
  outbox :: "OutboxEvent list"
  pinnedCities :: "PinnedCity list"

section \<open>Transactions\<close>

text \<open>Errors of the client: P2025 (no such row), P2002 (unique index), P2003 (foreign key), a rejected query, or no answer.\<close>

datatype db_error = RecordNotFound | UniqueViolation | ForeignKeyViolation | InvalidQuery | DbDown

datatype commit = Committed | AbortedBefore | AnswerLost

text \<open>The outcome of a transaction that would yield \<open>r\<close>: an error of its own also rolls back.\<close>

fun transact :: "commit \<Rightarrow> 'd \<Rightarrow> (db_error, 'a \<times> 'd) result \<Rightarrow> (db_error, 'a) result \<times> 'd" where
  "transact Committed d (Inr (a, d')) = (Inr a, d')"
| "transact AnswerLost d (Inr (a, d')) = (Inl DbDown, d')"
| "transact AbortedBefore d (Inr (a, d')) = (Inl DbDown, d)"
| "transact c d (Inl e) = (Inl e, d)"

text \<open>\<open>update({ where: unique })\<close> fails when the row is missing.\<close>

definition update_one :: "('r \<Rightarrow> bool) \<Rightarrow> ('r \<Rightarrow> 'r) \<Rightarrow> 'r list \<Rightarrow> (db_error, 'r list) result" where
  "update_one p f rows = (if find_unique p rows = None then Inl RecordNotFound else Inr (update_many p f rows))"

section \<open>Deletions and what the schema makes of them\<close>

definition delete_triggers :: "(Trigger \<Rightarrow> bool) \<Rightarrow> db \<Rightarrow> db" where
  "delete_triggers p d =
     (let gone = map tr_id (find_many p (triggers d)) in
      d\<lparr>triggers := delete_many p (triggers d),
        conditions := delete_many (\<lambda>c. tc_triggerId c \<in> set gone) (conditions d),
        notifications := update_many (\<lambda>n. \<exists>t \<in> set gone. n_triggerId n = Some t) (\<lambda>n. n\<lparr>n_triggerId := None\<rparr>) (notifications d)\<rparr>)"

definition delete_user :: "ident \<Rightarrow> db \<Rightarrow> db" where
  "delete_user uid d =
     (let d' = delete_triggers (\<lambda>t. tr_userId t = uid) d in
      d'\<lparr>users := delete_many (\<lambda>u. u_id u = uid) (users d'),
         notifications := delete_many (\<lambda>n. n_userId n = uid) (notifications d'),
         pushSubs := delete_many (\<lambda>p. ps_userId p = uid) (pushSubs d'),
         refreshTokens := delete_many (\<lambda>r. rt_userId r = uid) (refreshTokens d'),
         pinnedCities := delete_many (\<lambda>c. pc_userId c = uid) (pinnedCities d')\<rparr>)"

section \<open>Integrity\<close>

text \<open>What the primary keys, unique indexes and foreign keys of the schema guarantee.\<close>

definition unique_some :: "('r \<Rightarrow> 'k option) \<Rightarrow> 'r list \<Rightarrow> bool" where
  "unique_some k rows \<longleftrightarrow> distinct (map k (filter (\<lambda>r. k r \<noteq> None) rows))"

definition db_keys :: "db \<Rightarrow> bool" where
  "db_keys d \<longleftrightarrow>
     distinct (map u_id (users d)) \<and> distinct (map u_email (users d)) \<and>
     distinct (map tr_id (triggers d)) \<and> distinct (map tc_id (conditions d)) \<and>
     distinct (map rt_id (refreshTokens d)) \<and> distinct (map ob_id (outbox d)) \<and>
     distinct (map (\<lambda>e. (ob_eventId e, ob_routingKey e)) (outbox d)) \<and>
     distinct (map ps_endpoint (pushSubs d)) \<and>
     distinct (map (\<lambda>c. (pc_userId c, pc_latitude c, pc_longitude c)) (pinnedCities d))"

definition db_refs :: "db \<Rightarrow> bool" where
  "db_refs d \<longleftrightarrow>
     (\<forall>t \<in> set (triggers d). tr_userId t \<in> u_id ` set (users d)) \<and>
     (\<forall>c \<in> set (conditions d). tc_triggerId c \<in> tr_id ` set (triggers d)) \<and>
     (\<forall>n \<in> set (notifications d). n_userId n \<in> u_id ` set (users d) \<and>
        (\<forall>t. n_triggerId n = Some t \<longrightarrow> t \<in> tr_id ` set (triggers d))) \<and>
     (\<forall>p \<in> set (pushSubs d). ps_userId p \<in> u_id ` set (users d)) \<and>
     (\<forall>r \<in> set (refreshTokens d). rt_userId r \<in> u_id ` set (users d)) \<and>
     (\<forall>c \<in> set (pinnedCities d). pc_userId c \<in> u_id ` set (users d))"

lemma update_one_Inr: "update_one p f rows = Inr rows' \<longleftrightarrow> (\<exists>r \<in> set rows. p r) \<and> rows' = update_many p f rows"
  by (auto simp: update_one_def find_unique_None)

lemma delete_triggers_refs: "db_refs d \<Longrightarrow> db_refs (delete_triggers p d)"
  unfolding db_refs_def delete_triggers_def Let_def find_many_def
  by (auto simp: set_update_many image_iff split: if_splits) metis+

lemma delete_user_refs: assumes "db_refs d" shows "db_refs (delete_user uid d)"
proof -
  define d' where "d' = delete_triggers (\<lambda>t. tr_userId t = uid) d"
  have refs: "db_refs d'" unfolding d'_def using assms by (rule delete_triggers_refs)
  have "\<forall>t \<in> set (triggers d'). tr_userId t \<noteq> uid" by (simp add: d'_def delete_triggers_def Let_def)
  with refs show ?thesis
    unfolding delete_user_def Let_def d'_def [symmetric] db_refs_def
    by (intro conjI; fastforce simp: image_iff)
qed

lemma transact_cases:
  "transact c d x = (r, d') \<Longrightarrow> d' = d \<or> (\<exists>a. x = Inr (a, d'))"
  by (cases c; cases x) auto

section \<open>The two vocabularies (domain-enums.guard.ts)\<close>

text \<open>
  The enums of \<open>domain/enums.ts\<close>, each constructor with its literal, and those of the schema. The guard asks
  of each pair that the types of the literals are assignable to each other, which for unions of literals is
  that each contains the other.
\<close>

definition domain_Metric :: "(Metric \<times> string) list" where
  "domain_Metric = [(TEMPERATURE, ''TEMPERATURE''), (APPARENT_TEMP, ''APPARENT_TEMP''), (WIND_SPEED, ''WIND_SPEED''), (PRECIPITATION, ''PRECIPITATION''), (HUMIDITY, ''HUMIDITY''), (SEVERE, ''SEVERE'')]"

definition prisma_Metric :: "string list" where
  "prisma_Metric = [''TEMPERATURE'', ''APPARENT_TEMP'', ''WIND_SPEED'', ''PRECIPITATION'', ''HUMIDITY'', ''SEVERE'']"

definition domain_Operator :: "(Operator \<times> string) list" where
  "domain_Operator = [(GT, ''GT''), (GTE, ''GTE''), (LT, ''LT''), (LTE, ''LTE''), (EQ, ''EQ'')]"

definition prisma_Operator :: "string list" where
  "prisma_Operator = [''GT'', ''GTE'', ''LT'', ''LTE'', ''EQ'']"

definition domain_ConditionLogic :: "(ConditionLogic \<times> string) list" where
  "domain_ConditionLogic = [(LogicAND, ''AND''), (LogicOR, ''OR'')]"

definition prisma_ConditionLogic :: "string list" where
  "prisma_ConditionLogic = [''AND'', ''OR'']"

definition domain_TriggerState :: "(TriggerState \<times> string) list" where
  "domain_TriggerState = [(ARMED, ''ARMED''), (FIRED, ''FIRED'')]"

definition prisma_TriggerState :: "string list" where
  "prisma_TriggerState = [''ARMED'', ''FIRED'']"

definition domain_Channel :: "(Channel \<times> string) list" where
  "domain_Channel = [(TELEGRAM, ''TELEGRAM''), (EMAIL, ''EMAIL''), (WEB_PUSH, ''WEB_PUSH'')]"

definition prisma_Channel :: "string list" where
  "prisma_Channel = [''TELEGRAM'', ''EMAIL'', ''WEB_PUSH'']"

definition domain_NotifStatus :: "(NotifStatus \<times> string) list" where
  "domain_NotifStatus = [(PENDING, ''PENDING''), (SENT, ''SENT''), (FAILED, ''FAILED'')]"

definition prisma_NotifStatus :: "string list" where
  "prisma_NotifStatus = [''PENDING'', ''SENT'', ''FAILED'']"

definition AssertEqual :: "string list \<Rightarrow> string list \<Rightarrow> bool" where
  "AssertEqual a b \<longleftrightarrow> set a \<subseteq> set b \<and> set b \<subseteq> set a"

definition DOMAIN_ENUMS_MATCH_PRISMA :: "bool list" where
  "DOMAIN_ENUMS_MATCH_PRISMA =
     [AssertEqual (map snd domain_Metric) prisma_Metric, AssertEqual (map snd domain_Operator) prisma_Operator,
      AssertEqual (map snd domain_ConditionLogic) prisma_ConditionLogic, AssertEqual (map snd domain_TriggerState) prisma_TriggerState,
      AssertEqual (map snd domain_Channel) prisma_Channel, AssertEqual (map snd domain_NotifStatus) prisma_NotifStatus]"

lemmas enum_defs = domain_Metric_def prisma_Metric_def domain_Operator_def prisma_Operator_def domain_ConditionLogic_def prisma_ConditionLogic_def domain_TriggerState_def prisma_TriggerState_def domain_Channel_def prisma_Channel_def domain_NotifStatus_def prisma_NotifStatus_def

text \<open>
  The guard compiles, and it is what makes storing an enum a round trip: with no literal used twice, each value
  of a column is read back as one constructor, and each constructor has a value to be written as.
\<close>

lemma enums_match: "DOMAIN_ENUMS_MATCH_PRISMA = replicate 6 True"
  by (simp add: DOMAIN_ENUMS_MATCH_PRISMA_def AssertEqual_def enum_defs numeral_eq_Suc)

lemma enum_roundtrip:
  assumes "v \<in> set col" "AssertEqual (map snd vs) col" "distinct (map fst vs)" "distinct (map snd vs)"
  shows "\<exists>!x. map_of vs x = Some v"
proof -
  obtain x where x: "(x, v) \<in> set vs" using assms(1,2) by (auto simp: AssertEqual_def)
  moreover have "y = x" if "(y, v) \<in> set vs" for y using that x assms(4) by (fastforce simp: distinct_map inj_on_def)
  ultimately show ?thesis using assms(3) by (auto simp: map_of_eq_Some_iff)
qed

lemma enum_total:
  "\<exists>v. map_of domain_Metric m = Some v" "\<exists>v. map_of domain_Operator op = Some v" "\<exists>v. map_of domain_ConditionLogic l = Some v"
  "\<exists>v. map_of domain_TriggerState st = Some v" "\<exists>v. map_of domain_Channel c = Some v" "\<exists>v. map_of domain_NotifStatus n = Some v"
proof -
  show "\<exists>v. map_of domain_Metric m = Some v" by (cases m) (simp_all add: enum_defs)
  show "\<exists>v. map_of domain_Operator op = Some v" by (cases op) (simp_all add: enum_defs)
  show "\<exists>v. map_of domain_ConditionLogic l = Some v" by (cases l) (simp_all add: enum_defs)
  show "\<exists>v. map_of domain_TriggerState st = Some v" by (cases st) (simp_all add: enum_defs)
  show "\<exists>v. map_of domain_Channel c = Some v" by (cases c) (simp_all add: enum_defs)
  show "\<exists>v. map_of domain_NotifStatus n = Some v" by (cases n) (simp_all add: enum_defs)
qed

lemma enum_columns:
  "v \<in> set prisma_Metric \<Longrightarrow> \<exists>!m. map_of domain_Metric m = Some v" "v \<in> set prisma_Operator \<Longrightarrow> \<exists>!op. map_of domain_Operator op = Some v"
  "v \<in> set prisma_Channel \<Longrightarrow> \<exists>!c. map_of domain_Channel c = Some v" "v \<in> set prisma_NotifStatus \<Longrightarrow> \<exists>!n. map_of domain_NotifStatus n = Some v"
  "v \<in> set prisma_ConditionLogic \<Longrightarrow> \<exists>!l. map_of domain_ConditionLogic l = Some v"
  "v \<in> set prisma_TriggerState \<Longrightarrow> \<exists>!st. map_of domain_TriggerState st = Some v"
  by (erule enum_roundtrip; simp add: AssertEqual_def enum_defs)+

section \<open>A small database\<close>

text \<open>One verified user with one trigger of one condition, for evaluating the definitions.\<close>

definition empty_db :: db where
  "empty_db = \<lparr>users = [], triggers = [], conditions = [], notifications = [], pushSubs = [], refreshTokens = [],
     outbox = [], pinnedCities = []\<rparr>"

definition alice :: User where
  "alice = \<lparr>u_id = ''u1'', u_email = ''a@x.io'', u_passwordHash = ''h'', u_role = USER, u_telegramChatId = Some ''77'',
     u_telegramLinkTokenHash = None, u_telegramLinkTokenExpiresAt = None, u_quietHoursStart = None,
     u_quietHoursEnd = None, u_timezone = None, u_emailVerified = True, u_emailVerificationTokenHash = None,
     u_emailVerificationTokenExpiresAt = None, u_passwordResetTokenHash = None,
     u_passwordResetTokenExpiresAt = None, u_createdAt = 0\<rparr>"

definition heat :: Trigger where
  "heat = \<lparr>tr_id = ''t1'', tr_userId = ''u1'', tr_name = ''Heat'', tr_city = ''Berlin'', tr_latitude = 52, tr_longitude = 13,
     tr_conditionLogic = LogicAND, tr_channels = [EMAIL, TELEGRAM], tr_cooldownMin = 60, tr_isActive = True,
     tr_state = ARMED, tr_lastFiredAt = None, tr_lastEvaluatedAt = None, tr_locationBucket = 0, tr_createdAt = 0\<rparr>"

definition above30 :: TriggerCondition where
  "above30 = \<lparr>tc_id = ''c1'', tc_triggerId = ''t1'', tc_metric = TEMPERATURE, tc_operator = GT, tc_threshold = 30,
     tc_order = 0, tc_lastObservedValue = None, tc_lastMatched = None\<rparr>"

definition small_db :: db where
  "small_db = empty_db\<lparr>users := [alice], triggers := [heat], conditions := [above30]\<rparr>"

definition heat_event :: TriggerFiredEvent where
  "heat_event = \<lparr>ev_eventId = ''e1'', ev_triggerId = ''t1'', ev_userId = ''u1'', ev_triggerName = ''Heat'', ev_city = ''Berlin'',
     ev_conditions = [\<lparr>fc_metric = TEMPERATURE, fc_operator = GT, fc_threshold = 30, fc_observedValue = 31\<rparr>],
     ev_conditionLogic = LogicAND, ev_channels = [EMAIL, TELEGRAM], ev_firedAt = toISOString 0, ev_test = None\<rparr>"

lemmas small_db_defs = small_db_def empty_db_def alice_def heat_def above30_def

lemma small_db_keys: "db_keys small_db"
  by (simp add: db_keys_def small_db_defs)

lemma small_db_refs: "db_refs small_db"
  by (simp add: db_refs_def small_db_defs)

end
