(* ===== verification/RedisStore.thy ===== *)
theory RedisStore
  imports JsNumber
begin

text \<open>
  \<open>libs/common/src/redis\<close>: the service every process uses for caches, cooldowns, lockouts, revocation
  and locks, and the storage behind the API's rate limit. Redis itself is a parameter: a record of the
  commands the sources issue, each executed at an instant of the server's clock. What the sources rely
  on is the locale \<open>redis_spec\<close>, the documented behaviour of those commands. The Lua scripts are
  translated call by call and run at one instant. A command may fail before it took effect or, because
  of the command timeout, after it.
\<close>

section \<open>The server\<close>

text \<open>
  \<open>rset s now k v px nx\<close> is \<open>SET k v [PX px] [NX]\<close> (\<open>EX n\<close> is \<open>PX 1000n\<close>), with whether it replied OK;
  \<open>rpexpire\<close> serves \<open>EXPIRE\<close> and \<open>PEXPIRE\<close> and replies whether the key exists.
\<close>

record 's redis =
  rget :: "'s \<Rightarrow> instant \<Rightarrow> string \<Rightarrow> string option"
  rset :: "'s \<Rightarrow> instant \<Rightarrow> string \<Rightarrow> string \<Rightarrow> int option \<Rightarrow> bool \<Rightarrow> bool \<times> 's"
  rdel :: "'s \<Rightarrow> instant \<Rightarrow> string \<Rightarrow> int \<times> 's"
  rexists :: "'s \<Rightarrow> instant \<Rightarrow> string \<Rightarrow> int"
  rttl :: "'s \<Rightarrow> instant \<Rightarrow> string \<Rightarrow> int"
  rpttl :: "'s \<Rightarrow> instant \<Rightarrow> string \<Rightarrow> int"
  rincr :: "'s \<Rightarrow> instant \<Rightarrow> string \<Rightarrow> int \<times> 's"
  rpexpire :: "'s \<Rightarrow> instant \<Rightarrow> string \<Rightarrow> int \<Rightarrow> int \<times> 's"

text \<open>The fate of one command as the client sees it.\<close>

datatype io = Replied | LostBefore | LostAfter

datatype redis_error = RedisError

fun issue :: "io \<Rightarrow> 's \<Rightarrow> 'r \<times> 's \<Rightarrow> (redis_error, 'r) result \<times> 's" where
  "issue Replied s (r, s') = (Inr r, s')"
| "issue LostBefore s (r, s') = (Inl RedisError, s)"
| "issue LostAfter s (r, s') = (Inl RedisError, s')"

section \<open>Lua scripts\<close>

definition RELEASE_IF_OWNED :: "'s redis \<Rightarrow> 's \<Rightarrow> instant \<Rightarrow> string \<Rightarrow> string \<Rightarrow> int \<times> 's" where
  "RELEASE_IF_OWNED R s now key token =
     (if rget R s now key = Some token then rdel R s now key else (0, s))"

definition EXTEND_IF_OWNED :: "'s redis \<Rightarrow> 's \<Rightarrow> instant \<Rightarrow> string \<Rightarrow> string \<Rightarrow> int \<Rightarrow> int \<times> 's" where
  "EXTEND_IF_OWNED R s now key token ttlSec =
     (if rget R s now key = Some token then rpexpire R s now key (1000 * ttlSec) else (0, s))"

definition RECORD_FAILURE :: "'s redis \<Rightarrow> 's \<Rightarrow> instant \<Rightarrow> string \<Rightarrow> int \<Rightarrow> (int \<times> int) \<times> 's" where
  "RECORD_FAILURE R s now key windowSec =
     (let (hits, s1) = rincr R s now key;
          s2 = (if hits = 1 then snd (rpexpire R s1 now key (1000 * windowSec)) else s1)
      in ((hits, rttl R s2 now key), s2))"

text \<open>\<open>tonumber\<close> on what \<open>INCR\<close> stores: an optional sign and decimal digits.\<close>

fun lua_tonumber :: "string \<Rightarrow> int" where
  "lua_tonumber [] = 0"
| "lua_tonumber (c # cs) = (if c = CHR ''-'' then - read_digits 0 cs else read_digits 0 (c # cs))"

definition READ_FAILURES :: "'s redis \<Rightarrow> 's \<Rightarrow> instant \<Rightarrow> string \<Rightarrow> int \<times> int" where
  "READ_FAILURES R s now key =
     (case rget R s now key of
        None \<Rightarrow> (0, 0)
      | Some hits \<Rightarrow> (lua_tonumber hits, rttl R s now key))"

section \<open>The service\<close>

definition getJson ::
  "'s redis \<Rightarrow> io \<Rightarrow> (string \<Rightarrow> (redis_error, 'a) result) \<Rightarrow> 's \<Rightarrow> instant \<Rightarrow> string \<Rightarrow> (redis_error, 'a option) result" where
  "getJson R c parse s now key =
     (case fst (issue c s (rget R s now key, s)) of
        Inl e \<Rightarrow> Inl e
      | Inr None \<Rightarrow> Inr None
      | Inr (Some raw) \<Rightarrow> if raw = [] then Inr None else map_sum id Some (parse raw))"

definition setJson ::
  "'s redis \<Rightarrow> io \<Rightarrow> ('a \<Rightarrow> string) \<Rightarrow> 's \<Rightarrow> instant \<Rightarrow> string \<Rightarrow> 'a \<Rightarrow> int \<Rightarrow> (redis_error, unit) result \<times> 's" where
  "setJson R c stringify s now key x ttlSec =
     apfst (map_sum id (\<lambda>_. ())) (issue c s (rset R s now key (stringify x) (Some (1000 * ttlSec)) False))"

text \<open>Two commands, so two instants and two fates.\<close>

definition consumeCooldown ::
  "'s redis \<Rightarrow> io \<Rightarrow> io \<Rightarrow> 's \<Rightarrow> instant \<Rightarrow> instant \<Rightarrow> string \<Rightarrow> int \<Rightarrow> (redis_error, int) result \<times> 's" where
  "consumeCooldown R c c' s now now' key ttlSec =
     (case issue c s (rset R s now key ''1'' (Some (1000 * ttlSec)) True) of
        (Inl e, s') \<Rightarrow> (Inl e, s')
      | (Inr reserved, s') \<Rightarrow>
          if reserved then (Inr 0, s')
          else (case issue c' s' (rttl R s' now' key, s') of
                  (Inl e, s'') \<Rightarrow> (Inl e, s'')
                | (Inr ttl, s'') \<Rightarrow> (Inr (if ttl > 0 then ttl else ttlSec), s'')))"

definition clearCooldown :: "'s redis \<Rightarrow> io \<Rightarrow> 's \<Rightarrow> instant \<Rightarrow> string \<Rightarrow> (redis_error, unit) result \<times> 's" where
  "clearCooldown R c s now key = apfst (map_sum id (\<lambda>_. ())) (issue c s (rdel R s now key))"

definition getCursor :: "'s redis \<Rightarrow> io \<Rightarrow> 's \<Rightarrow> instant \<Rightarrow> string \<Rightarrow> (redis_error, rat option) result" where
  "getCursor R c s now key =
     (case fst (issue c s (rget R s now key, s)) of
        Inl e \<Rightarrow> Inl e
      | Inr None \<Rightarrow> Inr None
      | Inr (Some raw) \<Rightarrow> Inr (case js_Number (Str raw) of Fin x \<Rightarrow> Some x | _ \<Rightarrow> None))"

definition setCursor :: "'s redis \<Rightarrow> io \<Rightarrow> 's \<Rightarrow> instant \<Rightarrow> string \<Rightarrow> rat \<Rightarrow> (redis_error, unit) result \<times> 's" where
  "setCursor R c s now key x =
     apfst (map_sum id (\<lambda>_. ())) (issue c s (rset R s now key (js_show x) None False))"

definition revokedKey :: "ident \<Rightarrow> string" where
  "revokedKey userId = ''auth:revoked:'' @ userId"

definition revokeUserTokens :: "'s redis \<Rightarrow> io \<Rightarrow> 's \<Rightarrow> instant \<Rightarrow> ident \<Rightarrow> int \<Rightarrow> bool \<times> 's" where
  "revokeUserTokens R c s now userId ttlSec =
     (case issue c s (rset R s now (revokedKey userId) ''1'' (Some (1000 * ttlSec)) False) of
        (Inr _, s') \<Rightarrow> (True, s')
      | (Inl _, s') \<Rightarrow> (False, s'))"

definition isUserRevoked :: "'s redis \<Rightarrow> io \<Rightarrow> 's \<Rightarrow> instant \<Rightarrow> ident \<Rightarrow> bool" where
  "isUserRevoked R c s now userId =
     (case fst (issue c s (rexists R s now (revokedKey userId), s)) of Inr n \<Rightarrow> n = 1 | Inl _ \<Rightarrow> False)"

record failures =
  f_count :: int
  f_retryAfterSec :: int

definition recordFailure :: "'s redis \<Rightarrow> io \<Rightarrow> 's \<Rightarrow> instant \<Rightarrow> string \<Rightarrow> int \<Rightarrow> failures \<times> 's" where
  "recordFailure R c s now key windowSec =
     (case issue c s (RECORD_FAILURE R s now key windowSec) of
        (Inr (count, ttl), s') \<Rightarrow> (\<lparr>f_count = count, f_retryAfterSec = (if ttl > 0 then ttl else windowSec)\<rparr>, s')
      | (Inl _, s') \<Rightarrow> (\<lparr>f_count = 0, f_retryAfterSec = 0\<rparr>, s'))"

definition failureCount :: "'s redis \<Rightarrow> io \<Rightarrow> 's \<Rightarrow> instant \<Rightarrow> string \<Rightarrow> failures" where
  "failureCount R c s now key =
     (case fst (issue c s (READ_FAILURES R s now key, s)) of
        Inr (count, ttl) \<Rightarrow> \<lparr>f_count = count, f_retryAfterSec = (if ttl > 0 then ttl else 0)\<rparr>
      | Inl _ \<Rightarrow> \<lparr>f_count = 0, f_retryAfterSec = 0\<rparr>)"

definition clearFailures :: "'s redis \<Rightarrow> io \<Rightarrow> 's \<Rightarrow> instant \<Rightarrow> string \<Rightarrow> 's" where
  "clearFailures R c s now key = snd (issue c s (rdel R s now key))"

text \<open>The token is the \<open>randomUUID\<close> the call draws.\<close>

definition acquireLock ::
  "'s redis \<Rightarrow> io \<Rightarrow> 's \<Rightarrow> instant \<Rightarrow> string \<Rightarrow> string \<Rightarrow> int \<Rightarrow> (redis_error, string option) result \<times> 's" where
  "acquireLock R c s now token key ttlSec =
     apfst (map_sum id (\<lambda>res. if res then Some token else None))
       (issue c s (rset R s now key token (Some (1000 * ttlSec)) True))"

definition extendLock ::
  "'s redis \<Rightarrow> io \<Rightarrow> 's \<Rightarrow> instant \<Rightarrow> string \<Rightarrow> string \<Rightarrow> int \<Rightarrow> (redis_error, bool) result \<times> 's" where
  "extendLock R c s now key token ttlSec =
     apfst (map_sum id (\<lambda>res. res = 1)) (issue c s (EXTEND_IF_OWNED R s now key token ttlSec))"

definition releaseLock :: "'s redis \<Rightarrow> io \<Rightarrow> 's \<Rightarrow> instant \<Rightarrow> string \<Rightarrow> string \<Rightarrow> (redis_error, bool) result \<times> 's" where
  "releaseLock R c s now key token =
     apfst (map_sum id (\<lambda>res. res = 1)) (issue c s (RELEASE_IF_OWNED R s now key token))"

section \<open>The throttler's storage\<close>

definition INCREMENT ::
  "'s redis \<Rightarrow> 's \<Rightarrow> instant \<Rightarrow> string \<Rightarrow> string \<Rightarrow> int \<Rightarrow> int \<Rightarrow> int \<Rightarrow> (int \<times> int \<times> int) \<times> 's" where
  "INCREMENT R s now hitKey blockKey ttl limit block =
     (let (hits, s1) = rincr R s now hitKey;
          s2 = (if hits = 1 then snd (rpexpire R s1 now hitKey ttl) else s1);
          blockTtl = rpttl R s2 now blockKey
      in if blockTtl > 0 then ((hits, rpttl R s2 now hitKey, blockTtl), s2)
         else if hits > limit
         then (let s3 = snd (rset R s2 now blockKey ''1'' (Some block) False)
               in ((hits, rpttl R s3 now hitKey, block), s3))
         else ((hits, rpttl R s2 now hitKey, 0), s2))"

definition toSeconds :: "int \<Rightarrow> int" where
  "toSeconds ms = (if ms > 0 then - ((- ms) div 1000) else 0)"

record ThrottlerStorageRecord =
  t_totalHits :: int
  t_timeToExpire :: int
  t_isBlocked :: bool
  t_timeToBlockExpire :: int

definition hitKeyFor :: "string \<Rightarrow> string \<Rightarrow> string" where
  "hitKeyFor throttlerName key = ''throttle:'' @ throttlerName @ '':'' @ key"

definition increment ::
  "'s redis \<Rightarrow> io \<Rightarrow> 's \<Rightarrow> instant \<Rightarrow> string \<Rightarrow> int \<Rightarrow> int \<Rightarrow> int \<Rightarrow> string \<Rightarrow> ThrottlerStorageRecord \<times> 's" where
  "increment R c s now key ttl limit blockDuration throttlerName =
     (let hitKey = hitKeyFor throttlerName key; blockKey = hitKey @ '':blocked'';
          block = (if blockDuration \<noteq> 0 then blockDuration else ttl)
      in case issue c s (INCREMENT R s now hitKey blockKey ttl limit block) of
           (Inl _, s') \<Rightarrow> (\<lparr>t_totalHits = 0, t_timeToExpire = toSeconds ttl, t_isBlocked = False,
                           t_timeToBlockExpire = 0\<rparr>, s')
         | (Inr (totalHits, windowTtl, blockTtl), s') \<Rightarrow>
             (\<lparr>t_totalHits = totalHits, t_timeToExpire = toSeconds windowTtl, t_isBlocked = (blockTtl > 0),
               t_timeToBlockExpire = toSeconds blockTtl\<rparr>, s'))"

end
