(* ===== verification/RedisSpec.thy ===== *)
theory RedisSpec
  imports RedisStore
begin

text \<open>
  What the Redis service promises its clients, proved from the documented behaviour of the server.
  \<open>redis_spec\<close> states that behaviour over an abstract view of the store; \<open>lock_service\<close> is the contract
  of the three lock operations, obtained from it by a \<open>sublocale\<close>. The in-memory store at the end
  satisfies \<open>redis_spec\<close> and serves the witnesses.
\<close>

section \<open>The documented behaviour of the server\<close>

type_synonym entry = "string \<times> instant option"

text \<open>A key whose expiry has passed does not exist.\<close>

fun live :: "instant \<Rightarrow> entry option \<Rightarrow> entry option" where
  "live now (Some (v, Some t)) = (if now < t then Some (v, Some t) else None)"
| "live now e = e"

definition set_view ::
  "(string \<Rightarrow> entry option) \<Rightarrow> instant \<Rightarrow> string \<Rightarrow> string \<Rightarrow> int option \<Rightarrow> (string \<Rightarrow> entry option)" where
  "set_view m now k v px = m(k := Some (v, map_option (\<lambda>p. now + p) px))"

fun ttl_of :: "instant \<Rightarrow> entry option \<Rightarrow> int" where
  "ttl_of now None = -2"
| "ttl_of now (Some (v, None)) = -1"
| "ttl_of now (Some (v, Some t)) = t - now"

locale redis_spec =
  fixes R :: "'s redis" and view :: "'s \<Rightarrow> string \<Rightarrow> entry option"
  assumes get: "rget R s now k = map_option fst (live now (view s k))"
    and exists_key: "rexists R s now k = (if live now (view s k) = None then 0 else 1)"
    and set_reply: "(\<And>p. px = Some p \<Longrightarrow> 0 < p) \<Longrightarrow>
      fst (rset R s now k v px nx) = (\<not> nx \<or> live now (view s k) = None)"
    and set_effect: "(\<And>p. px = Some p \<Longrightarrow> 0 < p) \<Longrightarrow>
      view (snd (rset R s now k v px nx)) =
        (if \<not> nx \<or> live now (view s k) = None then set_view (view s) now k v px else view s)"
    and del_reply: "fst (rdel R s now k) = (if live now (view s k) = None then 0 else 1)"
    and del_effect: "view (snd (rdel R s now k)) = (view s)(k := None)"
    and pttl: "rpttl R s now k = ttl_of now (live now (view s k))"
    and ttl_sec: "ttl_of now (live now (view s k)) \<le> 0 \<Longrightarrow> rttl R s now k = ttl_of now (live now (view s k))"
      "0 < ttl_of now (live now (view s k)) \<Longrightarrow>
        0 \<le> rttl R s now k \<and> 1000 * (rttl R s now k - 1) < ttl_of now (live now (view s k)) \<and>
        ttl_of now (live now (view s k)) < 1000 * (rttl R s now k + 1)"
    and incr_fresh: "live now (view s k) = None \<Longrightarrow>
      fst (rincr R s now k) = 1 \<and> view (snd (rincr R s now k)) = (view s)(k := Some (show_int 1, None))"
    and incr_live: "live now (view s k) = Some (show_int n, e) \<Longrightarrow>
      fst (rincr R s now k) = n + 1 \<and> view (snd (rincr R s now k)) = (view s)(k := Some (show_int (n + 1), e))"
    and pexpire_live: "live now (view s k) = Some (v, e) \<Longrightarrow> 0 < p \<Longrightarrow>
      fst (rpexpire R s now k p) = 1 \<and> view (snd (rpexpire R s now k p)) = (view s)(k := Some (v, Some (now + p)))"
    and pexpire_dead: "live now (view s k) = None \<Longrightarrow> 0 < p \<Longrightarrow>
      fst (rpexpire R s now k p) = 0 \<and> live now (view (snd (rpexpire R s now k p)) k) = None \<and>
      (\<forall>k'. k' \<noteq> k \<longrightarrow> view (snd (rpexpire R s now k p)) k' = view s k')"

lemma live_Some: "live now e = Some (v, t) \<longleftrightarrow> e = Some (v, t) \<and> (\<forall>u. t = Some u \<longrightarrow> now < u)"
  by (cases "(now, e)" rule: live.cases) auto

lemma live_later: "live now' e = Some x \<Longrightarrow> now \<le> now' \<Longrightarrow> live now e = Some x"
  by (cases x) (auto simp: live_Some)

lemma issue_cases:
  obtains (ok) "fst (issue c s p) = Inr (fst p)" "snd (issue c s p) = snd p"
  | (before) "fst (issue c s p) = Inl RedisError" "snd (issue c s p) = s"
  | (after) "fst (issue c s p) = Inl RedisError" "snd (issue c s p) = snd p"
  by (cases c; cases p) auto

lemma lua_tonumber_show_int [simp]: "lua_tonumber (show_int n) = n"
proof (cases "n < 0")
  case False
  obtain c cs where cs: "show_nat (nat n) = c # cs" by (meson list.exhaust show_nat_not_Nil)
  with show_nat_no_minus have "c \<noteq> CHR ''-''" by metis
  with cs False read_show_nat [of "nat n"] show ?thesis by (simp add: show_int_def)
qed (simp add: show_int_def)

section \<open>Locks\<close>

text \<open>
  The contract of the lock operations: \<open>holder\<close> is the token and the instant the lock is safe until.
  Acquiring succeeds only on a free lock, extending and releasing only for the holder, and no
  operation on one key touches another.
\<close>

locale lock_service =
  fixes acquire :: "io \<Rightarrow> 's \<Rightarrow> instant \<Rightarrow> string \<Rightarrow> string \<Rightarrow> int \<Rightarrow> (redis_error, string option) result \<times> 's"
    and extend :: "io \<Rightarrow> 's \<Rightarrow> instant \<Rightarrow> string \<Rightarrow> string \<Rightarrow> int \<Rightarrow> (redis_error, bool) result \<times> 's"
    and release :: "io \<Rightarrow> 's \<Rightarrow> instant \<Rightarrow> string \<Rightarrow> string \<Rightarrow> (redis_error, bool) result \<times> 's"
    and holder :: "'s \<Rightarrow> string \<Rightarrow> entry option"
  assumes acquire_grants: "acquire c s now tok k ttl = (Inr (Some tok'), s') \<Longrightarrow> 0 < ttl \<Longrightarrow>
      tok' = tok \<and> live now (holder s k) = None \<and> holder s' k = Some (tok, Some (now + 1000 * ttl))"
    and acquire_keeps: "acquire c s now tok k ttl = (ra, s') \<Longrightarrow> 0 < ttl \<Longrightarrow> live now (holder s k) = Some x \<Longrightarrow>
      holder s' k = holder s k"
    and extend_keeps: "extend c s now k tok ttl = (r, s') \<Longrightarrow> 0 < ttl \<Longrightarrow> live now (holder s k) = Some (v, e) \<Longrightarrow>
      holder s' k = holder s k \<or> v = tok \<and> holder s' k = Some (v, Some (now + 1000 * ttl))"
    and extend_grants: "extend c s now k tok ttl = (Inr True, s') \<Longrightarrow> 0 < ttl \<Longrightarrow>
      holder s' k = Some (tok, Some (now + 1000 * ttl)) \<and> (\<exists>e. live now (holder s k) = Some (tok, e))"
    and release_keeps: "release c s now k tok = (rr, s') \<Longrightarrow> live now (holder s k) = Some (v, e) \<Longrightarrow> v \<noteq> tok \<Longrightarrow>
      holder s' k = holder s k"
    and acquire_free: "live now (holder s k) = None \<Longrightarrow> 0 < ttl \<Longrightarrow>
      fst (acquire Replied s now tok k ttl) = Inr (Some tok)"
    and acquire_bounded: "acquire c s now tok k ttl = (ra, s') \<Longrightarrow> 0 < ttl \<Longrightarrow> now + 1000 * ttl \<le> t \<Longrightarrow>
      live t (holder s k) = None \<Longrightarrow> live t (holder s' k) = None"
    and extend_bounded: "extend c s now k tok ttl = (r, s') \<Longrightarrow> 0 < ttl \<Longrightarrow> now + 1000 * ttl \<le> t \<Longrightarrow>
      live t (holder s k) = None \<Longrightarrow> live t (holder s' k) = None"
    and release_bounded: "release c s now k tok = (rr, s') \<Longrightarrow>
      live t (holder s k) = None \<Longrightarrow> live t (holder s' k) = None"

sublocale redis_spec \<subseteq> lock: lock_service "acquireLock R" "extendLock R" "releaseLock R" view
proof
  fix c s now tok k and ttl :: int and t s'
  assume "acquireLock R c s now tok k ttl = (Inr (Some t), s')" and "0 < ttl"
  then show "t = tok \<and> live now (view s k) = None \<and> view s' k = Some (tok, Some (now + 1000 * ttl))"
    using set_reply [of "Some (1000 * ttl)" s now k tok True] set_effect [of "Some (1000 * ttl)" s now k tok True]
    by (cases "rset R s now k tok (Some (1000 * ttl)) True"; cases c)
      (auto simp: acquireLock_def set_view_def split: if_splits)
next
  fix c s now tok k and ttl :: int and r s' x
  assume "acquireLock R c s now tok k ttl = (r, s')" "0 < ttl" "live now (view s k) = Some x"
  then show "view s' k = view s k"
    using set_effect [of "Some (1000 * ttl)" s now k tok True]
    by (cases "rset R s now k tok (Some (1000 * ttl)) True"; cases c) (auto simp: acquireLock_def)
next
  fix c s now k tok and ttl :: int and r s' v e
  assume a: "extendLock R c s now k tok ttl = (r, s')" "0 < ttl" "live now (view s k) = Some (v, e)"
  then show "view s' k = view s k \<or> v = tok \<and> view s' k = Some (v, Some (now + 1000 * ttl))"
    using pexpire_live [OF a(3), of "1000 * ttl"]
    by (cases "rpexpire R s now k (1000 * ttl)"; cases c)
      (auto simp: extendLock_def EXTEND_IF_OWNED_def get split: if_splits)
next
  fix c s now k tok and ttl :: int and s'
  assume a: "extendLock R c s now k tok ttl = (Inr True, s')" "0 < ttl"
  show "view s' k = Some (tok, Some (now + 1000 * ttl)) \<and> (\<exists>e. live now (view s k) = Some (tok, e))"
  proof (cases "live now (view s k)")
    case None
    with a show ?thesis by (cases c) (auto simp: extendLock_def EXTEND_IF_OWNED_def get)
  next
    case (Some x)
    obtain v e where x: "x = (v, e)" by force
    from a pexpire_live [OF Some [unfolded x], of "1000 * ttl"] Some x show ?thesis
      by (cases "rpexpire R s now k (1000 * ttl)"; cases c)
        (auto simp: extendLock_def EXTEND_IF_OWNED_def get split: if_splits)
  qed
next
  fix c s now k tok r s' v e
  assume "releaseLock R c s now k tok = (r, s')" "live now (view s k) = Some (v, e)" "v \<noteq> tok"
  then show "view s' k = view s k"
    by (cases c) (auto simp: releaseLock_def RELEASE_IF_OWNED_def get)
next
  fix now s k tok and ttl :: int
  assume "live now (view s k) = None" "0 < ttl"
  then show "fst (acquireLock R Replied s now tok k ttl) = Inr (Some tok)"
    using set_reply [of "Some (1000 * ttl)" s now k tok True]
    by (cases "rset R s now k tok (Some (1000 * ttl)) True") (simp add: acquireLock_def)
next
  fix c s now tok k and ttl :: int and r s' t
  assume "acquireLock R c s now tok k ttl = (r, s')" "0 < ttl" "now + 1000 * ttl \<le> t" "live t (view s k) = None"
  then show "live t (view s' k) = None"
    using set_effect [of "Some (1000 * ttl)" s now k tok True]
    by (cases "rset R s now k tok (Some (1000 * ttl)) True"; cases c)
      (auto simp: acquireLock_def set_view_def split: if_splits)
next
  fix c s now k tok and ttl :: int and r s' t
  assume a: "extendLock R c s now k tok ttl = (r, s')" "0 < ttl" "now + 1000 * ttl \<le> t" "live t (view s k) = None"
  show "live t (view s' k) = None"
  proof (cases "rget R s now k = Some tok")
    case True
    then obtain e where "live now (view s k) = Some (tok, e)" by (auto simp: get)
    from pexpire_live [OF this, of "1000 * ttl"] a True show ?thesis
      by (cases "rpexpire R s now k (1000 * ttl)"; cases c) (auto simp: extendLock_def EXTEND_IF_OWNED_def)
  qed (use a in \<open>cases c; auto simp: extendLock_def EXTEND_IF_OWNED_def\<close>)
next
  fix c s now k tok r s' t
  assume "releaseLock R c s now k tok = (r, s')" "live t (view s k) = None"
  then show "live t (view s' k) = None"
    using del_effect [of s now k]
    by (cases "rdel R s now k"; cases c) (auto simp: releaseLock_def RELEASE_IF_OWNED_def split: if_splits)
qed

text \<open>
  Any number of processes using one lock, with their requests interleaved arbitrarily: each remembers
  until when its token is good (from the replies it received), and drops it when it releases.
\<close>

record 's lock_world =
  lw_now :: instant
  lw_store :: 's
  lw_lease :: "string \<Rightarrow> instant option"

inductive lock_step ::
  "(io \<Rightarrow> 's \<Rightarrow> instant \<Rightarrow> string \<Rightarrow> string \<Rightarrow> int \<Rightarrow> (redis_error, string option) result \<times> 's) \<Rightarrow>
   (io \<Rightarrow> 's \<Rightarrow> instant \<Rightarrow> string \<Rightarrow> string \<Rightarrow> int \<Rightarrow> (redis_error, bool) result \<times> 's) \<Rightarrow>
   (io \<Rightarrow> 's \<Rightarrow> instant \<Rightarrow> string \<Rightarrow> string \<Rightarrow> (redis_error, bool) result \<times> 's) \<Rightarrow>
   string \<Rightarrow> int \<Rightarrow> 's lock_world \<Rightarrow> 's lock_world \<Rightarrow> bool"
  for acq ext rel key ttl
where
  ls_tick: "0 \<le> d \<Longrightarrow> lock_step acq ext rel key ttl w (w\<lparr>lw_now := lw_now w + d\<rparr>)"
| ls_acquire: "acq c (lw_store w) (lw_now w) tok key ttl = (r, s') \<Longrightarrow>
    lock_step acq ext rel key ttl w
      (w\<lparr>lw_store := s', lw_lease := (if r = Inr (Some tok) then (lw_lease w)(tok \<mapsto> lw_now w + 1000 * ttl) else lw_lease w)\<rparr>)"
| ls_extend: "ext c (lw_store w) (lw_now w) key tok ttl = (x, s') \<Longrightarrow>
    lock_step acq ext rel key ttl w
      (w\<lparr>lw_store := s', lw_lease := (if x = Inr True then (lw_lease w)(tok \<mapsto> lw_now w + 1000 * ttl) else lw_lease w)\<rparr>)"
| ls_release: "rel c (lw_store w) (lw_now w) key tok = (x, s') \<Longrightarrow>
    lock_step acq ext rel key ttl w (w\<lparr>lw_store := s', lw_lease := (lw_lease w)(tok := None)\<rparr>)"

inductive_cases lock_stepE: "lock_step acq ext rel key ttl w w'"

definition lock_inv :: "('s \<Rightarrow> string \<Rightarrow> entry option) \<Rightarrow> string \<Rightarrow> int \<Rightarrow> 's lock_world \<Rightarrow> bool" where
  "lock_inv holder key ttl w \<longleftrightarrow>
     (\<forall>tok u. lw_lease w tok = Some u \<longrightarrow> u \<le> lw_now w + 1000 * ttl \<and>
        (lw_now w < u \<longrightarrow> (\<exists>u'. holder (lw_store w) key = Some (tok, Some u') \<and> u \<le> u'))) \<and>
     (\<forall>t. lw_now w + 1000 * ttl \<le> t \<longrightarrow> live t (holder (lw_store w) key) = None)"

text \<open>The invariant carries over when the bound holds again and every lease in force is still honoured.\<close>

lemma lock_inv_keep:
  assumes "lock_inv holder key ttl w"
    and "\<And>t. lw_now w + 1000 * ttl \<le> t \<Longrightarrow> live t (holder s' key) = None"
    and "\<And>tok u. lease' tok = Some u \<Longrightarrow> lw_lease w tok = Some u"
    and "\<And>tok u u'. lease' tok = Some u \<Longrightarrow> lw_now w < u \<Longrightarrow> u \<le> lw_now w + 1000 * ttl \<Longrightarrow>
      holder (lw_store w) key = Some (tok, Some u') \<Longrightarrow> u \<le> u' \<Longrightarrow>
      \<exists>u''. holder s' key = Some (tok, Some u'') \<and> u \<le> u''"
  shows "lock_inv holder key ttl (w\<lparr>lw_store := s', lw_lease := lease'\<rparr>)"
proof -
  have "u \<le> lw_now w + 1000 * ttl \<and> (lw_now w < u \<longrightarrow> (\<exists>u'. holder s' key = Some (tok, Some u') \<and> u \<le> u'))"
    if l: "lease' tok = Some u" for tok u
  proof -
    have b: "u \<le> lw_now w + 1000 * ttl"
      and "lw_now w < u \<Longrightarrow> \<exists>u'. holder (lw_store w) key = Some (tok, Some u') \<and> u \<le> u'"
      using assms(1) assms(3) [OF l] unfolding lock_inv_def by blast+
    then show ?thesis using assms(4) [OF l _ b] by blast
  qed
  then show ?thesis using assms(2) by (simp add: lock_inv_def)
qed

text \<open>A reply that grants the lock to \<open>tok\<close> when no other lease is in force.\<close>

lemma lock_inv_grant:
  assumes "lock_inv holder key ttl w"
    and "\<And>t. lw_now w + 1000 * ttl \<le> t \<Longrightarrow> live t (holder s' key) = None"
    and "holder s' key = Some (tok, Some (lw_now w + 1000 * ttl))"
    and "\<And>v e. live (lw_now w) (holder (lw_store w) key) = Some (v, e) \<Longrightarrow> v = tok"
  shows "lock_inv holder key ttl (w\<lparr>lw_store := s', lw_lease := (lw_lease w)(tok \<mapsto> lw_now w + 1000 * ttl)\<rparr>)"
proof -
  have "u \<le> lw_now w + 1000 * ttl \<and> \<not> lw_now w < u" if l: "lw_lease w tok' = Some u" and ne: "tok' \<noteq> tok" for tok' u
  proof
    show "u \<le> lw_now w + 1000 * ttl" using assms(1) l by (auto simp: lock_inv_def)
    show "\<not> lw_now w < u"
    proof
      assume u: "lw_now w < u"
      then obtain u' where "holder (lw_store w) key = Some (tok', Some u')" "u \<le> u'"
        using assms(1) l unfolding lock_inv_def by blast
      then show False using assms(4) [of tok' "Some u'"] u ne by simp
    qed
  qed
  then show ?thesis using assms(2,3) by (simp add: lock_inv_def)
qed

context lock_service
begin

lemma lock_inv_step:
  assumes "lock_step acquire extend release key ttl w w'" and "lock_inv holder key ttl w" and "0 < ttl"
  shows "lock_inv holder key ttl w'"
  using assms(1)
proof (cases rule: lock_step.cases)
  case (ls_tick d)
  then show ?thesis using assms(2) by (fastforce simp: lock_inv_def)
next
  case (ls_acquire c tok r s')
  have b: "live t (holder s' key) = None" if "lw_now w + 1000 * ttl \<le> t" for t
    using acquire_bounded [OF ls_acquire(2) assms(3) that] assms(2) that by (simp add: lock_inv_def)
  show ?thesis
  proof (cases "r = Inr (Some tok)")
    case True
    then show ?thesis
      using lock_inv_grant [OF assms(2) b] acquire_grants [OF ls_acquire(2) [unfolded True] assms(3)] ls_acquire(1)
      by simp
  next
    case False
    have "lock_inv holder key ttl (w\<lparr>lw_store := s', lw_lease := lw_lease w\<rparr>)"
      using acquire_keeps [OF ls_acquire(2) assms(3)] by (intro lock_inv_keep [OF assms(2) b]) auto
    then show ?thesis using ls_acquire(1) False by simp
  qed
next
  case (ls_extend c tok x s')
  have b: "live t (holder s' key) = None" if "lw_now w + 1000 * ttl \<le> t" for t
    using extend_bounded [OF ls_extend(2) assms(3) that] assms(2) that by (simp add: lock_inv_def)
  show ?thesis
  proof (cases "x = Inr True")
    case True
    then show ?thesis
      using lock_inv_grant [OF assms(2) b] extend_grants [OF ls_extend(2) [unfolded True] assms(3)] ls_extend(1)
      by auto
  next
    case False
    have "lock_inv holder key ttl (w\<lparr>lw_store := s', lw_lease := lw_lease w\<rparr>)"
    proof (rule lock_inv_keep [OF assms(2) b])
      fix tok' u u'
      assume "lw_now w < u" "u \<le> lw_now w + 1000 * ttl" "holder (lw_store w) key = Some (tok', Some u')" "u \<le> u'"
      then show "\<exists>u''. holder s' key = Some (tok', Some u'') \<and> u \<le> u''"
        using extend_keeps [OF ls_extend(2) assms(3), of tok' "Some u'"] by auto
    qed
    then show ?thesis using ls_extend(1) False by simp
  qed
next
  case (ls_release c tok x s')
  have b: "live t (holder s' key) = None" if "lw_now w + 1000 * ttl \<le> t" for t
    using release_bounded [OF ls_release(2)] assms(2) that by (simp add: lock_inv_def)
  have "lock_inv holder key ttl (w\<lparr>lw_store := s', lw_lease := (lw_lease w)(tok := None)\<rparr>)"
  proof (rule lock_inv_keep [OF assms(2) b])
    fix tok' u u'
    assume "((lw_lease w)(tok := None)) tok' = Some u" "lw_now w < u" "holder (lw_store w) key = Some (tok', Some u')" "u \<le> u'"
    then show "\<exists>u''. holder s' key = Some (tok', Some u'') \<and> u \<le> u''"
      using release_keeps [OF ls_release(2), of tok' "Some u'"] by (auto split: if_splits)
  qed (auto split: if_splits)
  then show ?thesis using ls_release(1) by simp
qed

lemma lock_inv_run:
  assumes "(lock_step acquire extend release key ttl)\<^sup>*\<^sup>* w w'" and "lock_inv holder key ttl w" and "0 < ttl"
  shows "lock_inv holder key ttl w'"
  using assms by induction (auto intro: lock_inv_step)

lemma leases_exclusive:
  assumes "lock_inv holder key ttl w" "lw_lease w a = Some u" "lw_now w < u" "lw_lease w b = Some v" "lw_now w < v"
  shows "a = b"
  using assms unfolding lock_inv_def by (metis option.inject prod.inject)

lemma free_after_ttl:
  assumes "lock_inv holder key ttl w" "0 < ttl" "1000 * ttl \<le> d"
  shows "fst (acquire Replied (lw_store w) (lw_now w + d) tok key ttl) = Inr (Some tok)"
  using assms by (intro acquire_free) (auto simp: lock_inv_def)

end

section \<open>Fixed windows\<close>

text \<open>Failures recorded one after another, at the given instants.\<close>

fun record_failures :: "'s redis \<Rightarrow> 's \<Rightarrow> string \<Rightarrow> int \<Rightarrow> instant list \<Rightarrow> int list \<times> 's" where
  "record_failures R s key w [] = ([], s)"
| "record_failures R s key w (t # ts) =
     (let (f, s') = recordFailure R Replied s t key w; (fs, s'') = record_failures R s' key w ts
      in (f_count f # fs, s''))"

text \<open>Requests counted by the throttler, at the given instants: whether each was blocked.\<close>

fun increments ::
  "'s redis \<Rightarrow> 's \<Rightarrow> string \<Rightarrow> int \<Rightarrow> int \<Rightarrow> int \<Rightarrow> string \<Rightarrow> instant list \<Rightarrow> (int \<times> bool) list \<times> 's" where
  "increments R s key ttl limit block name [] = ([], s)"
| "increments R s key ttl limit block name (t # ts) =
     (let (r, s') = increment R Replied s t key ttl limit block name;
          (rs, s'') = increments R s' key ttl limit block name ts
      in ((t_totalHits r, t_isBlocked r) # rs, s''))"

context redis_spec
begin

lemma is_lock_service: "lock_service (acquireLock R) (extendLock R) (releaseLock R) view"
  by (rule lock.lock_service_axioms)

lemma recordFailure_fresh:
  assumes "live t (view s key) = None" and "0 < w"
  shows "f_count (fst (recordFailure R Replied s t key w)) = 1 \<and>
    view (snd (recordFailure R Replied s t key w)) key = Some (show_int 1, Some (t + 1000 * w))"
proof -
  obtain n s1 where i: "rincr R s t key = (n, s1)" by force
  from incr_fresh [OF assms(1)] i have n: "n = 1" and v: "view s1 = (view s)(key := Some (show_int 1, None))" by simp_all
  from v have "live t (view s1 key) = Some (show_int 1, None)" by simp
  from pexpire_live [OF this, of "1000 * w"] assms(2) n i show ?thesis
    by (simp add: recordFailure_def RECORD_FAILURE_def Let_def)
qed

lemma recordFailure_live:
  assumes "view s key = Some (show_int n, Some e)" and "t < e" and "0 < n"
  shows "f_count (fst (recordFailure R Replied s t key w)) = n + 1 \<and>
    view (snd (recordFailure R Replied s t key w)) key = Some (show_int (n + 1), Some e)"
proof -
  obtain m s1 where i: "rincr R s t key = (m, s1)" by force
  have "live t (view s key) = Some (show_int n, Some e)" using assms by simp
  from incr_live [OF this] i assms(3) show ?thesis
    by (simp add: recordFailure_def RECORD_FAILURE_def Let_def)
qed

lemma record_failures_live:
  assumes "view s key = Some (show_int n, Some e)" and "\<And>t. t \<in> set ts \<Longrightarrow> t < e" and "0 < n"
  shows "fst (record_failures R s key w ts) = [n + 1..n + int (length ts)] \<and>
    view (snd (record_failures R s key w ts)) key = Some (show_int (n + int (length ts)), Some e)"
  using assms
proof (induction ts arbitrary: s n)
  case (Cons t ts)
  obtain f s' where r: "recordFailure R Replied s t key w = (f, s')" by force
  with recordFailure_live [OF Cons.prems(1) _ Cons.prems(3), of t w] Cons.prems(2)
  have f: "f_count f = n + 1" "view s' key = Some (show_int (n + 1), Some e)" by simp_all
  obtain fs s'' where fs: "record_failures R s' key w ts = (fs, s'')" by force
  with Cons.IH [OF f(2)] Cons.prems(2,3) have ih: "fs = [n + 1 + 1..n + 1 + int (length ts)]"
    "view s'' key = Some (show_int (n + 1 + int (length ts)), Some e)" by simp_all
  have "[n + 1..n + int (length (t # ts))] = (n + 1) # [n + 1 + 1..n + 1 + int (length ts)]"
    by (subst upto.simps) (simp add: algebra_simps)
  then show ?case using r f(1) fs ih by (simp add: algebra_simps)
qed simp

lemma failureCount_view:
  assumes "view s key = Some (show_int n, Some e)"
  shows "f_count (failureCount R Replied s now key) = (if now < e then n else 0)"
  using assms by (simp add: failureCount_def READ_FAILURES_def get)

text \<open>One request of the throttler when the script found \<open>n\<close> hits in the window ending at \<open>e\<close>.\<close>

lemma INCREMENT_after_incr:
  assumes "hk \<noteq> bk" and "0 < block" and "(if hits = 1 then snd (rpexpire R s1 t hk ttl) else s1) = s2"
    and "rincr R s t hk = (hits, s1)" and "view s2 hk = Some x"
    and "INCREMENT R s t hk bk ttl limit block = ((h, wt, bt), s')"
  shows "h = hits \<and> view s' hk = Some x \<and> (hits > limit \<longrightarrow> 0 < bt) \<and>
    (hits \<le> limit \<longrightarrow> view s' = view s2 \<and> (0 < bt \<longleftrightarrow> 0 < rpttl R s2 t bk))"
proof -
  have set: "view (snd (rset R s2 t bk ''1'' (Some block) False)) = set_view (view s2) t bk ''1'' (Some block)"
    using set_effect [of "Some block" s2 t bk "''1''" False] assms(2) by simp
  show ?thesis
    using assms set pttl [of s2 t bk] by (auto simp: INCREMENT_def Let_def set_view_def split: if_splits)
qed

text \<open>The throttler touches no key but its own two, as long as its counter is one.\<close>

lemma increment_frame:
  assumes "increment R c s t key ttl limit block name = (r, s')" and "0 < ttl" "0 \<le> block"
    and "live t (view s (hitKeyFor name key)) = None \<or> (\<exists>n e. live t (view s (hitKeyFor name key)) = Some (show_int n, e))"
    and "k \<noteq> hitKeyFor name key" "k \<noteq> hitKeyFor name key @ '':blocked''"
  shows "view s' k = view s k"
proof -
  let ?hk = "hitKeyFor name key" and ?bk = "hitKeyFor name key @ '':blocked''" and ?b = "if block \<noteq> 0 then block else ttl"
  obtain n s1 where i: "rincr R s t ?hk = (n, s1)" by force
  have 1: "view s1 k = view s k" "\<exists>v e. live t (view s1 ?hk) = Some (v, e)"
    using assms(4,5) incr_fresh [of t s ?hk] incr_live [of t s ?hk] i by (auto simp: live_Some)
  obtain v e where "live t (view s1 ?hk) = Some (v, e)" using 1(2) by blast
  from pexpire_live [OF this assms(2)] have 2: "view (snd (rpexpire R s1 t ?hk ttl)) k = view s1 k" using assms(5) by simp
  have "0 < ?b" using assms(2,3) by auto
  then have 3: "view (snd (rset R w t ?bk ''1'' (Some ?b) False)) k = view w k" for w
    using set_effect [of "Some ?b" w t ?bk "''1''" False] assms(6) by (simp add: set_view_def)
  have "view (snd (INCREMENT R s t ?hk ?bk ttl limit ?b)) k = view s k"
    using 1(1) 2 3 by (auto simp: INCREMENT_def Let_def i split: if_splits)
  moreover have "s' = s \<or> s' = snd (INCREMENT R s t ?hk ?bk ttl limit ?b)"
    using assms(1) by (cases c; cases "INCREMENT R s t ?hk ?bk ttl limit ?b") (auto simp: increment_def Let_def)
  ultimately show ?thesis by auto
qed

text \<open>
  A request that opens a window, and one within it: counted, and blocked when the count exceeds the limit or
  a block is still in force, which up to the limit is the one the window found.
\<close>

lemma increment_fresh:
  assumes "live t (view s (hitKeyFor name key)) = None"
    and "0 < ttl" "0 \<le> block" "increment R Replied s t key ttl limit block name = (r, s')"
  shows "t_totalHits r = 1 \<and> (t_isBlocked r \<longleftrightarrow> 1 > limit \<or> 0 < rpttl R s t (hitKeyFor name key @ '':blocked'')) \<and>
    view s' (hitKeyFor name key) = Some (show_int 1, Some (t + ttl)) \<and>
    (1 \<le> limit \<longrightarrow> view s' (hitKeyFor name key @ '':blocked'') = view s (hitKeyFor name key @ '':blocked''))"
proof -
  let ?hk = "hitKeyFor name key" and ?bk = "hitKeyFor name key @ '':blocked''" and ?b = "if block \<noteq> 0 then block else ttl"
  obtain n s1 where i: "rincr R s t ?hk = (n, s1)" by force
  define s2 where "s2 = snd (rpexpire R s1 t ?hk ttl)"
  from incr_fresh [OF assms(1)] i have n: "n = 1" and v: "view s1 = (view s)(?hk := Some (show_int 1, None))" by simp_all
  have "live t (view s1 ?hk) = Some (show_int 1, None)" using v by simp
  from pexpire_live [OF this assms(2)] v have v2: "view s2 = (view s)(?hk := Some (show_int 1, Some (t + ttl)))"
    by (simp add: s2_def)
  obtain h wt bt s'' where I: "INCREMENT R s t ?hk ?bk ttl limit ?b = ((h, wt, bt), s'')"
    using prod_cases4 by (metis surj_pair)
  have b: "0 < ?b" and k: "?hk \<noteq> ?bk" using assms(2,3) by auto
  have r: "t_totalHits r = h" "t_isBlocked r = (0 < bt)" "s' = s''"
    using assms(4) I by (auto simp: increment_def Let_def)
  have "h = n \<and> view s'' ?hk = Some (show_int 1, Some (t + ttl)) \<and> (n > limit \<longrightarrow> 0 < bt) \<and>
      (n \<le> limit \<longrightarrow> view s'' = view s2 \<and> (0 < bt \<longleftrightarrow> 0 < rpttl R s2 t ?bk))"
    using n v2 by (intro INCREMENT_after_incr [OF k b _ i _ I]) (simp_all add: s2_def)
  then show ?thesis using n v2 k by (auto simp: r pttl)
qed

lemma increment_live:
  assumes "view s (hitKeyFor name key) = Some (show_int n, Some e)" "t < e" "0 < n"
    and "0 < ttl" "0 \<le> block" "increment R Replied s t key ttl limit block name = (r, s')"
  shows "t_totalHits r = n + 1 \<and> (n + 1 > limit \<longrightarrow> t_isBlocked r) \<and>
    (n + 1 \<le> limit \<longrightarrow> t_isBlocked r = (0 < rpttl R s t (hitKeyFor name key @ '':blocked''))) \<and>
    view s' (hitKeyFor name key) = Some (show_int (n + 1), Some e) \<and>
    (n + 1 \<le> limit \<longrightarrow> view s' (hitKeyFor name key @ '':blocked'') = view s (hitKeyFor name key @ '':blocked''))"
proof -
  let ?hk = "hitKeyFor name key" and ?bk = "hitKeyFor name key @ '':blocked''" and ?b = "if block \<noteq> 0 then block else ttl"
  obtain m s1 where i: "rincr R s t ?hk = (m, s1)" by force
  have "live t (view s ?hk) = Some (show_int n, Some e)" using assms by simp
  from incr_live [OF this] i have m: "m = n + 1" and v: "view s1 = (view s)(?hk := Some (show_int (n + 1), Some e))"
    by simp_all
  obtain h wt bt s'' where I: "INCREMENT R s t ?hk ?bk ttl limit ?b = ((h, wt, bt), s'')"
    using prod_cases4 by (metis surj_pair)
  have b: "0 < ?b" and k: "?hk \<noteq> ?bk" using assms(4,5) by auto
  have r: "t_totalHits r = h" "t_isBlocked r = (0 < bt)" "s' = s''"
    using assms(6) I by (auto simp: increment_def Let_def)
  have "h = m \<and> view s'' ?hk = Some (show_int (n + 1), Some e) \<and> (m > limit \<longrightarrow> 0 < bt) \<and>
      (m \<le> limit \<longrightarrow> view s'' = view s1 \<and> (0 < bt \<longleftrightarrow> 0 < rpttl R s1 t ?bk))"
    using m v assms(3) by (intro INCREMENT_after_incr [OF k b _ i _ I]) simp_all
  then show ?thesis using m v k by (auto simp: r pttl)
qed

lemma increments_live:
  assumes "view s (hitKeyFor name key) = Some (show_int n, Some e)" "0 < n"
    and "n \<le> limit \<longrightarrow> view s (hitKeyFor name key @ '':blocked'') = view s0 (hitKeyFor name key @ '':blocked'')"
    and "\<And>t. t \<in> set ts \<Longrightarrow> t < e" and "0 < ttl" "0 \<le> block"
  shows "fst (increments R s key ttl limit block name ts) =
    map (\<lambda>(i, t). (i, i > limit \<or> 0 < rpttl R s0 t (hitKeyFor name key @ '':blocked''))) (zip [n + 1..n + int (length ts)] ts)"
  using assms(1-4)
proof (induction ts arbitrary: s n)
  case (Cons t ts)
  let ?bk = "hitKeyFor name key @ '':blocked''"
  obtain r s' where r: "increment R Replied s t key ttl limit block name = (r, s')" by force
  have t: "t < e" using Cons.prems(4) by simp
  note step = increment_live [OF Cons.prems(1) t Cons.prems(2) assms(5,6) r]
  have "n + 1 \<le> limit \<longrightarrow> view s' ?bk = view s0 ?bk" using step Cons.prems(3) by simp
  then have ih: "fst (increments R s' key ttl limit block name ts) =
      map (\<lambda>(i, t). (i, i > limit \<or> 0 < rpttl R s0 t ?bk)) (zip [n + 1 + 1..n + 1 + int (length ts)] ts)"
    using step Cons.prems(2,4) by (intro Cons.IH) auto
  have "t_isBlocked r \<longleftrightarrow> n + 1 > limit \<or> 0 < rpttl R s0 t ?bk" using step Cons.prems(3) by (cases "n + 1 > limit") (auto simp: pttl)
  moreover have "[n + 1..n + int (length (t # ts))] = (n + 1) # [n + 1 + 1..n + 1 + int (length ts)]"
    by (subst upto.simps) (simp add: algebra_simps)
  ultimately show ?case using r step ih by (simp add: split_beta Let_def)
qed simp

end

section \<open>An in-memory server\<close>

text \<open>The store as a finite association from keys to entries; \<open>TTL\<close> rounds to the nearest second.\<close>

definition mem_redis :: "(string \<Rightarrow> entry option) redis" where
  "mem_redis =
     \<lparr>rget = (\<lambda>m now k. map_option fst (live now (m k))),
      rset = (\<lambda>m now k v px nx. if nx \<and> live now (m k) \<noteq> None then (False, m) else (True, set_view m now k v px)),
      rdel = (\<lambda>m now k. (if live now (m k) = None then 0 else 1, m(k := None))),
      rexists = (\<lambda>m now k. if live now (m k) = None then 0 else 1),
      rttl = (\<lambda>m now k. let p = ttl_of now (live now (m k)) in if p < 0 then p else (p + 500) div 1000),
      rpttl = (\<lambda>m now k. ttl_of now (live now (m k))),
      rincr = (\<lambda>m now k. case live now (m k) of
                 None \<Rightarrow> (1, m(k := Some (show_int 1, None)))
               | Some (v, e) \<Rightarrow> (lua_tonumber v + 1, m(k := Some (show_int (lua_tonumber v + 1), e)))),
      rpexpire = (\<lambda>m now k p. case live now (m k) of
                 None \<Rightarrow> (0, m) | Some (v, e) \<Rightarrow> (1, m(k := Some (v, Some (now + p)))))\<rparr>"

interpretation mem: redis_spec mem_redis "\<lambda>m. m"
proof
  fix now s k
  show "ttl_of now (live now (s k)) \<le> 0 \<Longrightarrow> rttl mem_redis s now k = ttl_of now (live now (s k))"
    by (cases "ttl_of now (live now (s k)) = 0") (simp_all add: mem_redis_def Let_def)
  assume pos: "0 < ttl_of now (live now (s k))"
  then have t: "rttl mem_redis s now k = (ttl_of now (live now (s k)) + 500) div 1000"
    by (simp add: mem_redis_def Let_def)
  have "0 \<le> (p + 500) div 1000 \<and> 1000 * ((p + 500) div 1000 - 1) < p \<and> p < 1000 * ((p + 500) div 1000 + 1)"
    if "0 < p" for p :: int
  proof -
    define q m where "q = (p + 500) div 1000" and "m = (p + 500) mod 1000"
    have "1000 * q + m = p + 500" "m < 1000" "0 \<le> m" by (simp_all add: q_def m_def)
    then have "0 \<le> q \<and> 1000 * (q - 1) < p \<and> p < 1000 * (q + 1)" using that by auto
    then show ?thesis by (simp add: q_def)
  qed
  from this [OF pos] show "0 \<le> rttl mem_redis s now k \<and> 1000 * (rttl mem_redis s now k - 1) < ttl_of now (live now (s k)) \<and>
        ttl_of now (live now (s k)) < 1000 * (rttl mem_redis s now k + 1)"
    unfolding t .
qed (simp_all add: mem_redis_def set_view_def del: not_None_eq split_paired_All split_paired_Ex)

section \<open>Properties\<close>

text \<open>
  C15: mutual exclusion of the fenced lock. Whatever any number of processes do with it (acquire,
  extend, release, crash, retry with any token), whichever of their commands fail before or after
  taking effect, two tokens are never in force at once, and the server still knows the one that is.
\<close>

theorem lock_exclusive:
  assumes "redis_spec R view" and "0 < ttl" and "view (lw_store w0) key = None" and "lw_lease w0 = Map.empty"
    and "(lock_step (acquireLock R) (extendLock R) (releaseLock R) key ttl)\<^sup>*\<^sup>* w0 w"
    and "lw_lease w a = Some u" "lw_now w < u" "lw_lease w b = Some v" "lw_now w < v"
  shows "a = b \<and> rget R (lw_store w) (lw_now w) key = Some a"
proof -
  from assms(1) have L: "lock_service (acquireLock R) (extendLock R) (releaseLock R) view"
    by (rule redis_spec.is_lock_service)
  have "lock_inv view key ttl w0" using assms(3,4) by (simp add: lock_inv_def)
  then have inv: "lock_inv view key ttl w" by (rule lock_service.lock_inv_run [OF L assms(5) _ assms(2)])
  then obtain u' where "view (lw_store w) key = Some (a, Some u')" "u \<le> u'"
    using assms(6,7) unfolding lock_inv_def by blast
  then show ?thesis using lock_service.leases_exclusive [OF L inv assms(6-9)] assms(7)
    by (simp add: redis_spec.get [OF assms(1)])
qed

text \<open>A holder that has just extended its lock, beside a process that was refused.\<close>

definition one_holder :: "(string \<Rightarrow> entry option) lock_world" where
  "one_holder = \<lparr>lw_now = 5000, lw_store = [''k'' \<mapsto> (''a'', Some 125000)], lw_lease = [''a'' \<mapsto> 125000]\<rparr>"

lemma one_holder_reachable:
  "(lock_step (acquireLock mem_redis) (extendLock mem_redis) (releaseLock mem_redis) ''k'' 120)\<^sup>*\<^sup>*
     \<lparr>lw_now = 5000, lw_store = Map.empty, lw_lease = Map.empty\<rparr> one_holder"
proof -
  let ?w = "\<lparr>lw_now = 5000, lw_store = Map.empty, lw_lease = Map.empty\<rparr> :: (string \<Rightarrow> entry option) lock_world"
  have "lock_step (acquireLock mem_redis) (extendLock mem_redis) (releaseLock mem_redis) ''k'' 120 ?w
      (?w\<lparr>lw_store := [''k'' \<mapsto> (''a'', Some 125000)],
          lw_lease := (if Inr (Some ''a'') = (Inr (Some ''a'') :: (redis_error, string option) result)
                       then (lw_lease ?w)(''a'' \<mapsto> lw_now ?w + 1000 * 120) else lw_lease ?w)\<rparr>)"
    by (rule ls_acquire [of _ Replied]) (simp add: acquireLock_def mem_redis_def set_view_def)
  then show ?thesis by (simp add: one_holder_def)
qed

theorem lock_exclusive_witness:
  "rget mem_redis (lw_store one_holder) 5000 ''k'' = Some ''a''"
  using lock_exclusive [OF mem.redis_spec_axioms _ _ _ one_holder_reachable, of "''a''" 125000 "''a''" 125000]
  by (simp add: one_holder_def)

text \<open>
  A holder that dies blocks nobody for longer than one TTL. From any state those processes can
  reach, if the lock is left alone for its TTL then the next attempt to acquire it succeeds.
\<close>

theorem lock_recovers:
  assumes "redis_spec R view" and "0 < ttl" and "view (lw_store w0) key = None" and "lw_lease w0 = Map.empty"
    and "(lock_step (acquireLock R) (extendLock R) (releaseLock R) key ttl)\<^sup>*\<^sup>* w0 w"
    and "1000 * ttl \<le> d"
  shows "fst (acquireLock R Replied (lw_store w) (lw_now w + d) tok key ttl) = Inr (Some tok)"
proof -
  from assms(1) have L: "lock_service (acquireLock R) (extendLock R) (releaseLock R) view"
    by (rule redis_spec.is_lock_service)
  have "lock_inv view key ttl w0" using assms(3,4) by (simp add: lock_inv_def)
  then have inv: "lock_inv view key ttl w" by (rule lock_service.lock_inv_run [OF L assms(5) _ assms(2)])
  then show ?thesis by (rule lock_service.free_after_ttl [OF L _ assms(2,6)])
qed

theorem lock_recovers_witness:
  "fst (acquireLock mem_redis Replied (lw_store one_holder) 125000 ''b'' ''k'' 120) = Inr (Some ''b'')"
  using lock_recovers [OF mem.redis_spec_axioms _ _ _ one_holder_reachable, of 120000 "''b''"]
  by (simp add: one_holder_def)

text \<open>
  The lockout window is fixed. The n-th failure of a run is counted as n, and however many follow
  and however late, the count is forgotten exactly one window after the first of them: guessing on
  does not extend the lockout.
\<close>

theorem failure_window_fixed:
  assumes "redis_spec R view" and "live t0 (view s key) = None" and "0 < w"
    and "\<And>t. t \<in> set ts \<Longrightarrow> t < t0 + 1000 * w"
  shows "fst (record_failures R s key w (t0 # ts)) = [1..1 + int (length ts)] \<and>
    f_count (failureCount R Replied (snd (record_failures R s key w (t0 # ts))) now key) =
      (if now < t0 + 1000 * w then 1 + int (length ts) else 0)"
proof -
  obtain f s' where r: "recordFailure R Replied s t0 key w = (f, s')" by force
  with redis_spec.recordFailure_fresh [OF assms(1-3)]
  have f: "f_count f = 1" "view s' key = Some (show_int 1, Some (t0 + 1000 * w))" by simp_all
  note rest = redis_spec.record_failures_live [OF assms(1) f(2) assms(4), of ts w]
  have "[1..1 + int (length ts)] = 1 # [1 + 1..1 + int (length ts)]" by (subst upto.simps) simp
  then show ?thesis using rest r f(1) redis_spec.failureCount_view [OF assms(1)]
    by (simp add: split_beta Let_def)
qed

theorem failure_window_fixed_witness:
  "f_count (failureCount mem_redis Replied (snd (record_failures mem_redis Map.empty ''k'' 900 [0, 1000, 899999])) 900000 ''k'') = 0"
proof -
  have "\<And>t. t \<in> set [1000, 899999] \<Longrightarrow> t < 0 + 1000 * (900::int)" by auto
  from failure_window_fixed [OF mem.redis_spec_axioms _ _ this, where ts = "[1000, 899999]" and s = Map.empty and key = "''k''" and now = 900000] show ?thesis
    by (simp del: record_failures.simps set_simps)
qed

text \<open>
  C36: the rate limit is exact. In a window opened by the first request, the i-th request for the same key is
  counted as i and blocked exactly when i exceeds the limit or a block of an earlier window is still in force
  at its time; a block the window itself sets changes nothing, since it can only meet requests over the limit.
\<close>

theorem throttle_exact:
  assumes "redis_spec R view" and "0 < ttl" and "0 \<le> block"
    and "live t0 (view s (hitKeyFor name key)) = None" and "\<And>t. t \<in> set ts \<Longrightarrow> t < t0 + ttl"
  shows "fst (increments R s key ttl limit block name (t0 # ts)) =
    map (\<lambda>(i, t). (i, i > limit \<or> 0 < rpttl R s t (hitKeyFor name key @ '':blocked''))) (zip [1..1 + int (length ts)] (t0 # ts))"
proof -
  obtain r s' where r: "increment R Replied s t0 key ttl limit block name = (r, s')" by force
  note step = redis_spec.increment_fresh [OF assms(1,4,2,3) r]
  have "fst (increments R s' key ttl limit block name ts) =
      map (\<lambda>(i, t). (i, i > limit \<or> 0 < rpttl R s t (hitKeyFor name key @ '':blocked''))) (zip [1 + 1..1 + int (length ts)] ts)"
    using step assms by (intro redis_spec.increments_live [OF assms(1), where e = "t0 + ttl"]) auto
  moreover have "[1..1 + int (length ts)] = 1 # [1 + 1..1 + int (length ts)]" by (subst upto.simps) simp
  ultimately show ?thesis using r step by (simp add: split_beta Let_def)
qed

text \<open>The second window opens under the block of the first, which the third request had set for 60 s.\<close>

theorem throttle_exact_witness:
  "fst (increments mem_redis Map.empty ''ip'' 60000 2 60000 ''default'' [0, 10, 20]) = [(1, False), (2, False), (3, True)] \<and>
   fst (increments mem_redis (snd (increments mem_redis Map.empty ''ip'' 60000 2 60000 ''default'' [0, 10, 20])) ''ip'' 60000 2 60000
     ''default'' [60000, 60015, 60030]) = [(1, True), (2, True), (3, True)]"
proof
  show "fst (increments mem_redis Map.empty ''ip'' 60000 2 60000 ''default'' [0, 10, 20]) = [(1, False), (2, False), (3, True)]"
    by (subst throttle_exact [OF mem.redis_spec_axioms]) (auto simp: upto.simps mem.pttl)
  define s where "s = snd (increments mem_redis Map.empty ''ip'' 60000 2 60000 ''default'' [0, 10, 20])"
  have v: "live 60000 (s (hitKeyFor ''default'' ''ip'')) = None" "s (hitKeyFor ''default'' ''ip'' @ '':blocked'') = Some (''1'', Some 60020)"
    by (simp_all add: s_def increment_def INCREMENT_def mem_redis_def Let_def set_view_def)
  have t: "\<And>t. t \<in> set [60015, 60030] \<Longrightarrow> t < 60000 + (60000::int)" by auto
  have "fst (increments mem_redis s ''ip'' 60000 2 60000 ''default'' [60000, 60015, 60030]) = [(1, True), (2, True), (3, True)]"
    using throttle_exact [OF mem.redis_spec_axioms _ _ _ t, where s = s and name = "''default''" and key = "''ip''" and ts = "[60015, 60030]"
      and block = 60000 and limit = 2] v
    by (simp add: upto.simps mem.pttl del: increments.simps)
  then show "fst (increments mem_redis (snd (increments mem_redis Map.empty ''ip'' 60000 2 60000 ''default'' [0, 10, 20])) ''ip'' 60000 2 60000
     ''default'' [60000, 60015, 60030]) = [(1, True), (2, True), (3, True)]" unfolding s_def .
qed

end
