(* ===== verification/ApiBase.thy ===== *)
theory ApiBase
  imports Schema RedisSpec
begin

text \<open>
  What the services of \<open>apps/core-api\<close> share: the errors a request can end with, the state a request
  works on, a request as an action that may reject at any statement, the limits of \<open>meta/limits.ts\<close>,
  pages of \<open>common/dto/pagination.dto.ts\<close> and the durations of \<open>auth/duration.ts\<close>. A request reads
  the clock once. Its statements and commands are numbered in program order, and each has a fate.
\<close>

section \<open>Errors and state\<close>

text \<open>\<open>ValidationFailed\<close> is the 400 of the validation pipe, whose messages are not modelled.\<close>

datatype http_error =
    BadRequest string
  | ValidationFailed
  | Unauthorized string
  | Forbidden string
  | NotFound string
  | Conflict string
  | TooManyRequests int
  | ServiceUnavailable string
  | DatabaseError db_error
  | CacheError

record 'r api =
  ap_db :: db
  ap_redis :: 'r
  ap_mailed :: "(string \<times> string \<times> string) list"
  ap_events :: "(string \<times> TriggerFiredEvent) list"

definition EM_DASH :: string where
  "EM_DASH = [CHR 0xE2, CHR 0x80, CHR 0x94]"

type_synonym ('r, 'a) act = "'r api \<Rightarrow> (http_error, 'a) result \<times> 'r api"

text \<open>The clock, the random ids in the order they are drawn, and the fates of statements and commands.\<close>

record request_env =
  rq_now :: instant
  rq_uuid :: "nat \<Rightarrow> string"
  rq_sql :: "nat \<Rightarrow> commit"
  rq_io :: "nat \<Rightarrow> io"

definition done_env :: "instant \<Rightarrow> (nat \<Rightarrow> string) \<Rightarrow> request_env" where
  "done_env t u = \<lparr>rq_now = t, rq_uuid = u, rq_sql = (\<lambda>_. Committed), rq_io = (\<lambda>_. Replied)\<rparr>"

section \<open>Actions\<close>

definition yields :: "'a \<Rightarrow> ('r, 'a) act" where
  "yields x s = (Inr x, s)"

definition rejects :: "http_error \<Rightarrow> ('r, 'a) act" where
  "rejects e s = (Inl e, s)"

definition andThen :: "('r, 'a) act \<Rightarrow> ('a \<Rightarrow> ('r, 'b) act) \<Rightarrow> ('r, 'b) act" where
  "andThen m k s = (case m s of (Inl e, s') \<Rightarrow> (Inl e, s') | (Inr x, s') \<Rightarrow> k x s')"

definition reads :: "commit \<Rightarrow> (db \<Rightarrow> 'a) \<Rightarrow> ('r, 'a) act" where
  "reads f q s = (if f = Committed then (Inr (q (ap_db s)), s) else (Inl (DatabaseError DbDown), s))"

definition query :: "commit \<Rightarrow> (db \<Rightarrow> (db_error, 'a \<times> db) result) \<Rightarrow> ('r, (db_error, 'a) result) act" where
  "query f q s = (case transact f (ap_db s) (q (ap_db s)) of (r, d) \<Rightarrow> (Inr r, s\<lparr>ap_db := d\<rparr>))"

definition rethrow :: "(db_error, 'a) result \<Rightarrow> ('r, 'a) act" where
  "rethrow r = (case r of Inl e \<Rightarrow> rejects (DatabaseError e) | Inr x \<Rightarrow> yields x)"

definition executes :: "commit \<Rightarrow> (db \<Rightarrow> (db_error, 'a \<times> db) result) \<Rightarrow> ('r, 'a) act" where
  "executes f q = andThen (query f q) rethrow"

definition asks :: "('r \<Rightarrow> 'a \<times> 'r) \<Rightarrow> ('r, 'a) act" where
  "asks c s = (case c (ap_redis s) of (x, r) \<Rightarrow> (Inr x, s\<lparr>ap_redis := r\<rparr>))"

named_theorems act_simps \<open>evaluation of actions\<close>

lemmas act_defs [act_simps] = yields_def rejects_def andThen_def reads_def query_def rethrow_def executes_def asks_def

lemma executes_cases:
  assumes "executes f q s = (r, s')"
  obtains (same) "s' = s" | (changed) x d where "q (ap_db s) = Inr (x, d)" "s' = s\<lparr>ap_db := d\<rparr>"
  using assms by (cases f; cases "q (ap_db s)") (auto simp: act_simps)

lemma executes_Inr:
  "executes f q s = (Inr x, s') \<longleftrightarrow> f = Committed \<and> (\<exists>d. q (ap_db s) = Inr (x, d) \<and> s' = s\<lparr>ap_db := d\<rparr>)"
  by (cases f; cases "q (ap_db s)") (auto simp: act_simps)

lemma executes_ok [simp]:
  "executes Committed (\<lambda>d. Inr (g d)) s = (Inr (fst (g (ap_db s))), s\<lparr>ap_db := snd (g (ap_db s))\<rparr>)"
  by (cases "g (ap_db s)") (simp add: act_simps)

lemma executes_lost [simp]:
  "executes AnswerLost (\<lambda>d. Inr (g d)) s = (Inl (DatabaseError DbDown), s\<lparr>ap_db := snd (g (ap_db s))\<rparr>)"
  by (cases "g (ap_db s)") (simp add: act_simps)

lemma executes_aborted [simp]: "executes AbortedBefore (\<lambda>d. Inr (g d)) s = (Inl (DatabaseError DbDown), s)"
  by (cases "g (ap_db s)") (simp add: act_simps)

lemma reads_ok [simp]: "reads Committed q s = (Inr (q (ap_db s)), s)"
  by (simp add: reads_def)

lemma andThen_ok [simp]: "m s = (Inr x, s') \<Longrightarrow> andThen m k s = k x s'"
  by (simp add: andThen_def)

lemma andThen_fail: "m s = (Inl e, s') \<Longrightarrow> andThen m k s = (Inl e, s')"
  by (simp add: andThen_def)

lemma reads_Inr [simp]: "reads f q s = (Inr x, s') \<longleftrightarrow> f = Committed \<and> x = q (ap_db s) \<and> s' = s"
  by (auto simp: reads_def)

lemma andThen_Inr: "andThen m k s = (Inr y, s') \<longleftrightarrow> (\<exists>x t. m s = (Inr x, t) \<and> k x t = (Inr y, s'))"
  by (auto simp: andThen_def split: sum.splits prod.splits)

lemma asks_eq: "asks c s = (Inr (fst (c (ap_redis s))), s\<lparr>ap_redis := snd (c (ap_redis s))\<rparr>)"
  by (simp add: asks_def split: prod.splits)

lemma andThenE:
  assumes "andThen m k s = (x, s')"
  obtains (stops) e where "m s = (Inl e, s')" "x = Inl e" | (goes) y t where "m s = (Inr y, t)" "k y t = (x, s')"
  using assms by (auto simp: andThen_def split: sum.splits prod.splits)

lemma yields_eq [simp]: "yields x s = (r, s') \<longleftrightarrow> r = Inr x \<and> s' = s"
  by (auto simp: yields_def)

lemma rejects_eq [simp]: "rejects e s = (r, s') \<longleftrightarrow> r = Inl e \<and> s' = s"
  by (auto simp: rejects_def)

text \<open>An invariant of the database that every statement keeps is kept by the action.\<close>

definition keeps :: "(db \<Rightarrow> bool) \<Rightarrow> ('r, 'a) act \<Rightarrow> bool" where
  "keeps P m \<longleftrightarrow> (\<forall>s. P (ap_db s) \<longrightarrow> P (ap_db (snd (m s))))"

lemma keeps_yields [simp, intro]: "keeps P (yields x)"
  by (simp add: keeps_def yields_def)

lemma keeps_rejects [simp, intro]: "keeps P (rejects e)"
  by (simp add: keeps_def rejects_def)

lemma keeps_reads [simp, intro]: "keeps P (reads f q)"
  by (simp add: keeps_def reads_def)

lemma keeps_asks [simp, intro]: "keeps P (asks c)"
  by (simp add: keeps_def asks_def split: prod.splits)

lemma keeps_andThen [intro]: "keeps P m \<Longrightarrow> (\<And>x. keeps P (k x)) \<Longrightarrow> keeps P (andThen m k)"
  unfolding keeps_def andThen_def by (auto split: prod.splits sum.splits)

lemma keeps_executes: "(\<And>d x d'. P d \<Longrightarrow> q d = Inr (x, d') \<Longrightarrow> P d') \<Longrightarrow> keeps P (executes f q)"
  unfolding keeps_def by (metis (no_types, lifting) api.select_convs(1) api.surjective api.update_convs(1) executes_cases prod.collapse)

text \<open>
  More generally, an action obeys a relation between databases when it leads from each state to a related
  one. For a reflexive and transitive relation it is enough that every statement does, and what a read has
  found out may be used for the statements that follow it.
\<close>

definition obeys :: "(db \<Rightarrow> db \<Rightarrow> bool) \<Rightarrow> ('r, 'a) act \<Rightarrow> 'r api \<Rightarrow> bool" where
  "obeys rel m s \<longleftrightarrow> rel (ap_db s) (ap_db (snd (m s)))"

locale db_preorder =
  fixes rel :: "db \<Rightarrow> db \<Rightarrow> bool"
  assumes rel_refl: "rel d d" and rel_trans: "rel d d' \<Longrightarrow> rel d' d'' \<Longrightarrow> rel d d''"
begin

lemma r_yields: "obeys rel (yields x) s"
  by (simp add: obeys_def yields_def rel_refl)

lemma r_rejects: "obeys rel (rejects e) s"
  by (simp add: obeys_def rejects_def rel_refl)

lemma r_reads: "obeys rel (reads f q) s"
  by (simp add: obeys_def reads_def rel_refl)

lemma r_asks: "obeys rel (asks c) s"
  by (simp add: obeys_def asks_eq rel_refl)

lemmas r_pure = r_yields r_rejects r_reads r_asks

lemma r_andThen:
  assumes "obeys rel m s" and "\<And>x t. m s = (Inr x, t) \<Longrightarrow> obeys rel (k x) t"
  shows "obeys rel (andThen m k) s"
proof -
  obtain x t where m: "m s = (x, t)" by force
  show ?thesis
  proof (cases x)
    case (Inl e)
    then show ?thesis using assms(1) m by (simp add: obeys_def andThen_def)
  next
    case (Inr y)
    then have "obeys rel (k y) t" using assms(2) m by simp
    then show ?thesis using assms(1) m Inr by (auto simp: obeys_def andThen_def intro: rel_trans)
  qed
qed

lemma r_after_read: "obeys rel (k (q (ap_db s))) s \<Longrightarrow> obeys rel (andThen (reads f q) k) s"
  by (rule r_andThen) (simp_all add: r_reads)

lemma r_after_asks: "(\<And>x r. obeys rel (k x) (s\<lparr>ap_redis := r\<rparr>)) \<Longrightarrow> obeys rel (andThen (asks c) k) s"
  by (rule r_andThen) (auto simp: r_asks asks_eq)

lemma r_executes:
  assumes "\<And>x d. q (ap_db s) = Inr (x, d) \<Longrightarrow> rel (ap_db s) d"
  shows "obeys rel (executes f q) s"
proof -
  obtain x t where e: "executes f q s = (x, t)" by force
  then show ?thesis using assms by (cases rule: executes_cases) (auto simp: obeys_def e rel_refl)
qed

lemma r_query:
  assumes "\<And>x d. q (ap_db s) = Inr (x, d) \<Longrightarrow> rel (ap_db s) d"
  shows "obeys rel (query f q) s"
  using assms by (cases f; cases "q (ap_db s)") (auto simp: obeys_def query_def rel_refl)

lemma r_if: "(b \<Longrightarrow> obeys rel m s) \<Longrightarrow> (\<not> b \<Longrightarrow> obeys rel m' s) \<Longrightarrow> obeys rel (if b then m else m') s"
  by simp

lemma r_option:
  "(x = None \<Longrightarrow> obeys rel m s) \<Longrightarrow> (\<And>y. x = Some y \<Longrightarrow> obeys rel (k y) s) \<Longrightarrow>
   obeys rel (case x of None \<Rightarrow> m | Some y \<Rightarrow> k y) s"
  by (cases x) simp_all

end

definition preserving :: "(db \<Rightarrow> bool) \<Rightarrow> db \<Rightarrow> db \<Rightarrow> bool" where
  "preserving P d d' \<longleftrightarrow> (P d \<longrightarrow> P d')"

interpretation kept: db_preorder "preserving P"
  by unfold_locales (auto simp: preserving_def)

lemma keeps_obeys: "keeps P m \<longleftrightarrow> (\<forall>s. obeys (preserving P) m s)"
  by (simp add: keeps_def obeys_def preserving_def)

section \<open>The deny marker\<close>

context redis_spec
begin

lemma revoke_denies:
  assumes "0 < ttl" and "c = Replied \<or> c = LostAfter" and "t < now + 1000 * ttl"
  shows "isUserRevoked R Replied (snd (revokeUserTokens R c s now uid ttl)) t uid"
proof -
  obtain b s' where b: "rset R s now (revokedKey uid) ''1'' (Some (1000 * ttl)) False = (b, s')" by force
  have "view s' = set_view (view s) now (revokedKey uid) ''1'' (Some (1000 * ttl))"
    using set_effect [of "Some (1000 * ttl)" s now "revokedKey uid" "''1''" False] assms(1) b by simp
  then show ?thesis using assms(2,3) b by (auto simp: revokeUserTokens_def isUserRevoked_def exists_key set_view_def)
qed

end

section \<open>Limits and pages\<close>

record ApiLimits =
  maxTriggersPerUser :: nat
  maxConditionsPerTrigger :: nat
  maxPinnedCities :: nat
  testCooldownSec :: int
  minCooldownMin :: int
  maxCooldownMin :: int
  maxChannelsPerTrigger :: nat

definition API_LIMITS :: ApiLimits where
  "API_LIMITS = \<lparr>maxTriggersPerUser = 10, maxConditionsPerTrigger = 5, maxPinnedCities = 12, testCooldownSec = 600,
     minCooldownMin = 10, maxCooldownMin = 1440, maxChannelsPerTrigger = 3\<rparr>"

record 'a PaginatedResult =
  pg_items :: "'a list"
  pg_total :: nat
  pg_page :: nat
  pg_limit :: nat

record PaginationDto =
  dto_page :: "nat option"
  dto_limit :: "nat option"

text \<open>The validated range of a page request.\<close>

definition valid_pagination :: "PaginationDto \<Rightarrow> bool" where
  "valid_pagination p \<longleftrightarrow> (case dto_page p of None \<Rightarrow> True | Some n \<Rightarrow> 1 \<le> n) \<and>
     (case dto_limit p of None \<Rightarrow> True | Some n \<Rightarrow> 1 \<le> n \<and> n \<le> 100)"

text \<open>\<open>orderBy createdAt desc, skip, take\<close> over the rows selected; equal instants keep table order.\<close>

definition paginate :: "('r \<Rightarrow> instant) \<Rightarrow> ('r \<Rightarrow> bool) \<Rightarrow> PaginationDto \<Rightarrow> 'r list \<Rightarrow> 'r PaginatedResult" where
  "paginate created p dto rows =
     (let pg = (case dto_page dto of None \<Rightarrow> 1 | Some n \<Rightarrow> n); lim = (case dto_limit dto of None \<Rightarrow> 20 | Some n \<Rightarrow> n)
      in \<lparr>pg_items = take lim (drop ((pg - 1) * lim) (sort_key (\<lambda>r. - created r) (filter p rows))),
          pg_total = count_where p rows, pg_page = pg, pg_limit = lim\<rparr>)"

section \<open>Durations (duration.ts)\<close>

definition DEFAULT_ACCESS_TTL :: string where
  "DEFAULT_ACCESS_TTL = ''15m''"

definition unit_ms :: "char \<Rightarrow> rat option" where
  "unit_ms c = (if c = CHR ''s'' then Some 1000 else if c = CHR ''m'' then Some 60000
     else if c = CHR ''h'' then Some 3600000 else if c = CHR ''d'' then Some 86400000 else None)"

text \<open>\<open>None\<close> is the thrown error; the service fails to start.\<close>

definition parseDurationMs :: "string \<Rightarrow> rat option" where
  "parseDurationMs v =
     (let s = js_trim v; ds = butlast s in
      if s \<noteq> [] \<and> ds \<noteq> [] \<and> list_all is_digit ds
      then (case (unit_ms (last s), string_to_number ds) of (Some u, Fin n) \<Rightarrow> Some (rnd64 (n * u)) | _ \<Rightarrow> None)
      else None)"

text \<open>The lifetime in whole seconds signed into an access token, and the lifetime of the deny marker.\<close>

definition expiresIn :: "rat \<Rightarrow> int" where
  "expiresIn ms = \<lfloor>rnd64 (ms / 1000)\<rfloor>"

definition accessTtlSec :: "rat \<Rightarrow> int" where
  "accessTtlSec ms = \<lceil>rnd64 (ms / 1000)\<rceil>"

lemma expiresIn_le_accessTtlSec: "expiresIn ms \<le> accessTtlSec ms"
  by (simp add: expiresIn_def accessTtlSec_def)

section \<open>Writes to the user table\<close>

definition users_unique :: "User list \<Rightarrow> bool" where
  "users_unique us \<longleftrightarrow> distinct (map u_id us) \<and> distinct (map u_email us) \<and> unique_some u_telegramLinkTokenHash us \<and>
     unique_some u_emailVerificationTokenHash us \<and> unique_some u_passwordResetTokenHash us"

definition find_user :: "ident \<Rightarrow> db \<Rightarrow> User option" where
  "find_user i d = find_unique (\<lambda>u. u_id u = i) (users d)"

definition update_user :: "ident \<Rightarrow> (User \<Rightarrow> User) \<Rightarrow> db \<Rightarrow> (db_error, unit \<times> db) result" where
  "update_user i f d =
     (if find_user i d = None then Inl RecordNotFound
      else let us = update_many (\<lambda>u. u_id u = i) f (users d)
           in if users_unique us then Inr ((), d\<lparr>users := us\<rparr>) else Inl UniqueViolation)"

definition delete_user_row :: "ident \<Rightarrow> db \<Rightarrow> (db_error, unit \<times> db) result" where
  "delete_user_row i d = (if find_user i d = None then Inl RecordNotFound else Inr ((), delete_user i d))"

lemma update_user_Inr:
  "update_user i f d = Inr (x, d') \<longleftrightarrow> find_user i d \<noteq> None \<and> users_unique (update_many (\<lambda>u. u_id u = i) f (users d)) \<and>
     d' = d\<lparr>users := update_many (\<lambda>u. u_id u = i) f (users d)\<rparr>"
  by (auto simp: update_user_def Let_def)

lemma find_user_Some: "find_user i d = Some u \<Longrightarrow> u \<in> set (users d) \<and> u_id u = i"
  unfolding find_user_def by (drule find_unique_Some) simp

lemma find_user_unique:
  "distinct (map u_id (users d)) \<Longrightarrow> u \<in> set (users d) \<Longrightarrow> find_user (u_id u) d = Some u"
  unfolding find_user_def by (rule find_unique_key)

lemma find_user_update:
  "(\<And>u. u_id (f u) = u_id u) \<Longrightarrow>
   find_user j (d\<lparr>users := update_many (\<lambda>u. u_id u = i) f (users d)\<rparr>) = map_option (\<lambda>u. if u_id u = i then f u else u) (find_user j d)"
  by (simp add: find_user_def find_update_many)

end
