(* ===== verification/Users.thy ===== *)
theory Users
  imports ApiBase
begin

text \<open>
  \<open>apps/core-api/src/users/users.service.ts\<close> and the response mappings of \<open>users/dto\<close>: profiles, the
  Telegram link, push subscriptions and the deletion of an account. SHA-256, bcrypt and the case folding of
  \<open>toLowerCase\<close>, which follows the Unicode tables, are arguments.
\<close>

record crypto =
  cr_lower :: "string \<Rightarrow> string"
  cr_sha256 :: "string \<Rightarrow> string"
  cr_bcrypt :: "string \<Rightarrow> string \<Rightarrow> string"
  cr_compare :: "string \<Rightarrow> string \<Rightarrow> bool"

definition TELEGRAM_LINK_TTL_MS :: int where
  "TELEGRAM_LINK_TTL_MS = 15 * 60 * 1000"

section \<open>Lookup and creation\<close>

definition findByEmail :: "string \<Rightarrow> db \<Rightarrow> User option" where
  "findByEmail email d = find_unique (\<lambda>u. u_email u = email) (users d)"

definition findById :: "ident \<Rightarrow> db \<Rightarrow> User option" where
  "findById i d = find_user i d"

text \<open>The defaults of the schema.\<close>

definition new_user :: "ident \<Rightarrow> instant \<Rightarrow> string \<Rightarrow> string \<Rightarrow> User" where
  "new_user i now email passwordHash =
     \<lparr>u_id = i, u_email = email, u_passwordHash = passwordHash, u_role = USER, u_telegramChatId = None,
      u_telegramLinkTokenHash = None, u_telegramLinkTokenExpiresAt = None, u_quietHoursStart = None, u_quietHoursEnd = None,
      u_timezone = None, u_emailVerified = False, u_emailVerificationTokenHash = None, u_emailVerificationTokenExpiresAt = None,
      u_passwordResetTokenHash = None, u_passwordResetTokenExpiresAt = None, u_createdAt = now\<rparr>"

definition users_create :: "ident \<Rightarrow> instant \<Rightarrow> string \<Rightarrow> string \<Rightarrow> db \<Rightarrow> (db_error, User \<times> db) result" where
  "users_create i now email passwordHash d =
     (let u = new_user i now email passwordHash in
      if findByEmail email d \<noteq> None \<or> find_user i d \<noteq> None then Inl UniqueViolation
      else Inr (u, d\<lparr>users := users d @ [u]\<rparr>))"

section \<open>Profile\<close>

record ProfileResponseDto =
  pr_id :: ident
  pr_email :: string
  pr_role :: Role
  pr_telegramChatId :: "string option"
  pr_telegramLinked :: bool
  pr_emailVerified :: bool
  pr_quietHoursStart :: "string option"
  pr_quietHoursEnd :: "string option"
  pr_timezone :: "string option"
  pr_createdAt :: instant

text \<open>\<open>Boolean(s)\<close> of a nullable string.\<close>

definition truthy :: "string option \<Rightarrow> bool" where
  "truthy s \<longleftrightarrow> s \<noteq> None \<and> s \<noteq> Some []"

definition toProfileResponse :: "User \<Rightarrow> ProfileResponseDto" where
  "toProfileResponse u =
     \<lparr>pr_id = u_id u, pr_email = u_email u, pr_role = u_role u, pr_telegramChatId = u_telegramChatId u,
      pr_telegramLinked = truthy (u_telegramChatId u), pr_emailVerified = u_emailVerified u,
      pr_quietHoursStart = u_quietHoursStart u, pr_quietHoursEnd = u_quietHoursEnd u, pr_timezone = u_timezone u,
      pr_createdAt = u_createdAt u\<rparr>"

definition getProfile :: "commit \<Rightarrow> ident \<Rightarrow> ('r, ProfileResponseDto) act" where
  "getProfile f userId =
     andThen (reads f (find_user userId))
       (\<lambda>user. case user of None \<Rightarrow> rejects (NotFound ''User not found'') | Some u \<Rightarrow> yields (toProfileResponse u))"

text \<open>A field of a patch is absent, \<open>null\<close> or a value; an absent field leaves the column alone.\<close>

type_synonym 'a patch = "'a option option"

definition patched :: "'a patch \<Rightarrow> 'a option \<Rightarrow> 'a option" where
  "patched p old = (case p of None \<Rightarrow> old | Some v \<Rightarrow> v)"

record UpdateProfileDto =
  up_quietHoursStart :: "string patch"
  up_quietHoursEnd :: "string patch"
  up_timezone :: "string patch"

definition updateProfile :: "request_env \<Rightarrow> ident \<Rightarrow> UpdateProfileDto \<Rightarrow> ('r, ProfileResponseDto) act" where
  "updateProfile env userId dto =
     andThen (executes (rq_sql env 0) (update_user userId (\<lambda>u. u\<lparr>
         u_quietHoursStart := patched (up_quietHoursStart dto) (u_quietHoursStart u),
         u_quietHoursEnd := patched (up_quietHoursEnd dto) (u_quietHoursEnd u),
         u_timezone := patched (up_timezone dto) (u_timezone u)\<rparr>)))
       (\<lambda>_. getProfile (rq_sql env 1) userId)"

section \<open>The Telegram link\<close>

definition hashLinkToken :: "crypto \<Rightarrow> string \<Rightarrow> string" where
  "hashLinkToken C token = cr_sha256 C token"

definition createTelegramLink :: "crypto \<Rightarrow> request_env \<Rightarrow> ident \<Rightarrow> string \<Rightarrow> ('r, string \<times> string) act" where
  "createTelegramLink C env userId botUsername =
     (let token = rq_uuid env 0 in
      andThen (executes (rq_sql env 0) (update_user userId (\<lambda>u. u\<lparr>
          u_telegramLinkTokenHash := Some (hashLinkToken C token),
          u_telegramLinkTokenExpiresAt := Some (rq_now env + TELEGRAM_LINK_TTL_MS)\<rparr>)))
        (\<lambda>_. yields (''https://t.me/'' @ botUsername @ ''?start='' @ token, token)))"

definition unlinkTelegram :: "request_env \<Rightarrow> ident \<Rightarrow> ('r, bool) act" where
  "unlinkTelegram env userId =
     andThen (executes (rq_sql env 0) (update_user userId (\<lambda>u. u\<lparr>
         u_telegramChatId := None, u_telegramLinkTokenHash := None, u_telegramLinkTokenExpiresAt := None\<rparr>)))
       (\<lambda>_. yields True)"

definition bindTelegram :: "crypto \<Rightarrow> request_env \<Rightarrow> string \<Rightarrow> string \<Rightarrow> ('r, bool) act" where
  "bindTelegram C env token chatId =
     andThen (reads (rq_sql env 0) (\<lambda>d. find_unique (\<lambda>u. u_telegramLinkTokenHash u = Some (hashLinkToken C token)) (users d)))
       (\<lambda>user. case user of
          None \<Rightarrow> yields False
        | Some u \<Rightarrow>
            if (case u_telegramLinkTokenExpiresAt u of None \<Rightarrow> True | Some e \<Rightarrow> e < rq_now env)
            then andThen (executes (rq_sql env 1) (update_user (u_id u) (\<lambda>v. v\<lparr>
                     u_telegramLinkTokenHash := None, u_telegramLinkTokenExpiresAt := None\<rparr>)))
                   (\<lambda>_. yields False)
            else andThen (executes (rq_sql env 1) (update_user (u_id u) (\<lambda>v. v\<lparr>
                     u_telegramChatId := Some chatId, u_telegramLinkTokenHash := None, u_telegramLinkTokenExpiresAt := None\<rparr>)))
                   (\<lambda>_. yields True))"

section \<open>Push subscriptions\<close>

record PushSubscriptionResponseDto =
  psr_id :: ident
  psr_endpoint :: string
  psr_createdAt :: instant

definition toPushSubscriptionResponse :: "PushSubscription \<Rightarrow> PushSubscriptionResponseDto" where
  "toPushSubscriptionResponse row = \<lparr>psr_id = ps_id row, psr_endpoint = ps_endpoint row, psr_createdAt = ps_createdAt row\<rparr>"

definition listPushSubscriptions :: "request_env \<Rightarrow> ident \<Rightarrow> ('r, PushSubscriptionResponseDto list) act" where
  "listPushSubscriptions env userId =
     andThen (reads (rq_sql env 0) (\<lambda>d. find_many (\<lambda>s. ps_userId s = userId) (pushSubs d)))
       (\<lambda>rows. yields (map toPushSubscriptionResponse rows))"

text \<open>
  Only endpoints at a known push service are accepted: the notifier posts to whatever is stored. The URL
  parser of the runtime is an argument; it yields the host name, or nothing when it throws.
\<close>

definition PUSH_HOSTS :: "string list" where
  "PUSH_HOSTS = [''fcm.googleapis.com'', ''updates.push.services.mozilla.com'', ''push.services.mozilla.com'',
     ''notify.windows.com'', ''push.apple.com'']"

definition endsWith :: "string \<Rightarrow> string \<Rightarrow> bool" where
  "endsWith s suf \<longleftrightarrow> length suf \<le> length s \<and> drop (length s - length suf) s = suf"

definition isKnownPushHost :: "crypto \<Rightarrow> (string \<Rightarrow> string option) \<Rightarrow> string \<Rightarrow> bool" where
  "isKnownPushHost C hostname v =
     (case hostname v of
        None \<Rightarrow> False
      | Some h \<Rightarrow> let host = cr_lower C h in list_ex (\<lambda>allowed. host = allowed \<or> endsWith host (CHR ''.'' # allowed)) PUSH_HOSTS)"

lemma endsWith_iff: "endsWith s suf \<longleftrightarrow> (\<exists>p. s = p @ suf)"
  by (auto simp: endsWith_def) (metis append_take_drop_id)

text \<open>A suffix counts only on a label boundary: the host is a known one or a subdomain of it.\<close>

lemma known_push_host:
  "isKnownPushHost C hostname v \<longleftrightarrow>
     (\<exists>h allowed. hostname v = Some h \<and> allowed \<in> set PUSH_HOSTS \<and> (cr_lower C h = allowed \<or> (\<exists>sub. cr_lower C h = sub @ ''.'' @ allowed)))"
  by (auto simp: isKnownPushHost_def Let_def endsWith_iff list_ex_iff split: option.splits)

record CreatePushSubscriptionDto =
  cps_endpoint :: string
  cps_p256dh :: string
  cps_auth :: string

definition upsert_push :: "ident \<Rightarrow> instant \<Rightarrow> ident \<Rightarrow> CreatePushSubscriptionDto \<Rightarrow> db \<Rightarrow> (db_error, PushSubscription \<times> db) result" where
  "upsert_push i now userId dto d =
     (case find_unique (\<lambda>s. ps_endpoint s = cps_endpoint dto) (pushSubs d) of
        Some s \<Rightarrow>
          Inr (s\<lparr>ps_p256dh := cps_p256dh dto, ps_auth := cps_auth dto\<rparr>,
               d\<lparr>pushSubs := update_many (\<lambda>s. ps_endpoint s = cps_endpoint dto)
                   (\<lambda>s. s\<lparr>ps_p256dh := cps_p256dh dto, ps_auth := cps_auth dto\<rparr>) (pushSubs d)\<rparr>)
      | None \<Rightarrow>
          if find_user userId d = None then Inl ForeignKeyViolation
          else let s = \<lparr>ps_id = i, ps_userId = userId, ps_endpoint = cps_endpoint dto, ps_p256dh = cps_p256dh dto,
                        ps_auth = cps_auth dto, ps_createdAt = now\<rparr>
               in Inr (s, d\<lparr>pushSubs := pushSubs d @ [s]\<rparr>))"

definition addPushSubscription :: "request_env \<Rightarrow> ident \<Rightarrow> CreatePushSubscriptionDto \<Rightarrow> ('r, PushSubscriptionResponseDto) act" where
  "addPushSubscription env userId dto =
     andThen (reads (rq_sql env 0) (\<lambda>d. find_unique (\<lambda>s. ps_endpoint s = cps_endpoint dto) (pushSubs d)))
       (\<lambda>existing.
          if (case existing of None \<Rightarrow> False | Some s \<Rightarrow> ps_userId s \<noteq> userId)
          then rejects (Forbidden ''Endpoint already registered'')
          else andThen (executes (rq_sql env 1) (upsert_push (rq_uuid env 0) (rq_now env) userId dto))
                 (\<lambda>saved. yields (toPushSubscriptionResponse saved)))"

definition user_removePushSubscription :: "request_env \<Rightarrow> ident \<Rightarrow> string \<Rightarrow> ('r, bool) act" where
  "user_removePushSubscription env userId endpoint =
     andThen (executes (rq_sql env 0) (\<lambda>d. Inr ((), d\<lparr>pushSubs :=
         delete_many (\<lambda>s. ps_userId s = userId \<and> ps_endpoint s = endpoint) (pushSubs d)\<rparr>)))
       (\<lambda>_. yields True)"

section \<open>Deleting an account\<close>

definition admins :: "db \<Rightarrow> nat" where
  "admins d = count_where (\<lambda>u. u_role u = ADMIN) (users d)"

definition deleteAccount :: "'r redis \<Rightarrow> crypto \<Rightarrow> rat \<Rightarrow> request_env \<Rightarrow> ident \<Rightarrow> string \<Rightarrow> ('r, bool) act" where
  "deleteAccount R C ttlMs env userId password =
     andThen (reads (rq_sql env 0) (find_user userId)) (\<lambda>user. case user of
       None \<Rightarrow> rejects (NotFound ''User not found'')
     | Some u \<Rightarrow>
         if \<not> cr_compare C password (u_passwordHash u) then rejects (Unauthorized ''Incorrect password'')
         else andThen
           (if u_role u = ADMIN then andThen (reads (rq_sql env 1) admins) (\<lambda>n.
              if n = 1 then rejects (Forbidden (''You are the only admin '' @ EM_DASH @ '' promote another account first'')) else yields ())
            else yields ())
           (\<lambda>_. andThen (executes (rq_sql env 2) (delete_user_row userId))
              (\<lambda>_. andThen (asks (\<lambda>r. revokeUserTokens R (rq_io env 0) r (rq_now env) userId (accessTtlSec ttlMs)))
                 (\<lambda>_. yields True))))"

section \<open>Properties\<close>

lemma deleteAccount_Inr:
  assumes "deleteAccount R C ttlMs env userId password s = (Inr b, s')"
  obtains u where "find_user userId (ap_db s) = Some u" "cr_compare C password (u_passwordHash u)"
    "u_role u = ADMIN \<longrightarrow> admins (ap_db s) \<noteq> 1" "ap_db s' = delete_user userId (ap_db s)"
    "ap_redis s' = snd (revokeUserTokens R (rq_io env 0) (ap_redis s) (rq_now env) userId (accessTtlSec ttlMs))"
  using assms unfolding deleteAccount_def
  by (auto simp: andThen_Inr executes_Inr asks_def delete_user_row_def split: option.splits if_splits prod.splits)

text \<open>
  Nothing belongs to the user in any table that references users. The outbox does not: its rows carry the
  user's id only inside the payload of a message.
\<close>

definition no_trace :: "ident \<Rightarrow> db \<Rightarrow> bool" where
  "no_trace uid d \<longleftrightarrow>
     list_all (\<lambda>u. u_id u \<noteq> uid) (users d) \<and> list_all (\<lambda>t. tr_userId t \<noteq> uid) (triggers d) \<and>
     list_all (\<lambda>n. n_userId n \<noteq> uid) (notifications d) \<and> list_all (\<lambda>p. ps_userId p \<noteq> uid) (pushSubs d) \<and>
     list_all (\<lambda>r. rt_userId r \<noteq> uid) (refreshTokens d) \<and> list_all (\<lambda>c. pc_userId c \<noteq> uid) (pinnedCities d)"

lemma delete_user_no_trace: "no_trace uid (delete_user uid d)"
  by (auto simp: no_trace_def delete_user_def delete_triggers_def Let_def list_all_iff)

text \<open>
  C29: deleting an account removes it from every table that references users. When the request succeeds, the
  caller knew the password and was not the only administrator; afterwards no user, trigger, notification,
  subscription, token or pinned city belongs to the account and every foreign key still resolves, so no
  condition is left either. Messages staged before stay in the outbox exactly as they were. When Redis
  took the deny marker, the guard refuses each of the account's access tokens, whenever its lookup is
  answered, for as long as one issued before the deletion could still be valid.
\<close>

theorem account_erased:
  assumes "redis_spec R view" and "db_refs (ap_db s)"
    and "deleteAccount R C ttlMs env userId password s = (Inr b, s')"
  shows "(\<exists>u. find_user userId (ap_db s) = Some u \<and> cr_compare C password (u_passwordHash u) \<and>
            (u_role u = ADMIN \<longrightarrow> admins (ap_db s) \<noteq> 1)) \<and>
    no_trace userId (ap_db s') \<and> db_refs (ap_db s') \<and> outbox (ap_db s') = outbox (ap_db s) \<and>
    (rq_io env 0 = Replied \<longrightarrow> 0 < expiresIn ttlMs \<longrightarrow>
       (\<forall>issued t. issued \<le> rq_now env \<longrightarrow> t < issued + 1000 * expiresIn ttlMs \<longrightarrow> isUserRevoked R Replied (ap_redis s') t userId))"
proof -
  obtain u where u: "find_user userId (ap_db s) = Some u" "cr_compare C password (u_passwordHash u)"
    "u_role u = ADMIN \<longrightarrow> admins (ap_db s) \<noteq> 1" "ap_db s' = delete_user userId (ap_db s)"
    "ap_redis s' = snd (revokeUserTokens R (rq_io env 0) (ap_redis s) (rq_now env) userId (accessTtlSec ttlMs))"
    by (rule deleteAccount_Inr [OF assms(3)]) blast
  have "isUserRevoked R Replied (ap_redis s') t userId"
    if "rq_io env 0 = Replied" "0 < expiresIn ttlMs" "issued \<le> rq_now env" "t < issued + 1000 * expiresIn ttlMs" for issued t
    unfolding u(5) using that expiresIn_le_accessTtlSec [of ttlMs]
    by (intro redis_spec.revoke_denies [OF assms(1)]) auto
  moreover have "outbox (delete_user userId (ap_db s)) = outbox (ap_db s)" by (simp add: delete_user_def delete_triggers_def Let_def)
  ultimately show ?thesis using u delete_user_no_trace delete_user_refs [OF assms(2)] by auto
qed

definition lower_char :: "char \<Rightarrow> char" where
  "lower_char c = (let n = (of_char c :: nat) in if 65 \<le> n \<and> n \<le> 90 then char_of (n + 32) else c)"

definition plain_crypto :: crypto where
  "plain_crypto = \<lparr>cr_lower = map lower_char, cr_sha256 = (\<lambda>s. s), cr_bcrypt = (\<lambda>salt p. p), cr_compare = (\<lambda>p h. p = h)\<rparr>"

definition api0 :: "(string \<Rightarrow> entry option) api" where
  "api0 = \<lparr>ap_db = small_db, ap_redis = (\<lambda>_. None), ap_mailed = [], ap_events = []\<rparr>"

definition env0 :: request_env where
  "env0 = done_env 1000 (\<lambda>n. ''uuid'' @ show_nat n)"

definition erased :: "(string \<Rightarrow> entry option) api" where
  "erased = snd (deleteAccount mem_redis plain_crypto 900000 env0 ''u1'' ''h'' api0)"

lemma erased_run: "deleteAccount mem_redis plain_crypto 900000 env0 ''u1'' ''h'' api0 = (Inr True, erased)"
proof -
  have "fst (deleteAccount mem_redis plain_crypto 900000 env0 ''u1'' ''h'' api0) = Inr True"
    by (simp add: deleteAccount_def act_simps api0_def env0_def done_env_def find_user_def find_unique_def small_db_defs
        plain_crypto_def delete_user_row_def split: prod.splits)
  then show ?thesis unfolding erased_def by (metis prod.collapse)
qed

theorem account_erased_witness: "no_trace ''u1'' (ap_db erased) \<and> db_refs (ap_db erased)"
  using account_erased [OF mem.redis_spec_axioms _ erased_run] by (simp add: api0_def small_db_refs)

end
