(* ===== verification/Auth.thy ===== *)
theory Auth
  imports Users
begin

text \<open>
  \<open>apps/core-api/src/auth\<close>: registration, verification, sign-in with its lockout, the rotation of refresh
  tokens with reuse detection, password reset and the nightly sweep, with the two guards and the refresh
  cookie. The JWT library is an argument; metrics and log lines are left out. A mail is handed to the
  mailer without waiting for it, so \<open>ap_mailed\<close> records the hand-over.
\<close>

section \<open>Constants and configuration\<close>

definition VERIFY_TTL_MS :: int where "VERIFY_TTL_MS = 24 * 60 * 60 * 1000"
definition RESET_TTL_MS :: int where "RESET_TTL_MS = 60 * 60 * 1000"
definition PRUNE_LOCK_KEY :: string where "PRUNE_LOCK_KEY = ''core-api:refresh-tokens:prune''"
definition PRUNE_LOCK_TTL_SEC :: int where "PRUNE_LOCK_TTL_SEC = 300"
definition LOGIN_MAX_FAILURES :: int where "LOGIN_MAX_FAILURES = 10"
definition LOGIN_LOCKOUT_SEC :: int where "LOGIN_LOCKOUT_SEC = 15 * 60"

record RefreshPayload =
  rp_sub :: ident
  rp_jti :: ident
  rp_email :: "string option"

text \<open>
  Signing takes the secret, the claims, the instant and the lifetime in seconds; verification returns the
  claims of a token that is authentic and not expired. The role in the claims is that of an access token.
\<close>

record jwt =
  jw_signAccess :: "string \<Rightarrow> ident \<times> string \<times> Role \<Rightarrow> instant \<Rightarrow> int \<Rightarrow> string"
  jw_signRefresh :: "string \<Rightarrow> ident \<times> string \<times> ident \<Rightarrow> instant \<Rightarrow> int \<Rightarrow> string"
  jw_verify :: "string \<Rightarrow> instant \<Rightarrow> string \<Rightarrow> RefreshPayload option"

record auth_service =
  as_accessSecret :: string
  as_refreshSecret :: string
  as_accessTtlMs :: rat
  as_refreshTtlMs :: rat
  as_frontUrl :: string
  as_absentUserHash :: string
  as_mailConfigured :: bool

text \<open>\<open>None\<close>: a malformed lifetime stops the service at boot.\<close>

definition auth_new :: "crypto \<Rightarrow> string \<Rightarrow> string \<Rightarrow> string \<Rightarrow> string \<Rightarrow> string option \<Rightarrow> string option \<Rightarrow> string option \<Rightarrow> bool \<Rightarrow> auth_service option" where
  "auth_new C salt uuid accessSecret refreshSecret accessTtl refreshTtl frontUrl mailConfigured =
     (case (parseDurationMs (case accessTtl of Some t \<Rightarrow> t | None \<Rightarrow> DEFAULT_ACCESS_TTL),
            parseDurationMs (case refreshTtl of Some t \<Rightarrow> t | None \<Rightarrow> ''7d'')) of
        (Some a, Some r) \<Rightarrow>
          Some \<lparr>as_accessSecret = accessSecret, as_refreshSecret = refreshSecret, as_accessTtlMs = a, as_refreshTtlMs = r,
                as_frontUrl = (case frontUrl of Some u \<Rightarrow> u | None \<Rightarrow> ''http://localhost:3001''),
                as_absentUserHash = cr_bcrypt C salt uuid, as_mailConfigured = mailConfigured\<rparr>
      | _ \<Rightarrow> None)"

record Tokens =
  tk_accessToken :: string
  tk_refreshToken :: string

section \<open>Fingerprints\<close>

definition hashToken :: "crypto \<Rightarrow> string \<Rightarrow> string" where
  "hashToken C token = cr_sha256 C token"

definition loginFailureKey :: "crypto \<Rightarrow> string \<Rightarrow> string" where
  "loginFailureKey C email = ''auth:login-fail:'' @ cr_sha256 C (cr_lower C (js_trim email))"

text \<open>\<open>Buffer.from(s, 'hex')\<close>: pairs of hex digits up to the first that is not one.\<close>

fun hex_bytes :: "string \<Rightarrow> int list" where
  "hex_bytes (a # b # r) = (if radix_val a < 16 \<and> radix_val b < 16 then (16 * radix_val a + radix_val b) # hex_bytes r else [])"
| "hex_bytes _ = []"

definition verifyTokenHash :: "crypto \<Rightarrow> string \<Rightarrow> string \<Rightarrow> bool" where
  "verifyTokenHash C token stored =
     (let expected = hex_bytes (hashToken C token); actual = hex_bytes stored
      in if length actual \<noteq> length expected then False else expected = actual)"

section \<open>Issuing tokens\<close>

definition create_refresh :: "RefreshToken \<Rightarrow> db \<Rightarrow> (db_error, unit \<times> db) result" where
  "create_refresh r d =
     (if find_unique (\<lambda>x. rt_id x = rt_id r) (refreshTokens d) \<noteq> None then Inl UniqueViolation
      else if find_user (rt_userId r) d = None then Inl ForeignKeyViolation
      else Inr ((), d\<lparr>refreshTokens := refreshTokens d @ [r]\<rparr>))"

text \<open>\<open>n\<close> is the number of the first statement, \<open>k\<close> of the first random id the call draws.\<close>

definition issueTokens :: "crypto \<Rightarrow> jwt \<Rightarrow> auth_service \<Rightarrow> request_env \<Rightarrow> nat \<Rightarrow> nat \<Rightarrow> ident \<Rightarrow> string \<Rightarrow> ('r, Tokens) act" where
  "issueTokens C J a env n k userId email =
     andThen (reads (rq_sql env n) (find_user userId)) (\<lambda>user.
       let role = (case user of Some u \<Rightarrow> u_role u | None \<Rightarrow> USER);
           accessToken = jw_signAccess J (as_accessSecret a) (userId, email, role) (rq_now env) (expiresIn (as_accessTtlMs a));
           jti = rq_uuid env k;
           refreshToken = jw_signRefresh J (as_refreshSecret a) (userId, email, jti) (rq_now env) (expiresIn (as_refreshTtlMs a))
       in andThen (executes (rq_sql env (Suc n)) (create_refresh
              \<lparr>rt_id = jti, rt_userId = userId, rt_tokenHash = hashToken C refreshToken,
               rt_expiresAt = rq_now env + \<lfloor>as_refreshTtlMs a\<rfloor>, rt_revoked = False\<rparr>))
            (\<lambda>_. yields \<lparr>tk_accessToken = accessToken, tk_refreshToken = refreshToken\<rparr>))"

section \<open>Mail\<close>

definition sendDetached :: "auth_service \<Rightarrow> string \<Rightarrow> string \<Rightarrow> string \<Rightarrow> ('r, unit) act" where
  "sendDetached a to subject html s =
     (if \<not> as_mailConfigured a then (Inr (), s) else (Inr (), s\<lparr>ap_mailed := ap_mailed s @ [(to, subject, html)]\<rparr>))"

definition sendVerificationEmail :: "crypto \<Rightarrow> auth_service \<Rightarrow> request_env \<Rightarrow> nat \<Rightarrow> nat \<Rightarrow> ident \<Rightarrow> string \<Rightarrow> ('r, unit) act" where
  "sendVerificationEmail C a env n k userId email =
     (let token = rq_uuid env k; link = as_frontUrl a @ ''/verify-email?token='' @ token in
      andThen (executes (rq_sql env n) (update_user userId (\<lambda>u. u\<lparr>
          u_emailVerificationTokenHash := Some (hashToken C token),
          u_emailVerificationTokenExpiresAt := Some (rq_now env + VERIFY_TTL_MS)\<rparr>)))
        (\<lambda>_. sendDetached a email ''Verify your email''
           (''<p>Confirm your email address by clicking <a href='' @ [CHR 0x22] @ link @ [CHR 0x22] @
            ''>this link</a>. It expires in 24 hours.</p>'')))"

section \<open>Registration and verification\<close>

definition register :: "crypto \<Rightarrow> jwt \<Rightarrow> auth_service \<Rightarrow> request_env \<Rightarrow> string \<Rightarrow> string \<Rightarrow> ('r, Tokens) act" where
  "register C J a env email password =
     andThen (reads (rq_sql env 0) (findByEmail email)) (\<lambda>existing.
       if existing \<noteq> None then rejects (Conflict ''An account with this email already exists'')
       else let passwordHash = cr_bcrypt C (rq_uuid env 0) password in
         andThen (executes (rq_sql env 1) (users_create (rq_uuid env 1) (rq_now env) email passwordHash)) (\<lambda>user.
           andThen (sendVerificationEmail C a env 2 2 (u_id user) (u_email user)) (\<lambda>_.
             issueTokens C J a env 3 3 (u_id user) (u_email user))))"

text \<open>\<open>!user || !expiresAt || expiresAt < now\<close>.\<close>

definition expired :: "instant option \<Rightarrow> instant \<Rightarrow> bool" where
  "expired e now \<longleftrightarrow> (case e of None \<Rightarrow> True | Some t \<Rightarrow> t < now)"

definition verifyEmail :: "crypto \<Rightarrow> request_env \<Rightarrow> string \<Rightarrow> ('r, bool) act" where
  "verifyEmail C env token =
     andThen (reads (rq_sql env 0) (\<lambda>d. find_unique (\<lambda>u. u_emailVerificationTokenHash u = Some (hashToken C token)) (users d)))
       (\<lambda>user. case user of
          None \<Rightarrow> rejects (BadRequest ''Invalid or expired verification token'')
        | Some u \<Rightarrow>
            if expired (u_emailVerificationTokenExpiresAt u) (rq_now env)
            then rejects (BadRequest ''Invalid or expired verification token'')
            else andThen (executes (rq_sql env 1) (update_user (u_id u) (\<lambda>v. v\<lparr>u_emailVerified := True,
                     u_emailVerificationTokenHash := None, u_emailVerificationTokenExpiresAt := None\<rparr>)))
                   (\<lambda>_. yields True))"

definition resendVerification :: "crypto \<Rightarrow> auth_service \<Rightarrow> request_env \<Rightarrow> ident \<Rightarrow> ('r, bool) act" where
  "resendVerification C a env userId =
     andThen (reads (rq_sql env 0) (find_user userId)) (\<lambda>user. case user of
        None \<Rightarrow> rejects (Unauthorized ''Unauthorized'')
      | Some u \<Rightarrow> if u_emailVerified u then yields False
                 else andThen (sendVerificationEmail C a env 1 0 (u_id u) (u_email u)) (\<lambda>_. yields True))"

section \<open>Password reset\<close>

definition forgotPassword :: "crypto \<Rightarrow> auth_service \<Rightarrow> request_env \<Rightarrow> string \<Rightarrow> ('r, bool) act" where
  "forgotPassword C a env email =
     andThen (reads (rq_sql env 0) (findByEmail email)) (\<lambda>user. case user of
        None \<Rightarrow> yields True
      | Some u \<Rightarrow>
          (let token = rq_uuid env 0; link = as_frontUrl a @ ''/reset-password?token='' @ token in
           andThen (executes (rq_sql env 1) (update_user (u_id u) (\<lambda>v. v\<lparr>
               u_passwordResetTokenHash := Some (hashToken C token),
               u_passwordResetTokenExpiresAt := Some (rq_now env + RESET_TTL_MS)\<rparr>)))
             (\<lambda>_. andThen (sendDetached a email ''Reset your password''
                (''<p>Reset your password by clicking <a href='' @ [CHR 0x22] @ link @ [CHR 0x22] @
                 ''>this link</a>. It expires in one hour.</p>'' @
                 ''<p>If you did not ask for this, ignore this email '' @ EM_DASH @ '' your password has not changed.</p>''))
                (\<lambda>_. yields True))))"

definition revoke_where :: "(RefreshToken \<Rightarrow> bool) \<Rightarrow> db \<Rightarrow> nat \<times> db" where
  "revoke_where p d =
     (count_where (\<lambda>r. p r \<and> \<not> rt_revoked r) (refreshTokens d),
      d\<lparr>refreshTokens := update_many (\<lambda>r. p r \<and> \<not> rt_revoked r) (\<lambda>r. r\<lparr>rt_revoked := True\<rparr>) (refreshTokens d)\<rparr>)"

text \<open>Both statements commit or neither does.\<close>

definition reset_transaction :: "ident \<Rightarrow> string \<Rightarrow> db \<Rightarrow> (db_error, unit \<times> db) result" where
  "reset_transaction i passwordHash d =
     (case update_user i (\<lambda>v. v\<lparr>u_passwordHash := passwordHash, u_passwordResetTokenHash := None,
             u_passwordResetTokenExpiresAt := None, u_emailVerified := True\<rparr>) d of
        Inl e \<Rightarrow> Inl e
      | Inr (_, d') \<Rightarrow> Inr ((), snd (revoke_where (\<lambda>r. rt_userId r = i) d')))"

definition resetPassword :: "crypto \<Rightarrow> request_env \<Rightarrow> string \<Rightarrow> string \<Rightarrow> ('r, bool) act" where
  "resetPassword C env token password =
     andThen (reads (rq_sql env 0) (\<lambda>d. find_unique (\<lambda>u. u_passwordResetTokenHash u = Some (hashToken C token)) (users d)))
       (\<lambda>user. case user of
          None \<Rightarrow> rejects (BadRequest ''Invalid or expired reset token'')
        | Some u \<Rightarrow>
            if expired (u_passwordResetTokenExpiresAt u) (rq_now env) then rejects (BadRequest ''Invalid or expired reset token'')
            else andThen (executes (rq_sql env 1) (reset_transaction (u_id u) (cr_bcrypt C (rq_uuid env 0) password)))
                   (\<lambda>_. yields True))"

section \<open>Sign-in\<close>

definition login :: "'r redis \<Rightarrow> crypto \<Rightarrow> jwt \<Rightarrow> auth_service \<Rightarrow> request_env \<Rightarrow> string \<Rightarrow> string \<Rightarrow> ('r, Tokens) act" where
  "login R C J a env email password =
     (let failureKey = loginFailureKey C email in
      andThen (asks (\<lambda>r. (failureCount R (rq_io env 0) r (rq_now env) failureKey, r))) (\<lambda>locked.
        if f_count locked \<ge> LOGIN_MAX_FAILURES then rejects (TooManyRequests (f_retryAfterSec locked))
        else andThen (reads (rq_sql env 0) (findByEmail email)) (\<lambda>user.
          let passwordMatches = cr_compare C password (case user of Some u \<Rightarrow> u_passwordHash u | None \<Rightarrow> as_absentUserHash a) in
          case user of
            Some u \<Rightarrow>
              if passwordMatches then
                andThen (asks (\<lambda>r. ((), clearFailures R (rq_io env 1) r (rq_now env) failureKey))) (\<lambda>_.
                  issueTokens C J a env 1 0 (u_id u) (u_email u))
              else andThen (asks (\<lambda>r. recordFailure R (rq_io env 1) r (rq_now env) failureKey LOGIN_LOCKOUT_SEC)) (\<lambda>_.
                  rejects (Unauthorized ''Invalid credentials''))
          | None \<Rightarrow>
              andThen (asks (\<lambda>r. recordFailure R (rq_io env 1) r (rq_now env) failureKey LOGIN_LOCKOUT_SEC)) (\<lambda>_.
                rejects (Unauthorized ''Invalid credentials'')))))"

section \<open>Rotation\<close>

definition revokeFamily :: "commit \<Rightarrow> ident \<Rightarrow> ('r, nat) act" where
  "revokeFamily f userId = executes f (\<lambda>d. Inr (revoke_where (\<lambda>r. rt_userId r = userId) d))"

definition invalidRefresh :: "http_error" where
  "invalidRefresh = Unauthorized ''Invalid refresh token''"

definition refresh :: "crypto \<Rightarrow> jwt \<Rightarrow> auth_service \<Rightarrow> request_env \<Rightarrow> string \<Rightarrow> ('r, Tokens) act" where
  "refresh C J a env refreshToken =
     (case jw_verify J (as_refreshSecret a) (rq_now env) refreshToken of
        None \<Rightarrow> rejects invalidRefresh
      | Some payload \<Rightarrow>
          andThen (reads (rq_sql env 0) (\<lambda>d. find_unique (\<lambda>r. rt_id r = rp_jti payload) (refreshTokens d))) (\<lambda>row. case row of
            None \<Rightarrow> rejects invalidRefresh
          | Some r \<Rightarrow>
              if rt_expiresAt r < rq_now env then rejects invalidRefresh
              else if \<not> verifyTokenHash C refreshToken (rt_tokenHash r) then rejects invalidRefresh
              else if rt_revoked r then andThen (revokeFamily (rq_sql env 1) (rt_userId r)) (\<lambda>_. rejects invalidRefresh)
              else andThen (executes (rq_sql env 1) (\<lambda>d. Inr (revoke_where (\<lambda>x. rt_id x = rt_id r) d))) (\<lambda>count.
                if count = 0 then andThen (revokeFamily (rq_sql env 2) (rt_userId r)) (\<lambda>_. rejects invalidRefresh)
                else issueTokens C J a env 2 0 (rp_sub payload) (case rp_email payload of Some e \<Rightarrow> e | None \<Rightarrow> ''''))))"

definition logout :: "jwt \<Rightarrow> auth_service \<Rightarrow> request_env \<Rightarrow> string \<Rightarrow> ('r, bool) act" where
  "logout J a env refreshToken =
     (case jw_verify J (as_refreshSecret a) (rq_now env) refreshToken of
        None \<Rightarrow> yields True
      | Some payload \<Rightarrow> andThen (query (rq_sql env 0) (\<lambda>d. Inr (revoke_where (\<lambda>r. rt_id r = rp_jti payload) d))) (\<lambda>_. yields True))"

section \<open>The sweep\<close>

definition asksE :: "('r \<Rightarrow> (redis_error, 'a) result \<times> 'r) \<Rightarrow> ('r, 'a) act" where
  "asksE c = andThen (asks c) (\<lambda>x. case x of Inl _ \<Rightarrow> rejects CacheError | Inr v \<Rightarrow> yields v)"

definition prune_expired :: "instant \<Rightarrow> db \<Rightarrow> nat \<times> db" where
  "prune_expired now d =
     (count_where (\<lambda>r. rt_expiresAt r < now) (refreshTokens d),
      d\<lparr>refreshTokens := delete_many (\<lambda>r. rt_expiresAt r < now) (refreshTokens d)\<rparr>)"

text \<open>The lock is released whether or not the delete succeeded; a rejection of either ends the run.\<close>

definition pruneStaleTokens :: "'r redis \<Rightarrow> request_env \<Rightarrow> ('r, unit) act" where
  "pruneStaleTokens R env =
     andThen (asksE (\<lambda>r. acquireLock R (rq_io env 0) r (rq_now env) (rq_uuid env 0) PRUNE_LOCK_KEY PRUNE_LOCK_TTL_SEC)) (\<lambda>lock.
       case lock of
         None \<Rightarrow> yields ()
       | Some token \<Rightarrow>
           andThen (query (rq_sql env 0) (\<lambda>d. Inr (prune_expired (rq_now env) d))) (\<lambda>res.
             andThen (asksE (\<lambda>r. releaseLock R (rq_io env 1) r (rq_now env) PRUNE_LOCK_KEY token)) (\<lambda>_.
               andThen (rethrow res) (\<lambda>_. yields ()))))"

section \<open>Guards and the cookie\<close>

record AuthUser =
  au_userId :: ident
  au_email :: string
  au_role :: Role

text \<open>\<open>passport\<close>: what the JWT strategy made of the bearer token, if it accepted it.\<close>

definition jwt_canActivate :: "'r redis \<Rightarrow> io \<Rightarrow> instant \<Rightarrow> AuthUser option \<Rightarrow> 'r \<Rightarrow> (http_error, AuthUser) result" where
  "jwt_canActivate R c now passport r =
     (case passport of
        None \<Rightarrow> Inl (Unauthorized ''Unauthorized'')
      | Some user \<Rightarrow>
          if au_userId user \<noteq> '''' \<and> isUserRevoked R c r now (au_userId user)
          then Inl (Unauthorized ''This session is no longer valid'') else Inr user)"

definition jwt_validate :: "ident \<times> string \<times> Role \<Rightarrow> AuthUser" where
  "jwt_validate payload = (case payload of (sub, email, role) \<Rightarrow> \<lparr>au_userId = sub, au_email = email, au_role = role\<rparr>)"

definition admin_canActivate :: "AuthUser option \<Rightarrow> (http_error, unit) result" where
  "admin_canActivate user =
     (if map_option au_role user \<noteq> Some ADMIN then Inl (Forbidden ''Admin access required'') else Inr ())"

definition REFRESH_COOKIE :: string where "REFRESH_COOKIE = ''rt''"

record CookieOptions =
  ck_httpOnly :: bool
  ck_secure :: bool
  ck_sameSite :: string
  ck_path :: string

definition refreshCookieOptions :: "(string \<Rightarrow> string option) \<Rightarrow> CookieOptions" where
  "refreshCookieOptions config =
     \<lparr>ck_httpOnly = True, ck_secure = (config ''NODE_ENV'' = Some ''production''),
      ck_sameSite = (case config ''COOKIE_SAMESITE'' of Some s \<Rightarrow> s | None \<Rightarrow> ''lax''), ck_path = ''/auth''\<rparr>"

section \<open>Rotation is a compare-and-set\<close>

lemma revoke_where_revoked: "\<forall>r \<in> set (refreshTokens (snd (revoke_where p d))). p r \<longrightarrow> rt_revoked r"
  if "\<And>r. p (r\<lparr>rt_revoked := True\<rparr>) = p r"
  using that by (auto simp: revoke_where_def set_update_many)


lemma find_revoke_where:
  "(\<And>r. q (r\<lparr>rt_revoked := True\<rparr>) = q r) \<Longrightarrow>
   find_unique q (refreshTokens (snd (revoke_where p d))) =
     map_option (\<lambda>r. if p r \<and> \<not> rt_revoked r then r\<lparr>rt_revoked := True\<rparr> else r) (find_unique q (refreshTokens d))"
  by (simp add: revoke_where_def find_update_many)




lemma refresh_Inr:
  assumes "refresh C J a env tok s = (Inr t, s')"
  obtains payload r n where "jw_verify J (as_refreshSecret a) (rq_now env) tok = Some payload"
    "find_unique (\<lambda>x. rt_id x = rp_jti payload) (refreshTokens (ap_db s)) = Some r" "\<not> rt_revoked r"
    "\<not> rt_expiresAt r < rq_now env" "verifyTokenHash C tok (rt_tokenHash r)"
    "0 < fst (revoke_where (\<lambda>x. rt_id x = rt_id r) (ap_db s))"
    "issueTokens C J a env 2 0 (rp_sub payload) (case rp_email payload of Some e \<Rightarrow> e | None \<Rightarrow> '''')
       (s\<lparr>ap_db := snd (revoke_where (\<lambda>x. rt_id x = rt_id r) (ap_db s))\<rparr>) = (Inr t, s')"
  using assms unfolding refresh_def
  by (auto simp: andThen_Inr executes_Inr split: option.splits if_splits)


section \<open>Reuse detection\<close>

definition family_revoked :: "ident \<Rightarrow> db \<Rightarrow> bool" where
  "family_revoked uid d \<longleftrightarrow> list_all (\<lambda>r. rt_userId r = uid \<longrightarrow> rt_revoked r) (refreshTokens d)"

lemma revoke_family_revoked: "family_revoked uid (snd (revoke_where (\<lambda>r. rt_userId r = uid) d))"
  using revoke_where_revoked [of "\<lambda>r. rt_userId r = uid" d] by (simp add: family_revoked_def list_all_iff)

lemma refresh_revoked:
  assumes "jw_verify J (as_refreshSecret a) (rq_now env) tok = Some payload"
    and "find_unique (\<lambda>x. rt_id x = rp_jti payload) (refreshTokens (ap_db s)) = Some r"
    and "\<not> rt_expiresAt r < rq_now env" and "verifyTokenHash C tok (rt_tokenHash r)" and "rt_revoked r"
    and "rq_sql env 0 = Committed" and "rq_sql env 1 = Committed"
  shows "refresh C J a env tok s = (Inl invalidRefresh, s\<lparr>ap_db := snd (revoke_where (\<lambda>x. rt_userId x = rt_userId r) (ap_db s))\<rparr>)"
  using assms by (simp add: refresh_def revokeFamily_def rejects_def)

lemma issue_keeps_row:
  assumes "issueTokens C J a env n k uid email s = (x, s')"
    and "find_unique (\<lambda>r. rt_id r = i) (refreshTokens (ap_db s)) = Some r"
  shows "find_unique (\<lambda>r. rt_id r = i) (refreshTokens (ap_db s')) = Some r"
  using assms unfolding issueTokens_def Let_def
  by (cases "rq_sql env (Suc n)"; cases "rq_sql env n")
    (auto simp: act_simps create_refresh_def find_unique_def find_append split: prod.splits sum.splits option.splits if_splits)

text \<open>
  C10: replaying a spent refresh token is detected and costs the whole family. After a refresh answered
  with new tokens, presenting the same token again while it is still valid is refused, and every refresh
  token of the account, the freshly issued one included, is revoked.
\<close>

theorem refresh_reuse_detected:
  assumes "refresh C J a env tok s = (Inr t, s1)"
    and "jw_verify J (as_refreshSecret a) (rq_now env) tok = Some payload"
    and "find_unique (\<lambda>r. rt_id r = rp_jti payload) (refreshTokens (ap_db s)) = Some row"
    and "jw_verify J (as_refreshSecret a) (rq_now env') tok = Some payload" and "rq_now env' \<le> rt_expiresAt row"
    and "rq_sql env' 0 = Committed" and "rq_sql env' 1 = Committed"
    and "refresh C J a env' tok s1 = (answer, s2)"
  shows "answer = Inl (Unauthorized ''Invalid refresh token'') \<and> family_revoked (rt_userId row) (ap_db s2)"
  using assms(1)
proof (rule refresh_Inr)
  fix p r
  assume p: "jw_verify J (as_refreshSecret a) (rq_now env) tok = Some p"
    and r: "find_unique (\<lambda>x. rt_id x = rp_jti p) (refreshTokens (ap_db s)) = Some r" "\<not> rt_revoked r"
    and h: "verifyTokenHash C tok (rt_tokenHash r)"
    and i: "issueTokens C J a env 2 0 (rp_sub p) (case rp_email p of None \<Rightarrow> [] | Some e \<Rightarrow> e)
       (s\<lparr>ap_db := snd (revoke_where (\<lambda>x. rt_id x = rt_id r) (ap_db s))\<rparr>) = (Inr t, s1)"
  have eq: "p = payload" "r = row" using p r(1) assms(2,3) by auto
  have "find_unique (\<lambda>x. rt_id x = rp_jti payload) (refreshTokens (snd (revoke_where (\<lambda>x. rt_id x = rt_id r) (ap_db s)))) =
      Some (r\<lparr>rt_revoked := True\<rparr>)"
    using r eq by (simp add: find_revoke_where)
  then have "find_unique (\<lambda>x. rt_id x = rp_jti payload) (refreshTokens (ap_db s1)) = Some (r\<lparr>rt_revoked := True\<rparr>)"
    using issue_keeps_row [OF i] by simp
  from refresh_revoked [OF assms(4) this] assms(5-8) h eq revoke_family_revoked
  show ?thesis by (auto simp: invalidRefresh_def)
qed

section \<open>The sweep is invisible\<close>

definition swept :: "instant \<Rightarrow> 'r api \<Rightarrow> 'r api" where
  "swept t s = s\<lparr>ap_db := snd (prune_expired t (ap_db s))\<rparr>"

lemma delete_many_update_many_same:
  "(\<And>r. p (f r) = p r) \<Longrightarrow> delete_many p (update_many q f rows) = update_many q f (delete_many p rows)"
  unfolding delete_many_def by (rule filter_update_many_same) simp

lemma find_delete_many:
  "distinct (map k rows) \<Longrightarrow> find_unique (\<lambda>r. k r = i) rows = Some r \<Longrightarrow>
   find_unique (\<lambda>r. k r = i) (delete_many p rows) = (if p r then None else Some r)"
proof -
  assume d: "distinct (map k rows)" and f: "find_unique (\<lambda>r. k r = i) rows = Some r"
  from find_unique_Some [OF f] have r: "r \<in> set rows" "k r = i" by auto
  show ?thesis
  proof (cases "p r")
    case True
    have "x = r" if "x \<in> set rows" "k x = i" for x using d that r unfolding distinct_map inj_on_def by auto
    then show ?thesis using True by (auto simp: find_unique_None)
  next
    case False
    then have "find_unique (\<lambda>x. k x = k r) (delete_many p rows) = Some r"
      using d r(1) by (intro find_unique_key) auto
    then show ?thesis using False r(2) by simp
  qed
qed

lemma swept_revoke:
  "swept t (s\<lparr>ap_db := snd (revoke_where q (ap_db s))\<rparr>) = (swept t s)\<lparr>ap_db := snd (revoke_where q (ap_db (swept t s)))\<rparr>"
  by (simp add: swept_def prune_expired_def revoke_where_def delete_many_update_many_same)

lemma swept_issue:
  assumes "issueTokens C J a env n k uid email s = (x, s')"
    and "find_unique (\<lambda>r. rt_id r = rq_uuid env k) (refreshTokens (ap_db s)) = None"
    and "t \<le> rq_now env" and "0 \<le> as_refreshTtlMs a"
  shows "issueTokens C J a env n k uid email (swept t s) = (x, swept t s')"
proof -
  have "find_unique (\<lambda>r. rt_id r = rq_uuid env k) (delete_many (\<lambda>r. rt_expiresAt r < t) (refreshTokens (ap_db s))) = None"
    using assms(2) by (auto simp: find_unique_None)
  moreover have "\<not> rq_now env + \<lfloor>as_refreshTtlMs a\<rfloor> < t" using assms(3,4) by (simp add: add.commute le_add_same_cancel1 not_less order_trans [of t "rq_now env"])
  ultimately show ?thesis using assms(1,2) unfolding issueTokens_def Let_def
    by (cases "rq_sql env (Suc n)"; cases "rq_sql env n")
      (auto simp: act_simps create_refresh_def swept_def prune_expired_def find_user_def delete_many_def split: prod.splits sum.splits option.splits if_splits)
qed

lemma swept_family:
  "andThen (revokeFamily f uid) (\<lambda>_. rejects e) (swept t s) =
   (case andThen (revokeFamily f uid) (\<lambda>_. rejects e) s of (x, s') \<Rightarrow> (x, swept t s'))"
  by (cases f) (simp_all add: revokeFamily_def andThen_fail swept_revoke rejects_def)

lemma count_one_unrevoked:
  assumes "distinct (map rt_id rows)" and "find_unique (\<lambda>x. rt_id x = i) rows = Some r"
  shows "count_where (\<lambda>x. rt_id x = i \<and> \<not> rt_revoked x) rows = (if rt_revoked r then 0 else 1)"
  using assms by (induction rows) (auto simp: find_unique_def count_where_def filter_empty_conv image_iff split: if_splits)

lemma swept_spend:
  assumes "distinct (map rt_id (refreshTokens (ap_db s)))" and "find_unique (\<lambda>x. rt_id x = i) (refreshTokens (ap_db s)) = Some r"
    and "\<not> rt_expiresAt r < t"
  shows "executes f (\<lambda>d. Inr (revoke_where (\<lambda>x. rt_id x = i) d)) (swept t s) =
    (case executes f (\<lambda>d. Inr (revoke_where (\<lambda>x. rt_id x = i) d)) s of (x, s') \<Rightarrow> (x, swept t s'))"
proof -
  have "find_unique (\<lambda>x. rt_id x = i) (refreshTokens (ap_db (swept t s))) = Some r"
    using find_delete_many [OF assms(1,2), of "\<lambda>r. rt_expiresAt r < t"] assms(3) by (simp add: swept_def prune_expired_def)
  moreover have "distinct (map rt_id (refreshTokens (ap_db (swept t s))))" using assms(1) by (simp add: swept_def prune_expired_def)
  ultimately have "fst (revoke_where (\<lambda>x. rt_id x = i) (ap_db (swept t s))) = fst (revoke_where (\<lambda>x. rt_id x = i) (ap_db s))"
    using assms by (simp add: revoke_where_def count_one_unrevoked)
  then show ?thesis by (cases f) (simp_all add: swept_revoke)
qed

text \<open>
  C30: the nightly sweep changes no answer. Deleting the expired rows, and only those, is invisible to every
  refresh made afterwards, with whatever token and whatever statements fail: the answer is the same, and so is the
  resulting database up to the swept rows. In particular a replayed token is still recognised and its
  family revoked, because spent rows are kept until they expire. The next random id is assumed fresh.
\<close>

theorem sweep_invisible:
  assumes "distinct (map rt_id (refreshTokens (ap_db s)))"
    and "find_unique (\<lambda>r. rt_id r = rq_uuid env 0) (refreshTokens (ap_db s)) = None"
    and "t \<le> rq_now env" and "0 \<le> as_refreshTtlMs a"
  shows "refresh C J a env tok (swept t s) = (case refresh C J a env tok s of (x, s') \<Rightarrow> (x, swept t s'))"
proof (cases "jw_verify J (as_refreshSecret a) (rq_now env) tok")
  case None
  then show ?thesis by (simp add: refresh_def rejects_def)
next
  case (Some payload)
  let ?find = "\<lambda>s. find_unique (\<lambda>x. rt_id x = rp_jti payload) (refreshTokens (ap_db s))"
  show ?thesis
  proof (cases "rq_sql env 0 = Committed \<and> ?find s \<noteq> None")
    case False
    have "?find (swept t s) = None" if "?find s = None" using that by (auto simp: find_unique_None swept_def prune_expired_def)
    then show ?thesis using False Some by (auto simp: refresh_def act_simps)
  next
    case True
    then obtain r where r: "?find s = Some r" and f: "rq_sql env 0 = Committed" by auto
    have sw: "?find (swept t s) = (if rt_expiresAt r < t then None else Some r)"
      using find_delete_many [OF assms(1) r] by (simp add: swept_def prune_expired_def)
    show ?thesis
    proof (cases "rt_expiresAt r < rq_now env \<or> \<not> verifyTokenHash C tok (rt_tokenHash r) \<or> rt_revoked r")
      case True
      then show ?thesis using Some r f sw assms(3) swept_family [of "rq_sql env 1" "rt_userId r" invalidRefresh t s]
        by (auto simp: refresh_def rejects_def)
    next
      case valid: False
      then have live: "\<not> rt_expiresAt r < t" using assms(3) by simp
      have id: "rt_id r = rp_jti payload" using find_unique_Some [OF r] by simp
      obtain n s1 where n: "executes (rq_sql env 1) (\<lambda>d. Inr (revoke_where (\<lambda>x. rt_id x = rt_id r) d)) s = (n, s1)" by force
      have sn: "executes (rq_sql env 1) (\<lambda>d. Inr (revoke_where (\<lambda>x. rt_id x = rt_id r) d)) (swept t s) = (n, swept t s1)"
        using swept_spend [OF assms(1) r [folded id] live, of "rq_sql env 1"] n by simp
      have fresh: "find_unique (\<lambda>r. rt_id r = rq_uuid env 0) (refreshTokens (ap_db s1)) = None"
        using assms(2) n by (rule_tac executes_cases [OF n]) (auto simp: find_unique_None revoke_where_def set_update_many)
      obtain x s2 where x: "issueTokens C J a env 2 0 (rp_sub payload) (case rp_email payload of Some e \<Rightarrow> e | None \<Rightarrow> []) s1 = (x, s2)" by force
      show ?thesis
        using Some r f sw live valid n sn x swept_issue [OF x fresh assms(3,4)] swept_family [of "rq_sql env 2" "rt_userId r" invalidRefresh t s1]
        by (cases n) (auto simp: refresh_def andThen_fail)
    qed
  qed
qed

lemma pruneStaleTokens_effect:
  assumes "pruneStaleTokens R env s = (x, s')"
  shows "ap_db s' = ap_db s \<or> ap_db s' = snd (prune_expired (rq_now env) (ap_db s))"
  using assms by (cases "rq_sql env 0"; cases "prune_expired (rq_now env) (ap_db s)")
    (auto simp: pruneStaleTokens_def asksE_def act_simps split: prod.splits sum.splits option.splits)

section \<open>The lockout\<close>

record attempt =
  at_env :: request_env
  at_email :: string
  at_password :: string

text \<open>The credentials of an attempt are wrong: no such address, or not its password.\<close>

definition wrong :: "crypto \<Rightarrow> db \<Rightarrow> attempt \<Rightarrow> bool" where
  "wrong C d x = (case findByEmail (at_email x) d of None \<Rightarrow> True | Some u \<Rightarrow> \<not> cr_compare C (at_password x) (u_passwordHash u))"

definition answered :: "request_env \<Rightarrow> bool" where
  "answered env \<longleftrightarrow> rq_sql env 0 = Committed \<and> rq_io env 0 = Replied \<and> rq_io env 1 = Replied"

definition logins :: "'r redis \<Rightarrow> crypto \<Rightarrow> jwt \<Rightarrow> auth_service \<Rightarrow> attempt list \<Rightarrow> 'r api \<Rightarrow> 'r api" where
  "logins R C J a xs s = fold (\<lambda>x s. snd (login R C J a (at_env x) (at_email x) (at_password x) s)) xs s"

lemma login_locked:
  assumes "redis_spec R view" and "view (ap_redis s) (loginFailureKey C email) = Some (show_int n, Some e)"
    and "rq_now env < e" and "rq_io env 0 = Replied" and "10 \<le> n"
  shows "\<exists>k. login R C J a env email password s = (Inl (TooManyRequests k), s)"
  using redis_spec.failureCount_view [OF assms(1,2), of "rq_now env"] assms(3-5)
  by (simp add: login_def asks_def LOGIN_MAX_FAILURES_def rejects_def Let_def)

lemma login_wrong:
  assumes "f_count (failureCount R Replied (ap_redis s) (rq_now (at_env x)) (loginFailureKey C (at_email x))) < 10"
    and "answered (at_env x)" and "wrong C (ap_db s) x"
  shows "snd (login R C J a (at_env x) (at_email x) (at_password x) s) =
    s\<lparr>ap_redis := snd (recordFailure R Replied (ap_redis s) (rq_now (at_env x)) (loginFailureKey C (at_email x)) LOGIN_LOCKOUT_SEC)\<rparr>"
  using assms by (cases "recordFailure R Replied (ap_redis s) (rq_now (at_env x)) (loginFailureKey C (at_email x)) LOGIN_LOCKOUT_SEC")
    (auto simp: login_def asks_def LOGIN_MAX_FAILURES_def rejects_def answered_def wrong_def Let_def split: option.splits)

lemma logins_count:
  assumes "redis_spec R view" and "\<forall>x \<in> set xs. answered (at_env x) \<and> wrong C (ap_db s) x \<and>
      loginFailureKey C (at_email x) = key \<and> rq_now (at_env x) < e"
    and "view (ap_redis s) key = Some (show_int n, Some e)" and "0 < n" and "n \<le> 10"
  shows "ap_db (logins R C J a xs s) = ap_db s \<and>
    view (ap_redis (logins R C J a xs s)) key = Some (show_int (min 10 (n + int (length xs))), Some e)"
  using assms(2-5)
proof (induction xs arbitrary: s n)
  case (Cons x xs)
  note x = Cons.prems(1) [THEN bspec [of _ _ x]]
  let ?s = "snd (login R C J a (at_env x) (at_email x) (at_password x) s)"
  have "ap_db ?s = ap_db s \<and> view (ap_redis ?s) key = Some (show_int (min 10 (n + 1)), Some e)"
  proof (cases "n = 10")
    case True
    then have "?s = s" using login_locked [OF assms(1), of s C "at_email x" 10 e "at_env x" J a "at_password x"] x Cons.prems(2)
      by (auto simp: answered_def)
    then show ?thesis using True Cons.prems(2) by simp
  next
    case False
    then have "f_count (failureCount R Replied (ap_redis s) (rq_now (at_env x)) key) < 10"
      using redis_spec.failureCount_view [OF assms(1) Cons.prems(2)] Cons.prems(4) by simp
    then show ?thesis using login_wrong [of R s x C J a] x redis_spec.recordFailure_live [OF assms(1) Cons.prems(2) _ Cons.prems(3)]
        False Cons.prems(4) by (simp add: min_def)
  qed
  with Cons.IH [of ?s "min 10 (n + 1)"] Cons.prems show ?case by (simp add: logins_def min_def)
qed (simp add: logins_def)

text \<open>
  C31: guessing is bounded per account. Ten wrong attempts within a quarter of an hour of the first one,
  from wherever and with the address spelled in any way that folds to the same key, lock the address:
  until that quarter of an hour is over every sign-in is refused, the right password included, and
  nothing is read or written. The lockout needs Redis to answer; an outage fails open by design.
\<close>

theorem login_lockout:
  assumes "redis_spec R view" and "live (rq_now (at_env x)) (view (ap_redis s) key) = None"
    and "\<forall>y \<in> set (x # xs). answered (at_env y) \<and> wrong C (ap_db s) y \<and> loginFailureKey C (at_email y) = key \<and>
      rq_now (at_env y) < rq_now (at_env x) + 900000"
    and "9 \<le> length xs" and "rq_io env 0 = Replied" and "rq_now env < rq_now (at_env x) + 900000"
    and "loginFailureKey C email = key"
  shows "\<exists>k. login R C J a env email password (logins R C J a (x # xs) s) = (Inl (TooManyRequests k), logins R C J a (x # xs) s)"
proof -
  let ?s = "snd (login R C J a (at_env x) (at_email x) (at_password x) s)"
  have x: "answered (at_env x)" "wrong C (ap_db s) x" "loginFailureKey C (at_email x) = key" using assms(3) by auto
  have "f_count (failureCount R Replied (ap_redis s) (rq_now (at_env x)) key) = 0"
    using assms(2) by (simp add: failureCount_def READ_FAILURES_def redis_spec.get [OF assms(1)])
  then have s: "ap_db ?s = ap_db s" "view (ap_redis ?s) key = Some (show_int 1, Some (rq_now (at_env x) + 900000))"
    using login_wrong [of R s x C J a] x redis_spec.recordFailure_fresh [OF assms(1,2), of LOGIN_LOCKOUT_SEC]
    by (simp_all add: LOGIN_LOCKOUT_SEC_def)
  have "view (ap_redis (logins R C J a xs ?s)) key = Some (show_int (min 10 (1 + int (length xs))), Some (rq_now (at_env x) + 900000))"
    using logins_count [OF assms(1) _ s(2), of xs C J a] assms(3) s(1) by auto
  then have "view (ap_redis (logins R C J a (x # xs) s)) (loginFailureKey C email) = Some (show_int 10, Some (rq_now (at_env x) + 900000))"
    using assms(4,7) by (simp add: logins_def min_def)
  from login_locked [OF assms(1) this assms(6,5)] show ?thesis by simp
qed

section \<open>The reset\<close>

lemma unique_some_inj:
  "unique_some k rows \<Longrightarrow> x \<in> set rows \<Longrightarrow> y \<in> set rows \<Longrightarrow> k x = Some v \<Longrightarrow> k y = Some v \<Longrightarrow> x = y"
  unfolding unique_some_def distinct_map inj_on_def by auto

lemma reset_transaction_Inr:
  assumes "reset_transaction i h d = Inr (x, d')"
  shows "d' = snd (revoke_where (\<lambda>r. rt_userId r = i) (d\<lparr>users := update_many (\<lambda>u. u_id u = i)
    (\<lambda>v. v\<lparr>u_passwordHash := h, u_passwordResetTokenHash := None, u_passwordResetTokenExpiresAt := None, u_emailVerified := True\<rparr>) (users d)\<rparr>))"
  using assms by (auto simp: reset_transaction_def update_user_Inr split: sum.splits)

lemma users_revoke_where [simp]: "users (snd (revoke_where p d)) = users d"
  by (simp add: revoke_where_def)

text \<open>
  C32: a reset link works once and takes the account back. When a reset succeeds, the account that held the
  token has the new password and a verified address, all its refresh tokens are revoked, no other
  account changed, and presenting the link again is refused whoever tries and whatever password they
  choose. The hypothesis on bcrypt is that a password matches its own hash.
\<close>

theorem reset_once:
  assumes "users_unique (users (ap_db s))" and "resetPassword C env token password s = (Inr b, s1)"
    and "\<forall>salt p. cr_compare C p (cr_bcrypt C salt p)"
  shows "\<exists>u u'. find_user (u_id u) (ap_db s) = Some u \<and> u_passwordResetTokenHash u = Some (hashToken C token) \<and>
      find_user (u_id u) (ap_db s1) = Some u' \<and> cr_compare C password (u_passwordHash u') \<and> u_emailVerified u' \<and>
      family_revoked (u_id u) (ap_db s1) \<and> (\<forall>j. j \<noteq> u_id u \<longrightarrow> find_user j (ap_db s1) = find_user j (ap_db s)) \<and>
      (\<forall>env' password'. rq_sql env' 0 = Committed \<longrightarrow>
         resetPassword C env' token password' s1 = (Inl (BadRequest ''Invalid or expired reset token''), s1))"
proof -
  let ?h = "Some (hashToken C token)" and ?w = "cr_bcrypt C (rq_uuid env 0) password"
  let ?f = "\<lambda>v. v\<lparr>u_passwordHash := ?w, u_passwordResetTokenHash := None, u_passwordResetTokenExpiresAt := None, u_emailVerified := True\<rparr>"
  obtain u where u: "find_unique (\<lambda>u. u_passwordResetTokenHash u = ?h) (users (ap_db s)) = Some u"
    and t: "\<exists>x. reset_transaction (u_id u) ?w (ap_db s) = Inr (x, ap_db s1)"
    using assms(2) unfolding resetPassword_def by (auto simp: andThen_Inr executes_Inr split: option.splits if_splits)
  let ?d = "(ap_db s)\<lparr>users := update_many (\<lambda>v. u_id v = u_id u) ?f (users (ap_db s))\<rparr>"
  have s1: "ap_db s1 = snd (revoke_where (\<lambda>r. rt_userId r = u_id u) ?d)" using t reset_transaction_Inr by blast
  have mem: "u \<in> set (users (ap_db s))" "u_passwordResetTokenHash u = ?h" using find_unique_Some [OF u] by auto
  have ids: "distinct (map u_id (users (ap_db s)))" "unique_some u_passwordResetTokenHash (users (ap_db s))"
    using assms(1) by (auto simp: users_unique_def)
  have fu: "find_user (u_id u) (ap_db s) = Some u" using find_user_unique [OF ids(1) mem(1)] .
  have all: "find_user j (ap_db s1) = map_option (\<lambda>v. if u_id v = u_id u then ?f v else v) (find_user j (ap_db s))" for j
    using find_user_update [where f = ?f and j = j and d = "ap_db s" and i = "u_id u"] by (simp add: s1 find_user_def)
  have others: "find_user j (ap_db s1) = find_user j (ap_db s)" if "j \<noteq> u_id u" for j
    using all [of j] that by (cases "find_user j (ap_db s)") (auto dest: find_user_Some)
  have gone: "find_unique (\<lambda>v. u_passwordResetTokenHash v = ?h) (users (ap_db s1)) = None"
    using unique_some_inj [OF ids(2) mem(1) _ mem(2)] by (auto simp: find_unique_None s1 set_update_many)
  have "resetPassword C env' token password' s1 = (Inl (BadRequest ''Invalid or expired reset token''), s1)"
    if "rq_sql env' 0 = Committed" for env' password' using that gone by (simp add: resetPassword_def rejects_def)
  moreover have "family_revoked (u_id u) (ap_db s1)" unfolding s1 by (rule revoke_family_revoked)
  ultimately show ?thesis using fu mem(2) all [of "u_id u"] assms(3) others by (intro exI [of _ u] exI [of _ "?f u"]) auto
qed

section \<open>Concrete requests\<close>

definition toy_jwt :: jwt where
  "toy_jwt = \<lparr>jw_signAccess = (\<lambda>_ (sub, email, role) now ttl. sub), jw_signRefresh = (\<lambda>_ (sub, email, jti) now ttl. jti),
     jw_verify = (\<lambda>_ now tok. Some \<lparr>rp_sub = ''u1'', rp_jti = tok, rp_email = None\<rparr>)\<rparr>"

definition auth0 :: auth_service where
  "auth0 = \<lparr>as_accessSecret = ''a'', as_refreshSecret = ''r'', as_accessTtlMs = 900000, as_refreshTtlMs = 604800000,
     as_frontUrl = ''http://f'', as_absentUserHash = ''none'', as_mailConfigured = True\<rparr>"

definition session_row :: RefreshToken where
  "session_row = \<lparr>rt_id = ''ab'', rt_userId = ''u1'', rt_tokenHash = ''ab'', rt_expiresAt = 5000, rt_revoked = False\<rparr>"

definition signed_in :: "(string \<Rightarrow> entry option) api" where
  "signed_in = api0\<lparr>ap_db := small_db\<lparr>refreshTokens := [session_row], users := [alice\<lparr>u_passwordResetTokenHash := Some ''f0'',
     u_passwordResetTokenExpiresAt := Some 9000\<rparr>]\<rparr>\<rparr>"

definition later :: "instant \<Rightarrow> request_env" where
  "later t = done_env t (\<lambda>_. ''cd'')"

lemmas auth_samples = toy_jwt_def auth0_def session_row_def signed_in_def later_def done_env_def api0_def small_db_defs plain_crypto_def

definition rotated :: "(string \<Rightarrow> entry option) api" where
  "rotated = snd (refresh plain_crypto toy_jwt auth0 (later 2000) ''ab'' signed_in)"

lemmas refresh_eval = refresh_def revokeFamily_def issueTokens_def create_refresh_def revoke_where_def verifyTokenHash_def
  hashToken_def find_unique_def find_user_def count_where_def Let_def act_simps radix_val_def

lemma rotated_run: "\<exists>t. refresh plain_crypto toy_jwt auth0 (later 2000) ''ab'' signed_in = (Inr t, rotated)"
  unfolding rotated_def by (simp add: refresh_eval auth_samples)

theorem refresh_reuse_detected_witness:
  "refresh plain_crypto toy_jwt auth0 (later 3000) ''ab'' rotated =
     (Inl (Unauthorized ''Invalid refresh token''), snd (refresh plain_crypto toy_jwt auth0 (later 3000) ''ab'' rotated)) \<and>
   family_revoked ''u1'' (ap_db (snd (refresh plain_crypto toy_jwt auth0 (later 3000) ''ab'' rotated)))"
proof -
  obtain t where run: "refresh plain_crypto toy_jwt auth0 (later 2000) ''ab'' signed_in = (Inr t, rotated)" using rotated_run by blast
  obtain x s where x: "refresh plain_crypto toy_jwt auth0 (later 3000) ''ab'' rotated = (x, s)" by force
  have "x = Inl (Unauthorized ''Invalid refresh token'') \<and> family_revoked (rt_userId session_row) (ap_db s)"
    by (rule refresh_reuse_detected [OF run _ _ _ _ _ _ x, of "\<lparr>rp_sub = ''u1'', rp_jti = ''ab'', rp_email = None\<rparr>"])
      (simp_all add: auth_samples find_unique_def)
  then show ?thesis using x by (simp add: session_row_def)
qed


theorem sweep_invisible_witness:
  "refresh plain_crypto toy_jwt auth0 (later 6000) ''ab'' (swept 6000 signed_in) =
     (case refresh plain_crypto toy_jwt auth0 (later 6000) ''ab'' signed_in of (x, s') \<Rightarrow> (x, swept 6000 s'))"
  by (rule sweep_invisible) (simp_all add: auth_samples find_unique_def)

definition reset_done :: "(string \<Rightarrow> entry option) api" where
  "reset_done = snd (resetPassword plain_crypto (later 2000) ''f0'' ''new'' signed_in)"

theorem reset_once_witness: "family_revoked ''u1'' (ap_db reset_done)"
proof -
  have "fst (resetPassword plain_crypto (later 2000) ''f0'' ''new'' signed_in) = Inr True"
    by (simp add: resetPassword_def reset_transaction_def update_user_def users_unique_def unique_some_def expired_def
        find_user_def find_unique_def hashToken_def act_simps auth_samples)
  then have run: "resetPassword plain_crypto (later 2000) ''f0'' ''new'' signed_in = (Inr True, reset_done)"
    unfolding reset_done_def by (metis prod.collapse)
  have uniq: "users_unique (users (ap_db signed_in))" by (simp add: users_unique_def unique_some_def auth_samples)
  obtain u where u: "find_user (u_id u) (ap_db signed_in) = Some u" "family_revoked (u_id u) (ap_db reset_done)"
    using reset_once [OF uniq run] by (auto simp: plain_crypto_def)
  from find_user_Some [OF u(1)] have "u_id u = ''u1''" by (simp add: auth_samples)
  then show ?thesis using u(2) by simp
qed

definition guess :: "instant \<Rightarrow> attempt" where
  "guess t = \<lparr>at_env = later t, at_email = ''A@x.io'', at_password = ''wrong''\<rparr>"

theorem login_lockout_witness:
  "\<exists>k. login mem_redis plain_crypto toy_jwt auth0 (later 899000) ''a@x.io'' ''h''
      (logins mem_redis plain_crypto toy_jwt auth0 (guess 0 # map guess [1000, 2000, 3000, 4000, 5000, 6000, 7000, 8000, 9000]) signed_in) =
    (Inl (TooManyRequests k),
     logins mem_redis plain_crypto toy_jwt auth0 (guess 0 # map guess [1000, 2000, 3000, 4000, 5000, 6000, 7000, 8000, 9000]) signed_in)"
proof (rule login_lockout [OF mem.redis_spec_axioms])
  show "live (rq_now (at_env (guess 0))) (ap_redis signed_in (loginFailureKey plain_crypto ''a@x.io'')) = None"
    by (simp add: signed_in_def api0_def)
  have key: "loginFailureKey plain_crypto ''A@x.io'' = loginFailureKey plain_crypto ''a@x.io''"
    by code_simp
  show "\<forall>y\<in>set (guess 0 # map guess [1000, 2000, 3000, 4000, 5000, 6000, 7000, 8000, 9000]).
       answered (at_env y) \<and> wrong plain_crypto (ap_db signed_in) y \<and>
       loginFailureKey plain_crypto (at_email y) = loginFailureKey plain_crypto ''a@x.io'' \<and>
       rq_now (at_env y) < rq_now (at_env (guess 0)) + 900000"
    using key by (simp add: guess_def answered_def wrong_def findByEmail_def find_unique_def auth_samples)
qed (simp_all add: guess_def later_def done_env_def)

end
