(* ===== verification/Location.thy ===== *)
theory Location
  imports JsNumber "HOL-Library.Word"
begin

text \<open>
  \<open>libs/domain/src/location.ts\<close> and \<open>apps/watcher/src/sharding.ts\<close>: how a coordinate pair becomes a unit
  of work, the hash that assigns it to one of 1024 buckets, and the split of the buckets over watcher
  instances. The same hash as written in PL/pgSQL by the backfill migration
  \<open>prisma/migrations/20260817120000_trigger_location_bucket\<close> is the second definition the properties
  compare with.
\<close>

unbundle bit_operations_syntax

section \<open>Keys\<close>

definition LOCATION_SCALE :: rat where
  "LOCATION_SCALE = 100"

text \<open>\<open>Math.floor(value * LOCATION_SCALE + 0.5)\<close>: each operation rounds and may overflow; the floor of a double is one.\<close>

definition snap :: "rat \<Rightarrow> jsnum" where
  "snap value =
     (case mk_num (value * LOCATION_SCALE) of
        Fin p \<Rightarrow> (case mk_num (p + 1/2) of Fin q \<Rightarrow> Fin (of_int \<lfloor>q\<rfloor>) | n \<Rightarrow> n)
      | n \<Rightarrow> n)"

definition LOCATION_BUCKETS :: nat where
  "LOCATION_BUCKETS = 1024"

definition locationKey :: "rat \<Rightarrow> rat \<Rightarrow> string" where
  "locationKey latitude longitude = js_show_num (snap latitude) @ '':'' @ js_show_num (snap longitude)"

section \<open>The hash\<close>

text \<open>
  \<open>hash ^= c; hash = Math.imul(hash, 0x01000193) >>> 0\<close>: both operands are taken modulo \<open>2^32\<close>, and
  the final shift reads the product as an unsigned number.
\<close>

definition fnv_step :: "32 word \<Rightarrow> char \<Rightarrow> 32 word" where
  "fnv_step hash c = (hash XOR of_nat (of_char c)) * 0x01000193"

definition hashLocation :: "string \<Rightarrow> nat" where
  "hashLocation key = unat (foldl fnv_step 0x811c9dc5 key)"

definition locationBucket :: "rat \<Rightarrow> rat \<Rightarrow> nat" where
  "locationBucket latitude longitude = hashLocation (locationKey latitude longitude) mod LOCATION_BUCKETS"

text \<open>
  The migration: \<open>BIGINT\<close> is a signed 64-bit integer, and a cast or a product outside its range raises, as
  does an overflowing operation on doubles. Raising is \<open>None\<close>.
\<close>

definition bigint :: "int \<Rightarrow> int option" where
  "bigint i = (if - (2 ^ 63) \<le> i \<and> i < 2 ^ 63 then Some i else None)"

fun fnv1a_loop :: "int \<Rightarrow> string \<Rightarrow> int option" where
  "fnv1a_loop hash [] = Some hash"
| "fnv1a_loop hash (c # cs) =
     (case bigint ((hash XOR of_char c) * 16777619) of
        None \<Rightarrow> None
      | Some hash' \<Rightarrow> fnv1a_loop (hash' AND 4294967295) cs)"

definition pg_hundredths :: "rat \<Rightarrow> int option" where
  "pg_hundredths x =
     (case mk_num (x * 100) of
        Fin p \<Rightarrow> (case mk_num (p + 1/2) of Fin q \<Rightarrow> bigint \<lfloor>q\<rfloor> | _ \<Rightarrow> None)
      | _ \<Rightarrow> None)"

definition fnv1a_location :: "rat \<Rightarrow> rat \<Rightarrow> int option" where
  "fnv1a_location lat lon =
     (case (pg_hundredths lat, pg_hundredths lon) of
        (Some a, Some b) \<Rightarrow> fnv1a_loop 2166136261 (show_int a @ '':'' @ show_int b)
      | _ \<Rightarrow> None)"

definition backfill_bucket :: "rat \<Rightarrow> rat \<Rightarrow> int option" where
  "backfill_bucket lat lon = map_option (\<lambda>h. h mod 1024) (fnv1a_location lat lon)"

section \<open>Shards\<close>

text \<open>\<open>bucket % count === index\<close>, over every bucket in ascending order.\<close>

definition bucketsForShard :: "rat \<Rightarrow> rat \<Rightarrow> nat list" where
  "bucketsForShard index count =
     filter (\<lambda>bucket. js_rem (of_nat bucket) count = index) [0..<LOCATION_BUCKETS]"

record ShardConfig =
  sh_index :: rat
  sh_count :: rat

text \<open>\<open>env.NAME ?? d\<close>: the default replaces only an absent variable.\<close>

definition nullish :: "cfg \<Rightarrow> rat \<Rightarrow> cfg" where
  "nullish v d = (case v of Undef \<Rightarrow> Num (Fin d) | _ \<Rightarrow> v)"

definition shardFromEnv :: "cfg \<Rightarrow> cfg \<Rightarrow> ShardConfig" where
  "shardFromEnv env_count env_index =
     \<lparr>sh_index = (case js_Number (nullish env_index 0) of Fin i \<Rightarrow> if i \<ge> 0 then i else 0 | _ \<Rightarrow> 0),
      sh_count = positive_or 1 (js_Number (nullish env_count 1))\<rparr>"

definition shardBuckets :: "ShardConfig \<Rightarrow> nat list option" where
  "shardBuckets c = (if sh_count c \<le> 1 then None else Some (bucketsForShard (sh_index c) (sh_count c)))"

text \<open>The rows a query restricted to those buckets can return.\<close>

definition selects :: "nat list option \<Rightarrow> nat \<Rightarrow> bool" where
  "selects bs b = (case bs of None \<Rightarrow> True | Some l \<Rightarrow> b \<in> set l)"

section \<open>Lemmas\<close>

lemma LOCATION_BUCKETS_pos [simp]: "0 < LOCATION_BUCKETS"
  by (simp add: LOCATION_BUCKETS_def)

lemma locationBucket_less: "locationBucket lat lon < LOCATION_BUCKETS"
  by (simp add: locationBucket_def)

text \<open>The value both sides compute for coordinates on the globe.\<close>

definition hundredths :: "rat \<Rightarrow> int" where
  "hundredths x = \<lfloor>rnd64 (rnd64 (x * 100) + 1/2)\<rfloor>"

lemma hundredths_mono: "x \<le> y \<Longrightarrow> hundredths x \<le> hundredths y"
  unfolding hundredths_def
  by (intro floor_mono rnd64_mono add_right_mono mult_right_mono) simp_all

lemma rnd64_half:
  assumes "\<bar>n\<bar> \<le> 2 ^ 51" shows "rnd64 (of_int n + 1/2) = of_int n + 1/2"
proof (rule rnd64_exact, rule is_doubleI [of _ "2 * n + 1" "-1"])
  show "(of_int n + 1/2 :: rat) = of_int (2 * n + 1) * 2 powi -1" by (simp add: power_int_minus field_simps)
qed (use assms in auto)

lemma hundredths_of_int:
  assumes "\<bar>n\<bar> \<le> 2 ^ 44" shows "hundredths (of_int n) = 100 * n"
proof -
  have "rnd64 (of_int n * 100) = of_int (100 * n)"
    using rnd64_of_int [of "100 * n"] assms by (simp add: mult.commute)
  moreover have "rnd64 (of_int (100 * n) + 1/2) = of_int (100 * n) + 1/2"
    by (rule rnd64_half) (use assms in auto)
  ultimately have "hundredths (of_int n) = \<lfloor>of_int (100 * n) + (1/2 :: rat)\<rfloor>"
    by (simp add: hundredths_def)
  also have "\<dots> = 100 * n" by (rule floor_unique) simp_all
  finally show ?thesis .
qed

lemma unat_fnv_step:
  "int (unat (fnv_step h c)) = ((int (unat h) XOR of_char c) * 16777619) AND 4294967295"
proof -
  have m: "x AND 4294967295 = x mod 2 ^ 32" for x :: int
    using take_bit_eq_mask [of 32 x] by (simp add: mask_eq_exp_minus_1 take_bit_eq_mod)
  have "(of_nat (of_char c) :: 32 word) = word_of_int (of_char c)"
    using of_nat_of_char [of c, where 'a = "32 word"] by (metis of_int_of_nat_eq of_nat_of_char)
  moreover have "h = word_of_int (int (unat h))" by simp
  ultimately have "fnv_step h c = word_of_int ((int (unat h) XOR of_char c) * 16777619)"
    unfolding fnv_step_def by (metis (mono_tags, lifting) of_int_mult of_int_numeral of_int_xor_eq)
  moreover have "int (unat (word_of_int x :: 32 word)) = x AND 4294967295" for x
    by (simp add: unsigned_of_int m take_bit_eq_mod)
  ultimately show ?thesis by (simp only:)
qed

lemma xor_char_bounds:
  assumes "0 \<le> h" and "h < 2 ^ 32"
  shows "0 \<le> h XOR of_char c \<and> h XOR of_char c < (2::int) ^ 32"
proof -
  define n :: nat where "n = of_char c"
  have "n < 2 ^ 32" unfolding n_def by (rule less_le_trans [OF nat_of_char_less_256]) simp
  moreover have "(of_char c :: int) = int n" unfolding n_def by (rule of_nat_of_char [symmetric])
  ultimately have c: "0 \<le> (of_char c :: int)" "(of_char c :: int) < 2 ^ 32" by simp_all
  then have "take_bit 32 (h XOR of_char c) = h XOR of_char c"
    using assms by (simp add: take_bit_xor take_bit_int_eq_self)
  then show ?thesis using c assms by (metis take_bit_int_less_exp take_bit_nonnegative)
qed

lemma fnv1a_loop_foldl:
  "fnv1a_loop (int (unat h)) s = Some (int (unat (foldl fnv_step h s)))"
proof (induction s arbitrary: h)
  case (Cons c s)
  have "uint h < 2 ^ 32" using uint_bounded [of h] by simp
  then have "0 \<le> (uint h XOR of_char c) \<and> (uint h XOR of_char c) < 2 ^ 32"
    by (intro xor_char_bounds) simp_all
  then have "0 \<le> (int (unat h) XOR of_char c) * 16777619"
    and "(int (unat h) XOR of_char c) * 16777619 < 2 ^ 63"
    by simp_all
  then have "bigint ((int (unat h) XOR of_char c) * 16777619) = Some ((int (unat h) XOR of_char c) * 16777619)"
    unfolding bigint_def by (smt (verit))
  then show ?case using Cons.IH [of "fnv_step h c"] unat_fnv_step [of h c] by simp
qed simp

lemma quantum_le:
  assumes "x \<noteq> 0" and "\<bar>x\<bar> < 2 ^ k" shows "quantum x \<le> 2 powi (int k - 53)"
proof -
  have "(2::rat) powi ilog2 \<bar>x\<bar> < 2 powi int k"
    using ilog2_bounds [of "\<bar>x\<bar>"] assms by (simp add: power_int_of_nat)
  then have "ilog2 \<bar>x\<bar> < int k"
    using power_int_increasing [of "int k" "ilog2 \<bar>x\<bar>" "2::rat"] by fastforce
  then show ?thesis unfolding quantum_def by (intro power_int_increasing) auto
qed

lemma rnd64_error_le: "\<bar>x\<bar> < 2 ^ k \<Longrightarrow> \<bar>rnd64 x - x\<bar> \<le> 2 powi (int k - 53) / 2"
  using rnd64_error [of x] quantum_le [of x k] by (cases "x = 0") auto

lemma hundredths_error:
  assumes "\<bar>x\<bar> \<le> 180" shows "\<bar>of_int (hundredths x) - 100 * x\<bar> \<le> 1/2 + 2 powi -38"
proof -
  define a where "a = rnd64 (x * 100)"
  define b where "b = rnd64 (a + 1/2)"
  have a: "\<bar>a - 100 * x\<bar> \<le> 2 powi -38 / 2"
    using rnd64_error_le [of "x * 100" 15] assms by (simp add: a_def mult.commute)
  moreover have "(2::rat) powi -38 / 2 \<le> 1" by (simp add: power_int_minus)
  ultimately have "\<bar>a - 100 * x\<bar> \<le> 1" by linarith
  then have "\<bar>a + 1/2\<bar> < 2 ^ 15" using assms by (simp add: abs_le_iff abs_less_iff)
  from rnd64_error_le [OF this] have b: "\<bar>b - (a + 1/2)\<bar> \<le> 2 powi -38 / 2" by (simp add: b_def)
  have "hundredths x = \<lfloor>b\<rfloor>" by (simp add: hundredths_def a_def b_def)
  then have "of_int (hundredths x) \<le> b" "b < of_int (hundredths x) + 1" by linarith+
  with a b show ?thesis by linarith
qed

lemma hundredths_bounds: "\<bar>x\<bar> \<le> 180 \<Longrightarrow> \<bar>hundredths x\<bar> \<le> 18000"
  using hundredths_mono [of "-180" x] hundredths_mono [of x 180] hundredths_of_int [of "-180"] hundredths_of_int [of 180]
  by (simp add: abs_le_iff minus_le_iff)

lemma snap_steps:
  assumes "\<bar>x\<bar> \<le> 180"
  shows "mk_num (x * 100) = Fin (rnd64 (x * 100))" "mk_num (rnd64 (x * 100) + 1/2) = Fin (rnd64 (rnd64 (x * 100) + 1/2))"
proof -
  have "\<bar>x * 100\<bar> \<le> 2 ^ 15" using assms by (simp add: abs_mult)
  then show "mk_num (x * 100) = Fin (rnd64 (x * 100))" by (intro mk_num_small) simp
  have "\<bar>rnd64 (x * 100)\<bar> \<le> 2 ^ 15"
    using \<open>\<bar>x * 100\<bar> \<le> 2 ^ 15\<close> rnd64_of_int [of "2 ^ 15"] rnd64_of_int [of "- (2 ^ 15)"] rnd64_mono [of "x * 100" "2 ^ 15"]
      rnd64_mono [of "- (2 ^ 15)" "x * 100"] by (simp add: abs_le_iff minus_le_iff)
  then show "mk_num (rnd64 (x * 100) + 1/2) = Fin (rnd64 (rnd64 (x * 100) + 1/2))" by (intro mk_num_small) (simp add: abs_le_iff)
qed

lemma snap_hundredths:
  assumes "\<bar>x\<bar> \<le> 180"
  shows "snap x = Fin (of_int (hundredths x))" "js_show_num (snap x) = show_int (hundredths x)" "pg_hundredths x = Some (hundredths x)"
proof -
  show s: "snap x = Fin (of_int (hundredths x))"
    using snap_steps [OF assms] by (simp add: snap_def LOCATION_SCALE_def hundredths_def)
  show "js_show_num (snap x) = show_int (hundredths x)" using hundredths_bounds [OF assms] unfolding s by simp
  have "pg_hundredths x = bigint (hundredths x)" using snap_steps [OF assms] by (simp add: pg_hundredths_def hundredths_def)
  moreover have "- (2 ^ 63) \<le> hundredths x \<and> hundredths x < 2 ^ 63" using hundredths_bounds [OF assms] by (simp add: abs_le_iff)
  ultimately show "pg_hundredths x = Some (hundredths x)" by (simp add: bigint_def)
qed

lemma bucketsForShard_mem:
  "0 < n \<Longrightarrow> b < LOCATION_BUCKETS \<Longrightarrow>
   b \<in> set (bucketsForShard (of_nat i) (of_nat n)) \<longleftrightarrow> b mod n = i"
  by (simp add: bucketsForShard_def js_rem_of_nat)

lemma shardFromEnv_numerals:
  "n \<le> 2 ^ 53 \<Longrightarrow> i \<le> 2 ^ 53 \<Longrightarrow> 0 < n \<Longrightarrow>
   shardFromEnv (Str (show_nat n)) (Str (show_nat i)) = \<lparr>sh_index = of_nat i, sh_count = of_nat n\<rparr>"
  using js_Number_show_nat [of n] js_Number_show_nat [of i] by (simp add: shardFromEnv_def nullish_def)

lemma selects_shardBuckets:
  "0 < n \<Longrightarrow> b < LOCATION_BUCKETS \<Longrightarrow>
   selects (shardBuckets \<lparr>sh_index = of_nat i, sh_count = of_nat n\<rparr>) b \<longleftrightarrow> n = 1 \<or> b mod n = i"
  by (auto simp: shardBuckets_def selects_def bucketsForShard_mem)

section \<open>Properties\<close>

text \<open>
  C16: the backfill migration and core-api agree on every stored location. For coordinates in the range the
  API accepts, neither a cast nor the 64-bit arithmetic of the PL/pgSQL loop leaves the range of \<open>BIGINT\<close>, and
  the result is exactly the bucket that the 32-bit wrapping arithmetic of \<open>hashLocation\<close> stamps, so a row
  written before the column existed and one written after it land in the same bucket.
\<close>

theorem backfill_agrees:
  assumes "\<bar>lat\<bar> \<le> 90" and "\<bar>lon\<bar> \<le> 180"
  shows "backfill_bucket lat lon = Some (int (locationBucket lat lon))"
proof -
  have "(2166136261 :: int) = int (unat (0x811c9dc5 :: 32 word))" by simp
  moreover have "fnv1a_location lat lon = fnv1a_loop 2166136261 (locationKey lat lon)"
    using assms by (simp add: fnv1a_location_def locationKey_def snap_hundredths(2,3))
  ultimately have "fnv1a_location lat lon = Some (int (hashLocation (locationKey lat lon)))"
    unfolding hashLocation_def by (simp only: fnv1a_loop_foldl)
  then show ?thesis
    by (simp add: backfill_bucket_def locationBucket_def LOCATION_BUCKETS_def zmod_int)
qed

theorem backfill_agrees_witness:
  "backfill_bucket (525/10) (-1341/100) = Some (int (locationBucket (525/10) (-1341/100)))"
  by (rule backfill_agrees) simp_all

text \<open>
  No location is orphaned and none is polled twice. In a deployment of \<open>n\<close> watchers configured
  with \<open>WATCHER_SHARD_COUNT=n\<close> and \<open>WATCHER_SHARD_INDEX=0..n-1\<close>, the bucket of every coordinate pair is
  selected by exactly one of them.
\<close>

theorem exactly_one_shard:
  assumes "0 < n" and "n \<le> 2 ^ 53"
  shows "\<exists>!i. i < n \<and> selects (shardBuckets (shardFromEnv (Str (show_nat n)) (Str (show_nat i)))) (locationBucket lat lon)"
proof -
  have "i < n \<Longrightarrow> selects (shardBuckets (shardFromEnv (Str (show_nat n)) (Str (show_nat i)))) (locationBucket lat lon)
      \<longleftrightarrow> locationBucket lat lon mod n = i" for i
    using assms selects_shardBuckets [OF assms(1) locationBucket_less, of i lat lon]
    by (auto simp: shardFromEnv_numerals)
  then show ?thesis using assms(1) mod_less_divisor by metis
qed

theorem exactly_one_shard_witness:
  "\<exists>!i. i < 3 \<and> selects (shardBuckets (shardFromEnv (Str (show_nat 3)) (Str (show_nat i)))) (locationBucket (52 + 1/2) (13 + 1/4))"
  by (rule exactly_one_shard) simp_all

text \<open>
  Two triggers share an upstream call only when they are close. Coordinates in range whose
  \<open>locationKey\<close> is the same differ by at most a hundredth of a degree in each direction, up to the
  rounding of double arithmetic (less than a millionth of a millionth of a degree).
\<close>

theorem same_key_close:
  assumes "\<bar>lat\<bar> \<le> 90" "\<bar>lat'\<bar> \<le> 90" "\<bar>lon\<bar> \<le> 180" "\<bar>lon'\<bar> \<le> 180"
    and "locationKey lat lon = locationKey lat' lon'"
  shows "\<bar>lat - lat'\<bar> \<le> 1/100 + 1/10^12 \<and> \<bar>lon - lon'\<bar> \<le> 1/100 + 1/10^12"
proof -
  have "show_int (hundredths lat) @ '':'' @ show_int (hundredths lon) = show_int (hundredths lat') @ '':'' @ show_int (hundredths lon')"
    using assms by (simp add: locationKey_def snap_hundredths(2))
  then have "hundredths lat = hundredths lat' \<and> show_int (hundredths lon) = show_int (hundredths lon')"
    using append_sep_inject [OF show_int_no_colon show_int_no_colon] by fastforce
  then have k: "hundredths lat = hundredths lat'" "hundredths lon = hundredths lon'" by simp_all
  have e: "(2::rat) powi -38 \<le> 50 / 10 ^ 12" by (simp add: power_int_minus)
  have close: "\<bar>x - y\<bar> \<le> 1/100 + 1/10^12" if "\<bar>x\<bar> \<le> 180" "\<bar>y\<bar> \<le> 180" "hundredths x = hundredths y" for x y
  proof -
    have "\<bar>of_int (hundredths x) - 100 * x\<bar> \<le> 1/2 + 50 / 10 ^ 12" "\<bar>of_int (hundredths y) - 100 * y\<bar> \<le> 1/2 + 50 / 10 ^ 12"
      using hundredths_error [OF that(1)] hundredths_error [OF that(2)] e by linarith+
    then have "\<bar>100 * x - 100 * y\<bar> \<le> 1 + 100 / 10 ^ 12" unfolding that(3) by linarith
    moreover have "\<bar>100 * x - 100 * y\<bar> = 100 * \<bar>x - y\<bar>"
      by (metis abs_mult abs_numeral right_diff_distrib)
    ultimately show ?thesis by simp
  qed
  show ?thesis using close [of lat lat'] close [of lon lon'] k assms by simp
qed

theorem same_key_close_witness:
  "locationKey (1341/100) 7 = locationKey (13407/1000) 7 \<and>
   \<bar>1341/100 - 13407/1000 :: rat\<bar> \<le> 1/100 + 1/10^12 \<and> \<bar>7 - 7 :: rat\<bar> \<le> 1/100 + 1/10^12"
proof -
  have "locationKey (1341/100) 7 = locationKey (13407/1000) 7" by code_simp
  with same_key_close [OF _ _ _ _ this] show ?thesis by simp
qed

text \<open>
  Coordinates inside the globe stay inside it: latitudes snap into \<open>-9000..9000\<close> hundredths and
  longitudes into \<open>-18000..18000\<close>, and a coordinate that is a whole number of degrees is not moved.
\<close>

theorem snap_in_range:
  assumes "-180 \<le> x" and "x \<le> 180"
  shows "-18000 \<le> hundredths x \<and> hundredths x \<le> 18000 \<and> (-90 \<le> x \<and> x \<le> 90 \<longrightarrow> -9000 \<le> hundredths x \<and> hundredths x \<le> 9000)
    \<and> (x = of_int n \<longrightarrow> hundredths x = 100 * n)"
proof -
  have "hundredths (of_int n) = 100 * n" if "x = of_int n" using assms that by (intro hundredths_of_int) auto
  then show ?thesis
    using assms hundredths_mono [of "-180" x] hundredths_mono [of x 180] hundredths_mono [of "-90" x] hundredths_mono [of x 90]
      hundredths_of_int [of "-180"] hundredths_of_int [of 180] hundredths_of_int [of "-90"] hundredths_of_int [of 90]
    by simp
qed

theorem snap_in_range_witness: "-18000 \<le> hundredths (1795/10) \<and> hundredths (1795/10) \<le> 18000"
  using snap_in_range [of "1795/10"] by simp

end
