(* ===== verification/TriggersApi.thy ===== *)
theory TriggersApi
  imports Users Location
begin

text \<open>
  \<open>apps/core-api/src/triggers\<close>: the repository, the commands and the queries on triggers, with the
  validation of \<open>dto/create-trigger.dto.ts\<close>. The row a query includes is the trigger with its
  conditions in their order.
\<close>

section \<open>Validation (create-trigger.dto.ts)\<close>

record ConditionDto =
  cd_metric :: Metric
  cd_operator :: Operator
  cd_threshold :: rat

record CreateTriggerDto =
  ct_name :: string
  ct_city :: string
  ct_latitude :: rat
  ct_longitude :: rat
  ct_conditions :: "ConditionDto list"
  ct_conditionLogic :: "ConditionLogic option"
  ct_channels :: "Channel list"
  ct_cooldownMin :: "int option"
  ct_isActive :: "bool option"

text \<open>
  The decorators; types and enumerations are those of the record. A \<open>null\<close> in an optional field passes the
  decorators and is then refused by the database client, and is not modelled. What the
  validation library takes the length of a string to be is the parameter \<open>len\<close>.
\<close>

definition valid_create :: "(string \<Rightarrow> nat) \<Rightarrow> CreateTriggerDto \<Rightarrow> bool" where
  "valid_create len dto \<longleftrightarrow>
     1 \<le> len (ct_name dto) \<and> len (ct_name dto) \<le> 80 \<and> 1 \<le> len (ct_city dto) \<and> len (ct_city dto) \<le> 120 \<and>
     -90 \<le> ct_latitude dto \<and> ct_latitude dto \<le> 90 \<and> -180 \<le> ct_longitude dto \<and> ct_longitude dto \<le> 180 \<and>
     ct_conditions dto \<noteq> [] \<and> length (ct_conditions dto) \<le> maxConditionsPerTrigger API_LIMITS \<and>
     ct_channels dto \<noteq> [] \<and> distinct (ct_channels dto) \<and> length (ct_channels dto) \<le> maxChannelsPerTrigger API_LIMITS \<and>
     (case ct_cooldownMin dto of None \<Rightarrow> True | Some c \<Rightarrow> minCooldownMin API_LIMITS \<le> c \<and> c \<le> maxCooldownMin API_LIMITS)"

section \<open>The repository (triggers.repository.ts)\<close>

record TriggerRow =
  trow_trigger :: Trigger
  trow_conditions :: "TriggerCondition list"

definition include_conditions :: "db \<Rightarrow> Trigger \<Rightarrow> TriggerRow" where
  "include_conditions d t = \<lparr>trow_trigger = t, trow_conditions = sort_key tc_order (find_many (\<lambda>c. tc_triggerId c = tr_id t) (conditions d))\<rparr>"

definition countForUser :: "ident \<Rightarrow> db \<Rightarrow> nat" where
  "countForUser userId d = count_where (\<lambda>t. tr_userId t = userId) (triggers d)"

definition isEmailVerified :: "ident \<Rightarrow> db \<Rightarrow> bool" where
  "isEmailVerified userId d = (case find_user userId d of None \<Rightarrow> False | Some u \<Rightarrow> u_emailVerified u)"

definition owned :: "ident \<Rightarrow> ident \<Rightarrow> db \<Rightarrow> TriggerRow option" where
  "owned userId i d = map_option (include_conditions d) (find_unique (\<lambda>t. tr_id t = i \<and> tr_userId t = userId) (triggers d))"

definition findOwned :: "commit \<Rightarrow> ident \<Rightarrow> ident \<Rightarrow> ('r, TriggerRow) act" where
  "findOwned f userId i =
     andThen (reads f (owned userId i)) (\<lambda>row. case row of None \<Rightarrow> rejects (NotFound ''Trigger not found'') | Some t \<Rightarrow> yields t)"

definition page :: "ident \<Rightarrow> nat \<Rightarrow> nat \<Rightarrow> db \<Rightarrow> TriggerRow list \<times> nat" where
  "page userId skip n d =
     (map (include_conditions d) (take n (drop skip (sort_key (\<lambda>t. - tr_createdAt t) (find_many (\<lambda>t. tr_userId t = userId) (triggers d))))),
      count_where (\<lambda>t. tr_userId t = userId) (triggers d))"

text \<open>\<open>ids\<close> are the generated ids of the condition rows.\<close>

definition conditionRows :: "(nat \<Rightarrow> ident) \<Rightarrow> ident \<Rightarrow> ConditionDto list \<Rightarrow> TriggerCondition list" where
  "conditionRows ids triggerId cs =
     map (\<lambda>(k, c). \<lparr>tc_id = ids k, tc_triggerId = triggerId, tc_metric = cd_metric c, tc_operator = cd_operator c,
        tc_threshold = cd_threshold c, tc_order = int k, tc_lastObservedValue = None, tc_lastMatched = None\<rparr>) (enumerate 0 cs)"

text \<open>The fields of a create, with the schema's defaults for the ones left out.\<close>

definition trigger_create ::
  "ident \<Rightarrow> (nat \<Rightarrow> ident) \<Rightarrow> instant \<Rightarrow> ident \<Rightarrow> CreateTriggerDto \<Rightarrow> ConditionLogic \<Rightarrow> db \<Rightarrow> (db_error, TriggerRow \<times> db) result" where
  "trigger_create i ids now userId dto logic d =
     (let t = \<lparr>tr_id = i, tr_userId = userId, tr_name = ct_name dto, tr_city = ct_city dto, tr_latitude = ct_latitude dto,
               tr_longitude = ct_longitude dto, tr_conditionLogic = logic, tr_channels = ct_channels dto,
               tr_cooldownMin = (case ct_cooldownMin dto of Some c \<Rightarrow> c | None \<Rightarrow> 60),
               tr_isActive = (case ct_isActive dto of Some b \<Rightarrow> b | None \<Rightarrow> True), tr_state = ARMED, tr_lastFiredAt = None,
               tr_lastEvaluatedAt = None, tr_locationBucket = locationBucket (ct_latitude dto) (ct_longitude dto),
               tr_createdAt = now\<rparr>;
          cs = conditionRows ids i (ct_conditions dto);
          d' = d\<lparr>triggers := triggers d @ [t], conditions := conditions d @ cs\<rparr>
      in if find_unique (\<lambda>x. tr_id x = i) (triggers d) \<noteq> None \<or> \<not> distinct (map tc_id (conditions d @ cs)) then Inl UniqueViolation
         else if find_user userId d = None then Inl ForeignKeyViolation
         else Inr (include_conditions d' t, d'))"

record UpdateTriggerDto =
  ut_name :: "string option"
  ut_city :: "string option"
  ut_latitude :: "rat option"
  ut_longitude :: "rat option"
  ut_conditions :: "ConditionDto list option"
  ut_conditionLogic :: "ConditionLogic option"
  ut_channels :: "Channel list option"
  ut_cooldownMin :: "int option"
  ut_isActive :: "bool option"

definition bucketPatch :: "UpdateTriggerDto \<Rightarrow> nat option" where
  "bucketPatch dto =
     (case (ut_latitude dto, ut_longitude dto) of (Some la, Some lo) \<Rightarrow> Some (locationBucket la lo) | _ \<Rightarrow> None)"

definition or_old :: "'a option \<Rightarrow> 'a \<Rightarrow> 'a" where
  "or_old p old = (case p of Some v \<Rightarrow> v | None \<Rightarrow> old)"

definition patch_trigger :: "UpdateTriggerDto \<Rightarrow> Trigger \<Rightarrow> Trigger" where
  "patch_trigger dto t = t\<lparr>tr_name := or_old (ut_name dto) (tr_name t), tr_city := or_old (ut_city dto) (tr_city t),
     tr_latitude := or_old (ut_latitude dto) (tr_latitude t), tr_longitude := or_old (ut_longitude dto) (tr_longitude t),
     tr_conditionLogic := or_old (ut_conditionLogic dto) (tr_conditionLogic t), tr_channels := or_old (ut_channels dto) (tr_channels t),
     tr_cooldownMin := or_old (ut_cooldownMin dto) (tr_cooldownMin t), tr_isActive := or_old (ut_isActive dto) (tr_isActive t),
     tr_locationBucket := or_old (bucketPatch dto) (tr_locationBucket t)\<rparr>"

definition trigger_update ::
  "(nat \<Rightarrow> ident) \<Rightarrow> ident \<Rightarrow> UpdateTriggerDto \<Rightarrow> db \<Rightarrow> (db_error, TriggerRow \<times> db) result" where
  "trigger_update ids i dto d =
     (case find_unique (\<lambda>t. tr_id t = i) (triggers d) of
        None \<Rightarrow> Inl RecordNotFound
      | Some t \<Rightarrow>
          (let cs = (case ut_conditions dto of
                       None \<Rightarrow> conditions d
                     | Some new \<Rightarrow> delete_many (\<lambda>c. tc_triggerId c = i) (conditions d) @ conditionRows ids i new);
               d' = d\<lparr>triggers := update_many (\<lambda>t. tr_id t = i) (patch_trigger dto) (triggers d), conditions := cs\<rparr>
           in if \<not> distinct (map tc_id cs) then Inl UniqueViolation
              else Inr (include_conditions d' (patch_trigger dto t), d')))"

definition trigger_delete :: "ident \<Rightarrow> db \<Rightarrow> (db_error, unit \<times> db) result" where
  "trigger_delete i d =
     (if find_unique (\<lambda>t. tr_id t = i) (triggers d) = None then Inl RecordNotFound else Inr ((), delete_triggers (\<lambda>t. tr_id t = i) d))"

definition deleteAllForUser :: "ident \<Rightarrow> db \<Rightarrow> nat \<times> db" where
  "deleteAllForUser userId d =
     (count_where (\<lambda>t. tr_userId t = userId) (triggers d), delete_triggers (\<lambda>t. tr_userId t = userId) d)"

section \<open>Responses\<close>

record TriggerResponseDto =
  trr_id :: ident
  trr_name :: string
  trr_city :: string
  trr_latitude :: rat
  trr_longitude :: rat
  trr_conditions :: "(ident \<times> Metric \<times> Operator \<times> rat \<times> int \<times> rat option \<times> bool option) list"
  trr_conditionLogic :: ConditionLogic
  trr_channels :: "Channel list"
  trr_cooldownMin :: int
  trr_isActive :: bool
  trr_state :: TriggerState
  trr_lastFiredAt :: "instant option"
  trr_lastEvaluatedAt :: "instant option"
  trr_createdAt :: instant

definition toTriggerResponse :: "TriggerRow \<Rightarrow> TriggerResponseDto" where
  "toTriggerResponse row =
     (let t = trow_trigger row in
      \<lparr>trr_id = tr_id t, trr_name = tr_name t, trr_city = tr_city t, trr_latitude = tr_latitude t, trr_longitude = tr_longitude t,
       trr_conditions = map (\<lambda>c. (tc_id c, tc_metric c, tc_operator c, tc_threshold c, tc_order c, tc_lastObservedValue c, tc_lastMatched c))
         (trow_conditions row),
       trr_conditionLogic = tr_conditionLogic t, trr_channels = tr_channels t, trr_cooldownMin = tr_cooldownMin t,
       trr_isActive = tr_isActive t, trr_state = tr_state t, trr_lastFiredAt = tr_lastFiredAt t,
       trr_lastEvaluatedAt = tr_lastEvaluatedAt t, trr_createdAt = tr_createdAt t\<rparr>)"

section \<open>Commands and queries\<close>

definition CreateTriggerHandler :: "request_env \<Rightarrow> ident \<Rightarrow> CreateTriggerDto \<Rightarrow> ('r, TriggerResponseDto) act" where
  "CreateTriggerHandler env userId dto =
     andThen (reads (rq_sql env 0) (isEmailVerified userId)) (\<lambda>verified.
       if \<not> verified then rejects (Forbidden ''Please verify your email before creating triggers'')
       else andThen (reads (rq_sql env 1) (countForUser userId)) (\<lambda>n.
         if n \<ge> maxTriggersPerUser API_LIMITS
         then rejects (BadRequest (''Trigger limit reached (max '' @ show_nat (maxTriggersPerUser API_LIMITS) @ '')''))
         else andThen (executes (rq_sql env 2) (trigger_create (rq_uuid env 0) (\<lambda>k. rq_uuid env (Suc k)) (rq_now env) userId dto
                  (case ct_conditionLogic dto of Some l \<Rightarrow> l | None \<Rightarrow> LogicAND)))
                (\<lambda>created. yields (toTriggerResponse created))))"

definition UpdateTriggerHandler :: "request_env \<Rightarrow> ident \<Rightarrow> ident \<Rightarrow> UpdateTriggerDto \<Rightarrow> ('r, TriggerResponseDto) act" where
  "UpdateTriggerHandler env userId i dto =
     andThen (findOwned (rq_sql env 0) userId i) (\<lambda>_.
       andThen (executes (rq_sql env 1) (trigger_update (rq_uuid env) i dto)) (\<lambda>updated. yields (toTriggerResponse updated)))"

definition DeleteTriggerHandler :: "request_env \<Rightarrow> ident \<Rightarrow> ident \<Rightarrow> ('r, ident) act" where
  "DeleteTriggerHandler env userId i =
     andThen (findOwned (rq_sql env 0) userId i) (\<lambda>_. andThen (executes (rq_sql env 1) (trigger_delete i)) (\<lambda>_. yields i))"

definition ClearTriggersHandler :: "request_env \<Rightarrow> ident \<Rightarrow> ('r, nat) act" where
  "ClearTriggersHandler env userId = executes (rq_sql env 0) (\<lambda>d. Inr (deleteAllForUser userId d))"

definition GetTriggerHandler :: "request_env \<Rightarrow> ident \<Rightarrow> ident \<Rightarrow> ('r, TriggerResponseDto) act" where
  "GetTriggerHandler env userId i = andThen (findOwned (rq_sql env 0) userId i) (\<lambda>t. yields (toTriggerResponse t))"

definition ListTriggersHandler :: "request_env \<Rightarrow> ident \<Rightarrow> PaginationDto \<Rightarrow> ('r, TriggerResponseDto PaginatedResult) act" where
  "ListTriggersHandler env userId dto =
     (let pg = (case dto_page dto of None \<Rightarrow> 1 | Some n \<Rightarrow> n); lim = (case dto_limit dto of None \<Rightarrow> 20 | Some n \<Rightarrow> n) in
      andThen (reads (rq_sql env 0) (page userId ((pg - 1) * lim) lim)) (\<lambda>(items, total).
        yields \<lparr>pg_items = map toTriggerResponse items, pg_total = total, pg_page = pg, pg_limit = lim\<rparr>))"

text \<open>The event of a test send, and the publishing loop: \<open>published k\<close> is whether the broker confirmed the k-th publish.\<close>

definition test_event :: "ident \<Rightarrow> instant \<Rightarrow> TriggerRow \<Rightarrow> TriggerFiredEvent" where
  "test_event eventId now row =
     (let t = trow_trigger row in
      \<lparr>ev_eventId = eventId, ev_triggerId = tr_id t, ev_userId = tr_userId t, ev_triggerName = tr_name t, ev_city = tr_city t,
       ev_conditions = map (\<lambda>c. \<lparr>fc_metric = tc_metric c, fc_operator = tc_operator c, fc_threshold = tc_threshold c,
         fc_observedValue = (case tc_lastObservedValue c of Some v \<Rightarrow> v | None \<Rightarrow> tc_threshold c)\<rparr>) (trow_conditions row),
       ev_conditionLogic = tr_conditionLogic t, ev_channels = tr_channels t, ev_firedAt = toISOString now, ev_test = Some True\<rparr>)"

fun publish_test :: "(nat \<Rightarrow> bool) \<Rightarrow> nat \<Rightarrow> Channel list \<Rightarrow> TriggerFiredEvent \<Rightarrow> ('r, bool) act" where
  "publish_test published k [] event s = (Inr True, s)"
| "publish_test published k (c # cs) event s =
     (if published k then publish_test published (Suc k) cs event (s\<lparr>ap_events := ap_events s @ [(routingKeyFor c, event)]\<rparr>)
      else (Inr False, s))"

definition SendTestNotificationHandler ::
  "'r redis \<Rightarrow> (nat \<Rightarrow> bool) \<Rightarrow> request_env \<Rightarrow> ident \<Rightarrow> ident \<Rightarrow> ('r, Channel list) act" where
  "SendTestNotificationHandler R published env userId i =
     andThen (findOwned (rq_sql env 0) userId i) (\<lambda>row.
       let cooldownKey = ''trigger-test:'' @ userId; channels = tr_channels (trow_trigger row) in
       andThen (asks (\<lambda>r. consumeCooldown R (rq_io env 0) (rq_io env 1) r (rq_now env) (rq_now env) cooldownKey (testCooldownSec API_LIMITS)))
         (\<lambda>reply. case reply of
            Inl _ \<Rightarrow> rejects CacheError
          | Inr retryAfter \<Rightarrow>
              if retryAfter > 0 then rejects (TooManyRequests retryAfter)
              else andThen (publish_test published 0 channels (test_event (rq_uuid env 0) (rq_now env) row)) (\<lambda>all.
                if all then yields channels
                else andThen (asks (\<lambda>r. clearCooldown R (rq_io env 2) r (rq_now env) cooldownKey)) (\<lambda>_.
                  rejects (ServiceUnavailable (''Notifications are temporarily unavailable '' @ EM_DASH @ '' please try again shortly''))))))"

section \<open>What a request may change\<close>

datatype trigger_request =
    CreateRequest CreateTriggerDto
  | UpdateRequest ident UpdateTriggerDto
  | DeleteRequest ident
  | ClearRequest
  | TestRequest ident

fun served :: "'r redis \<Rightarrow> (nat \<Rightarrow> bool) \<Rightarrow> request_env \<Rightarrow> ident \<Rightarrow> trigger_request \<Rightarrow> 'r api \<Rightarrow> 'r api" where
  "served R pub env userId (CreateRequest dto) s = snd (CreateTriggerHandler env userId dto s)"
| "served R pub env userId (UpdateRequest i dto) s = snd (UpdateTriggerHandler env userId i dto s)"
| "served R pub env userId (DeleteRequest i) s = snd (DeleteTriggerHandler env userId i s)"
| "served R pub env userId ClearRequest s = snd (ClearTriggersHandler env userId s)"
| "served R pub env userId (TestRequest i) s = snd (SendTestNotificationHandler R pub env userId i s)"

lemma findOwned_cases:
  "findOwned f userId i s = (x, s') \<Longrightarrow> s' = s \<and>
   (\<forall>r. x = Inr r \<longrightarrow> (\<exists>t \<in> set (triggers (ap_db s)). tr_id t = i \<and> tr_userId t = userId))"
  by (cases "f = Committed")
    (auto simp: findOwned_def act_simps owned_def split: option.splits dest!: find_unique_Some)

lemma publish_test_db: "publish_test pub k cs ev s = (x, s') \<Longrightarrow> ap_db s' = ap_db s"
  by (induction pub k cs ev s rule: publish_test.induct) (auto split: if_splits)

lemma executes_db: "executes f q s = (x, s') \<Longrightarrow> ap_db s' = ap_db s \<or> (\<exists>y. q (ap_db s) = Inr (y, ap_db s'))"
  by (erule executes_cases) auto

definition own :: "ident \<Rightarrow> ident \<Rightarrow> db \<Rightarrow> bool" where
  "own userId i d \<longleftrightarrow> (\<exists>t \<in> set (triggers d). tr_id t = i \<and> tr_userId t = userId)"

text \<open>The database after a request: unchanged, or changed by the one statement the guards allow.\<close>

lemma served_db:
  "ap_db (served R pub env userId req s) = ap_db s \<or>
   (\<exists>y. case req of
      CreateRequest dto \<Rightarrow> countForUser userId (ap_db s) < 10 \<and>
        trigger_create (rq_uuid env 0) (\<lambda>k. rq_uuid env (Suc k)) (rq_now env) userId dto
          (case ct_conditionLogic dto of Some l \<Rightarrow> l | None \<Rightarrow> LogicAND) (ap_db s) = Inr (y, ap_db (served R pub env userId req s))
    | UpdateRequest i dto \<Rightarrow> own userId i (ap_db s) \<and> trigger_update (rq_uuid env) i dto (ap_db s) = Inr (y, ap_db (served R pub env userId req s))
    | DeleteRequest i \<Rightarrow> own userId i (ap_db s) \<and> ap_db (served R pub env userId req s) = delete_triggers (\<lambda>t. tr_id t = i) (ap_db s)
    | ClearRequest \<Rightarrow> ap_db (served R pub env userId req s) = delete_triggers (\<lambda>t. tr_userId t = userId) (ap_db s)
    | TestRequest i \<Rightarrow> False)"
proof (cases req)
  case (CreateRequest dto)
  obtain x s' where run: "CreateTriggerHandler env userId dto s = (x, s')" by force
  then have "ap_db s' = ap_db s \<or> (countForUser userId (ap_db s) < 10 \<and>
      (\<exists>y. trigger_create (rq_uuid env 0) (\<lambda>k. rq_uuid env (Suc k)) (rq_now env) userId dto
          (case ct_conditionLogic dto of Some l \<Rightarrow> l | None \<Rightarrow> LogicAND) (ap_db s) = Inr (y, ap_db s')))"
    unfolding CreateTriggerHandler_def
    by (auto elim!: andThenE dest!: executes_db simp: reads_def API_LIMITS_def split: if_splits)
  then show ?thesis using CreateRequest run by simp
next
  case (UpdateRequest i dto)
  obtain x s' where run: "UpdateTriggerHandler env userId i dto s = (x, s')" by force
  then have "ap_db s' = ap_db s \<or> (own userId i (ap_db s) \<and> (\<exists>y. trigger_update (rq_uuid env) i dto (ap_db s) = Inr (y, ap_db s')))"
    unfolding UpdateTriggerHandler_def by (auto elim!: andThenE dest!: executes_db findOwned_cases simp: own_def)
  then show ?thesis using UpdateRequest run by simp
next
  case (DeleteRequest i)
  obtain x s' where run: "DeleteTriggerHandler env userId i s = (x, s')" by force
  then have "ap_db s' = ap_db s \<or> (own userId i (ap_db s) \<and> ap_db s' = delete_triggers (\<lambda>t. tr_id t = i) (ap_db s))"
    unfolding DeleteTriggerHandler_def
    by (auto elim!: andThenE dest!: executes_db findOwned_cases simp: own_def trigger_delete_def split: if_splits)
  then show ?thesis using DeleteRequest run by simp
next
  case ClearRequest
  obtain x s' where run: "ClearTriggersHandler env userId s = (x, s')" by force
  then have "ap_db s' = ap_db s \<or> ap_db s' = delete_triggers (\<lambda>t. tr_userId t = userId) (ap_db s)"
    unfolding ClearTriggersHandler_def by (auto dest!: executes_db simp: deleteAllForUser_def)
  then show ?thesis using ClearRequest run by simp
next
  case (TestRequest i)
  obtain x s' where run: "SendTestNotificationHandler R pub env userId i s = (x, s')" by force
  then have "ap_db s' = ap_db s" unfolding SendTestNotificationHandler_def Let_def
    by (auto elim!: andThenE dest!: findOwned_cases publish_test_db simp: asks_eq split: sum.splits if_splits)
  then show ?thesis using TestRequest run by simp
qed

text \<open>Everything about the triggers of users other than \<open>userId\<close>.\<close>

definition foreign :: "ident \<Rightarrow> db \<Rightarrow> TriggerRow list" where
  "foreign userId d = map (include_conditions d) (filter (\<lambda>t. tr_userId t \<noteq> userId) (triggers d))"

lemma foreign_cong:
  assumes "filter (\<lambda>t. tr_userId t \<noteq> userId) (triggers d') = filter (\<lambda>t. tr_userId t \<noteq> userId) (triggers d)"
    and "\<And>t. t \<in> set (triggers d) \<Longrightarrow> tr_userId t \<noteq> userId \<Longrightarrow>
      filter (\<lambda>c. tc_triggerId c = tr_id t) (conditions d') = filter (\<lambda>c. tc_triggerId c = tr_id t) (conditions d)"
  shows "foreign userId d' = foreign userId d"
  using assms by (auto simp: foreign_def include_conditions_def find_many_def)

lemma conditionRows_trigger: "c \<in> set (conditionRows ids i cs) \<Longrightarrow> tc_triggerId c = i"
  by (auto simp: conditionRows_def)

lemma filter_conditionRows: "j \<noteq> i \<Longrightarrow> filter (\<lambda>c. tc_triggerId c = j) (conditionRows ids i cs) = []"
  using conditionRows_trigger [of _ ids i cs] by (auto simp: filter_empty_conv)

lemma filter_update_other:
  "(\<And>r. r \<in> set rows \<Longrightarrow> p r \<Longrightarrow> \<not> q r \<and> \<not> q (f r)) \<Longrightarrow> filter q (update_many p f rows) = filter q rows"
  by (induction rows) auto

lemma filter_delete_other: "(\<And>r. p r \<Longrightarrow> \<not> q r) \<Longrightarrow> filter q (delete_many p rows) = filter q rows"
  by (induction rows) (auto simp: delete_many_def)

lemma owner_unique:
  "distinct (map tr_id (triggers d)) \<Longrightarrow> own userId i d \<Longrightarrow> t \<in> set (triggers d) \<Longrightarrow> tr_id t = i \<Longrightarrow> tr_userId t = userId"
  unfolding own_def distinct_map inj_on_def by auto

lemma delete_foreign:
  assumes "\<And>t. t \<in> set (triggers d) \<Longrightarrow> p t \<Longrightarrow> tr_userId t = userId" and "distinct (map tr_id (triggers d))"
  shows "foreign userId (delete_triggers p d) = foreign userId d"
proof (rule foreign_cong)
  show "filter (\<lambda>t. tr_userId t \<noteq> userId) (triggers (delete_triggers p d)) = filter (\<lambda>t. tr_userId t \<noteq> userId) (triggers d)"
    using assms(1) by (auto simp: delete_triggers_def Let_def delete_many_def intro!: filter_cong)
next
  fix t
  assume t: "t \<in> set (triggers d)" "tr_userId t \<noteq> userId"
  then have "tr_id t \<notin> set (map tr_id (find_many p (triggers d)))"
    using assms unfolding find_many_def distinct_map inj_on_def by auto
  then show "filter (\<lambda>c. tc_triggerId c = tr_id t) (conditions (delete_triggers p d)) = filter (\<lambda>c. tc_triggerId c = tr_id t) (conditions d)"
    by (auto simp: delete_triggers_def Let_def delete_many_def image_iff intro!: filter_cong)
qed

lemma create_foreign:
  assumes "trigger_create i ids now userId dto l d = Inr (y, d')"
  shows "foreign userId d' = foreign userId d"
proof -
  have "find_unique (\<lambda>x. tr_id x = i) (triggers d) = None" using assms by (auto simp: trigger_create_def Let_def split: if_splits)
  then show ?thesis using assms
    by (intro foreign_cong) (auto simp: trigger_create_def Let_def filter_conditionRows find_unique_None split: if_splits)
qed

lemma update_foreign:
  assumes "trigger_update ids i dto d = Inr (y, d')" and "\<And>t. t \<in> set (triggers d) \<Longrightarrow> tr_id t = i \<Longrightarrow> tr_userId t = userId"
  shows "foreign userId d' = foreign userId d"
proof (rule foreign_cong)
  show "filter (\<lambda>t. tr_userId t \<noteq> userId) (triggers d') = filter (\<lambda>t. tr_userId t \<noteq> userId) (triggers d)"
    using assms by (auto simp: trigger_update_def Let_def patch_trigger_def split: option.splits if_splits intro!: filter_update_other)
next
  fix t assume "t \<in> set (triggers d)" "tr_userId t \<noteq> userId"
  then have "tr_id t \<noteq> i" using assms(2) by blast
  then show "filter (\<lambda>c. tc_triggerId c = tr_id t) (conditions d') = filter (\<lambda>c. tc_triggerId c = tr_id t) (conditions d)"
    using assms(1) by (auto simp: trigger_update_def Let_def filter_conditionRows split: option.splits if_splits intro!: filter_delete_other)
qed

text \<open>
  A request reaches only its caller's own triggers. Whatever id a user names in an update, a deletion,
  a test send or a clear, and whatever a new trigger contains, the triggers and conditions of every
  other user are exactly what they were.
\<close>

theorem only_own_triggers:
  assumes "distinct (map tr_id (triggers (ap_db s)))"
  shows "foreign userId (ap_db (served R pub env userId req s)) = foreign userId (ap_db s)"
proof -
  let ?d = "ap_db s" and ?d' = "ap_db (served R pub env userId req s)"
  show ?thesis
  proof (cases "?d' = ?d")
    case False
    then obtain y where ch: "case req of
        CreateRequest dto \<Rightarrow> countForUser userId ?d < 10 \<and>
          trigger_create (rq_uuid env 0) (\<lambda>k. rq_uuid env (Suc k)) (rq_now env) userId dto
            (case ct_conditionLogic dto of Some l \<Rightarrow> l | None \<Rightarrow> LogicAND) ?d = Inr (y, ?d')
      | UpdateRequest i dto \<Rightarrow> own userId i ?d \<and> trigger_update (rq_uuid env) i dto ?d = Inr (y, ?d')
      | DeleteRequest i \<Rightarrow> own userId i ?d \<and> ?d' = delete_triggers (\<lambda>t. tr_id t = i) ?d
      | ClearRequest \<Rightarrow> ?d' = delete_triggers (\<lambda>t. tr_userId t = userId) ?d
      | TestRequest i \<Rightarrow> False" using served_db [of R pub env userId req s] by blast
    show ?thesis
    proof (cases req)
      case (CreateRequest dto)
      then show ?thesis using ch create_foreign by auto
    next
      case (UpdateRequest i dto)
      then show ?thesis using ch update_foreign owner_unique [OF assms(1)] by simp blast
    next
      case (DeleteRequest i)
      then have "own userId i ?d" and d': "?d' = delete_triggers (\<lambda>t. tr_id t = i) ?d" using ch by auto
      then show ?thesis unfolding d' by (intro delete_foreign assms(1)) (rule owner_unique [OF assms(1)])
    next
      case ClearRequest
      then show ?thesis using ch delete_foreign [OF _ assms(1), of "\<lambda>t. tr_userId t = userId"] by simp
    next
      case (TestRequest i)
      then show ?thesis using ch by simp
    qed
  qed simp
qed

text \<open>What the watcher's sharding and the limits of the API rely on.\<close>

definition bucketed :: "Trigger \<Rightarrow> bool" where
  "bucketed t \<longleftrightarrow> tr_locationBucket t = locationBucket (tr_latitude t) (tr_longitude t)"

definition triggers_ok :: "db \<Rightarrow> bool" where
  "triggers_ok d \<longleftrightarrow> distinct (map tr_id (triggers d)) \<and> (\<forall>u. countForUser u d \<le> maxTriggersPerUser API_LIMITS) \<and>
     list_all bucketed (triggers d)"

text \<open>A patch that moves a trigger names both coordinates.\<close>

fun moves_whole :: "trigger_request \<Rightarrow> bool" where
  "moves_whole (UpdateRequest i dto) = (ut_latitude dto = None \<longleftrightarrow> ut_longitude dto = None)"
| "moves_whole _ = True"

lemma create_ok:
  assumes "triggers_ok d" and "trigger_create i ids now userId dto l d = Inr (y, d')" and "countForUser userId d < 10"
  shows "triggers_ok d'"
  using assms
  by (auto simp: triggers_ok_def trigger_create_def Let_def countForUser_def count_where_append count_where_def find_unique_None bucketed_def
      API_LIMITS_def split: if_splits)

lemma patch_bucketed:
  "moves_whole (UpdateRequest i dto) \<Longrightarrow> bucketed t \<Longrightarrow> bucketed (patch_trigger dto t)"
  by (cases "ut_latitude dto"; cases "ut_longitude dto") (auto simp: bucketed_def patch_trigger_def bucketPatch_def or_old_def)

lemma update_ok:
  assumes "triggers_ok d" and "trigger_update ids i dto d = Inr (y, d')" and "moves_whole (UpdateRequest i dto)"
  shows "triggers_ok d'"
proof -
  have tr: "triggers d' = update_many (\<lambda>t. tr_id t = i) (patch_trigger dto) (triggers d)"
    using assms(2) by (auto simp: trigger_update_def Let_def split: option.splits if_splits)
  have "countForUser u d' = countForUser u d" for u
    by (simp add: countForUser_def tr count_where_update_many patch_trigger_def)
  moreover have "list_all bucketed (triggers d')"
    using assms(1) patch_bucketed [OF assms(3)] by (auto simp: triggers_ok_def tr list_all_iff set_update_many)
  moreover have "map tr_id (triggers d') = map tr_id (triggers d)" by (simp add: tr map_update_many patch_trigger_def)
  ultimately show ?thesis using assms(1) by (simp add: triggers_ok_def)
qed

lemma delete_ok: "triggers_ok d \<Longrightarrow> triggers_ok (delete_triggers p d)"
  using count_where_delete_many_le [of _ p "triggers d"]
  by (auto simp: triggers_ok_def delete_triggers_def Let_def countForUser_def list_all_iff intro: order_trans)

lemma served_ok:
  assumes "triggers_ok (ap_db s)" and "moves_whole req"
  shows "triggers_ok (ap_db (served R pub env userId req s))"
proof (cases "ap_db (served R pub env userId req s) = ap_db s")
  case False
  note ch = served_db [of R pub env userId req s]
  show ?thesis
  proof (cases req)
    case (CreateRequest dto)
    then show ?thesis using ch False create_ok [OF assms(1)] by auto
  next
    case (UpdateRequest i dto)
    then show ?thesis using ch False update_ok [OF assms(1)] assms(2) by auto
  next
    case (DeleteRequest i)
    then show ?thesis using ch False delete_ok [OF assms(1)] by auto
  next
    case ClearRequest
    then show ?thesis using ch False delete_ok [OF assms(1)] by auto
  next
    case (TestRequest i)
    then show ?thesis using ch False by auto
  qed
qed (simp add: assms(1))

text \<open>
  C28: the trigger table stays sound. Under any sequence of requests by any users, with any statements
  failing, ids stay unique, no user has more than the limit of triggers, and every trigger carries the
  bucket of its own coordinates, the column by which the watchers share the work. The condition is that
  a patch that moves a trigger names both coordinates.
\<close>

theorem triggers_stay_ok:
  assumes "triggers_ok (ap_db s)" and "list_all (\<lambda>(pub, env, userId, req). moves_whole req) reqs"
  shows "triggers_ok (ap_db (fold (\<lambda>(pub, env, userId, req) s. served R pub env userId req s) reqs s))"
  using assms
proof (induction reqs arbitrary: s)
  case (Cons x reqs)
  obtain pub env userId req where x: "x = (pub, env, userId, req)" by (cases x) auto
  have "triggers_ok (ap_db (served R pub env userId req s))" using Cons.prems by (intro served_ok) (simp_all add: x)
  then show ?case using Cons by (simp add: x)
qed simp

section \<open>Concrete requests\<close>

definition api1 :: "(string \<Rightarrow> entry option) api" where
  "api1 = api0\<lparr>ap_db := small_db\<lparr>triggers := [heat\<lparr>tr_locationBucket := locationBucket 52 13\<rparr>]\<rparr>\<rparr>"

definition no_patch :: UpdateTriggerDto where
  "no_patch = \<lparr>ut_name = None, ut_city = None, ut_latitude = None, ut_longitude = None, ut_conditions = None, ut_conditionLogic = None,
     ut_channels = None, ut_cooldownMin = None, ut_isActive = None\<rparr>"

lemmas trigger_samples = api1_def api0_def small_db_defs no_patch_def env0_def done_env_def

theorem only_own_triggers_witness:
  "foreign ''u2'' (ap_db (served mem_redis (\<lambda>_. True) env0 ''u2'' (DeleteRequest ''t1'') api1)) = foreign ''u2'' (ap_db api1) \<and>
   length (foreign ''u2'' (ap_db api1)) = 1"
proof -
  have "distinct (map tr_id (triggers (ap_db api1)))" by (simp add: trigger_samples)
  moreover have "length (foreign ''u2'' (ap_db api1)) = 1" by (simp add: foreign_def trigger_samples)
  ultimately show ?thesis using only_own_triggers by blast
qed

theorem triggers_stay_ok_witness:
  "triggers_ok (ap_db (fold (\<lambda>(pub, env, userId, req) s. served mem_redis pub env userId req s)
     [(\<lambda>_. True, env0, ''u1'', UpdateRequest ''t1'' (no_patch\<lparr>ut_latitude := Some 48, ut_longitude := Some 2\<rparr>))] api1))"
  by (rule triggers_stay_ok)
    (simp_all add: triggers_ok_def countForUser_def count_where_def API_LIMITS_def bucketed_def trigger_samples)

lemma bucket_of_key: "int (locationBucket lat lon) = the (fnv1a_loop 2166136261 (locationKey lat lon)) mod 1024"
  using fnv1a_loop_foldl [of "0x811c9dc5" "locationKey lat lon"]
  by (simp add: locationBucket_def hashLocation_def LOCATION_BUCKETS_def zmod_int)

lemma whole_degree_keys: "locationKey 48 13 = ''4800:1300''" "locationKey 52 13 = ''5200:1300''"
  using hundredths_of_int [of 48] hundredths_of_int [of 52] hundredths_of_int [of 13]
  by (simp_all add: locationKey_def snap_hundredths(2) show_int_def show_nat.simps digit_char_def char_of_def bit_iff_odd)

lemma other_bucket: "locationBucket 48 13 \<noteq> locationBucket 52 13"
proof -
  have "int (locationBucket 48 13) \<noteq> int (locationBucket 52 13)"
    by (simp add: bucket_of_key whole_degree_keys bigint_def)
  then show ?thesis by simp
qed

text \<open>A patch that names only one coordinate moves the trigger and leaves it in the bucket of where it was.\<close>

lemma half_move_breaks_bucket:
  "\<not> triggers_ok (ap_db (served mem_redis (\<lambda>_. True) env0 ''u1'' (UpdateRequest ''t1'' (no_patch\<lparr>ut_latitude := Some 48\<rparr>)) api1))"
  using other_bucket
  by (simp add: triggers_ok_def bucketed_def UpdateTriggerHandler_def findOwned_def owned_def trigger_update_def patch_trigger_def or_old_def
      bucketPatch_def act_simps find_unique_def trigger_samples Let_def)

end
