(* ===== verification/Admin.thy ===== *)
theory Admin
  imports Auth TriggersApi
begin

text \<open>
  \<open>apps/core-api/src/admin/admin.service.ts\<close>: statistics, the list and details of users, role changes
  and deletions by an administrator.
\<close>

section \<open>Reading\<close>

record AdminStatsDto =
  st_users :: nat
  st_verifiedUsers :: nat
  st_admins :: nat
  st_triggers :: nat
  st_activeTriggers :: nat
  st_pinnedCities :: nat
  st_notifications :: nat
  st_notificationsSent :: nat
  st_notificationsFailed :: nat

definition stats :: "db \<Rightarrow> AdminStatsDto" where
  "stats d =
     \<lparr>st_users = length (users d), st_verifiedUsers = count_where u_emailVerified (users d), st_admins = admins d,
      st_triggers = length (triggers d), st_activeTriggers = count_where tr_isActive (triggers d),
      st_pinnedCities = length (pinnedCities d), st_notifications = length (notifications d),
      st_notificationsSent = count_where (\<lambda>n. n_status n = SENT) (notifications d),
      st_notificationsFailed = count_where (\<lambda>n. n_status n = FAILED) (notifications d)\<rparr>"

record AdminUserDto =
  adu_id :: ident
  adu_email :: string
  adu_role :: Role
  adu_emailVerified :: bool
  adu_telegramLinked :: bool
  adu_triggerCount :: nat
  adu_notificationCount :: nat
  adu_createdAt :: instant

definition listUsers :: "PaginationDto \<Rightarrow> db \<Rightarrow> AdminUserDto PaginatedResult" where
  "listUsers dto d =
     (let p = paginate u_createdAt (\<lambda>_. True) dto (users d) in
      \<lparr>pg_items = map (\<lambda>u. \<lparr>adu_id = u_id u, adu_email = u_email u, adu_role = u_role u, adu_emailVerified = u_emailVerified u,
           adu_telegramLinked = truthy (u_telegramChatId u),
           adu_triggerCount = count_where (\<lambda>t. tr_userId t = u_id u) (triggers d),
           adu_notificationCount = count_where (\<lambda>n. n_userId n = u_id u) (notifications d), adu_createdAt = u_createdAt u\<rparr>) (pg_items p),
       pg_total = pg_total p, pg_page = pg_page p, pg_limit = pg_limit p\<rparr>)"

record AdminUserDetailDto =
  add_id :: ident
  add_email :: string
  add_role :: Role
  add_emailVerified :: bool
  add_quietHours :: "string option \<times> string option \<times> string option"
  add_createdAt :: instant
  add_telegramLinked :: bool
  add_triggers :: "TriggerResponseDto list"
  add_notificationCount :: nat
  add_pinnedCityCount :: nat

definition getUser :: "commit \<Rightarrow> ident \<Rightarrow> ('r, AdminUserDetailDto) act" where
  "getUser f i =
     andThen (reads f (\<lambda>d. map_option (\<lambda>u.
       \<lparr>add_id = u_id u, add_email = u_email u, add_role = u_role u, add_emailVerified = u_emailVerified u,
        add_quietHours = (u_quietHoursStart u, u_quietHoursEnd u, u_timezone u), add_createdAt = u_createdAt u,
        add_telegramLinked = truthy (u_telegramChatId u),
        add_triggers = map (\<lambda>t. toTriggerResponse (include_conditions d t))
          (sort_key (\<lambda>t. - tr_createdAt t) (find_many (\<lambda>t. tr_userId t = u_id u) (triggers d))),
        add_notificationCount = count_where (\<lambda>n. n_userId n = u_id u) (notifications d),
        add_pinnedCityCount = count_where (\<lambda>c. pc_userId c = u_id u) (pinnedCities d)\<rparr>) (find_user i d)))
     (\<lambda>user. case user of None \<Rightarrow> rejects (NotFound ''User not found'') | Some u \<Rightarrow> yields u)"

section \<open>Changing\<close>

definition assertExists :: "commit \<Rightarrow> ident \<Rightarrow> ('r, Role) act" where
  "assertExists f i =
     andThen (reads f (find_user i)) (\<lambda>user. case user of None \<Rightarrow> rejects (NotFound ''User not found'') | Some u \<Rightarrow> yields (u_role u))"

definition assertNotTheLastAdmin :: "commit \<Rightarrow> ident \<Rightarrow> ('r, unit) act" where
  "assertNotTheLastAdmin f i =
     andThen (reads f (\<lambda>d. count_where (\<lambda>u. u_role u = ADMIN \<and> u_id u \<noteq> i) (users d))) (\<lambda>others.
       if others = 0 then rejects (BadRequest (''This is the last administrator '' @ EM_DASH @ '' promote another account first''))
       else yields ())"

record UpdateUserDto =
  uu_role :: "Role option"
  uu_emailVerified :: "bool option"

definition admin_patch :: "UpdateUserDto \<Rightarrow> User \<Rightarrow> User" where
  "admin_patch dto u = u\<lparr>u_role := or_old (uu_role dto) (u_role u), u_emailVerified := or_old (uu_emailVerified dto) (u_emailVerified u)\<rparr>"

definition updateUser :: "'r redis \<Rightarrow> rat \<Rightarrow> request_env \<Rightarrow> ident \<Rightarrow> UpdateUserDto \<Rightarrow> ('r, AdminUserDetailDto) act" where
  "updateUser R ttlMs env i dto =
     andThen (assertExists (rq_sql env 0) i) (\<lambda>role.
       andThen (if role = ADMIN \<and> uu_role dto = Some USER then assertNotTheLastAdmin (rq_sql env 1) i else yields ()) (\<lambda>_.
         andThen (executes (rq_sql env 2) (update_user i (admin_patch dto))) (\<lambda>_.
           andThen (if (case uu_role dto of None \<Rightarrow> False | Some r \<Rightarrow> r \<noteq> role)
                    then asks (\<lambda>r. revokeUserTokens R (rq_io env 0) r (rq_now env) i (accessTtlSec ttlMs)) else yields True) (\<lambda>_.
             getUser (rq_sql env 3) i))))"

definition deleteUser :: "'r redis \<Rightarrow> rat \<Rightarrow> request_env \<Rightarrow> ident \<Rightarrow> ident \<Rightarrow> ('r, ident) act" where
  "deleteUser R ttlMs env actingUserId i =
     (if actingUserId = i then rejects (BadRequest ''You cannot delete your own account here'')
      else andThen (assertExists (rq_sql env 0) i) (\<lambda>role.
        andThen (if role = ADMIN then assertNotTheLastAdmin (rq_sql env 1) i else yields ()) (\<lambda>_.
          andThen (executes (rq_sql env 2) (delete_user_row i)) (\<lambda>_.
            andThen (asks (\<lambda>r. revokeUserTokens R (rq_io env 0) r (rq_now env) i (accessTtlSec ttlMs))) (\<lambda>_. yields i)))))"

definition admin_deleteTrigger :: "request_env \<Rightarrow> ident \<Rightarrow> ('r, ident) act" where
  "admin_deleteTrigger env i =
     andThen (executes (rq_sql env 0) (\<lambda>d. Inr (count_where (\<lambda>t. tr_id t = i) (triggers d), delete_triggers (\<lambda>t. tr_id t = i) d)))
       (\<lambda>count. if count = 0 then rejects (NotFound ''Trigger not found'') else yields i)"

section \<open>The last administrator\<close>

lemma getUser_same: "snd (getUser f i s) = s"
  by (cases "f = Committed") (auto simp: getUser_def act_simps split: option.splits)

lemma assertExists_cases:
  "assertExists f i s = (x, s') \<Longrightarrow> s' = s \<and> (\<forall>r. x = Inr r \<longrightarrow> (\<exists>u. find_user i (ap_db s) = Some u \<and> r = u_role u))"
  by (cases "f = Committed") (auto simp: assertExists_def act_simps split: option.splits)

lemma assertNotTheLastAdmin_cases:
  "assertNotTheLastAdmin f i s = (x, s') \<Longrightarrow>
   s' = s \<and> (\<forall>r. x = Inr r \<longrightarrow> 0 < count_where (\<lambda>u. u_role u = ADMIN \<and> u_id u \<noteq> i) (users (ap_db s)))"
  by (cases "f = Committed") (auto simp: assertNotTheLastAdmin_def act_simps split: if_splits)

lemma executes_update_user:
  "executes f (update_user i g) s = (q, w) \<Longrightarrow>
   ap_db w = ap_db s \<or> ap_db w = (ap_db s)\<lparr>users := update_many (\<lambda>v. u_id v = i) g (users (ap_db s))\<rparr>"
  by (erule executes_cases) (auto simp: update_user_Inr)

lemma executes_delete_user:
  "executes f (delete_user_row i) s = (q, w) \<Longrightarrow> ap_db w = ap_db s \<or> ap_db w = delete_user i (ap_db s)"
  by (erule executes_cases) (auto simp: delete_user_row_def split: if_splits)

lemma asks_same_db: "asks c s = (x, s') \<Longrightarrow> ap_db s' = ap_db s"
  by (auto simp: asks_def split: prod.splits)

lemma getUser_state: "getUser f i s = (x, s') \<Longrightarrow> s' = s"
  using getUser_same [of f i s] by simp

text \<open>Another administrator exists whenever the target is one and is about to stop being one.\<close>

definition covered :: "bool \<Rightarrow> ident \<Rightarrow> db \<Rightarrow> bool" where
  "covered stops i d \<longleftrightarrow> (\<exists>u. find_user i d = Some u \<and>
     (u_role u = ADMIN \<and> stops \<longrightarrow> 0 < count_where (\<lambda>v. u_role v = ADMIN \<and> u_id v \<noteq> i) (users d)))"

lemma updateUser_db:
  assumes "updateUser R ttlMs env i dto s = (x, s')"
  shows "ap_db s' = ap_db s \<or> covered (uu_role dto = Some USER) i (ap_db s) \<and>
      ap_db s' = (ap_db s)\<lparr>users := update_many (\<lambda>v. u_id v = i) (admin_patch dto) (users (ap_db s))\<rparr>"
  using assms unfolding updateUser_def
  by (elim andThenE)
    (fastforce simp: covered_def dest!: assertExists_cases assertNotTheLastAdmin_cases executes_update_user asks_same_db getUser_state split: if_splits)+

lemma deleteUser_db:
  assumes "deleteUser R ttlMs env acting i s = (x, s')"
  shows "ap_db s' = ap_db s \<or> covered True i (ap_db s) \<and> ap_db s' = delete_user i (ap_db s)"
  using assms unfolding deleteUser_def
  by (cases "acting = i")
    (auto elim!: andThenE simp: covered_def dest!: assertExists_cases assertNotTheLastAdmin_cases executes_delete_user asks_same_db split: if_splits)

lemma deleteAccount_db:
  assumes "deleteAccount R C ttlMs env i password s = (x, s')"
  shows "ap_db s' = ap_db s \<or> (\<exists>u. find_user i (ap_db s) = Some u \<and> (u_role u = ADMIN \<longrightarrow> admins (ap_db s) \<noteq> 1)) \<and>
      ap_db s' = delete_user i (ap_db s)"
  using assms unfolding deleteAccount_def
  by (auto elim!: andThenE dest!: executes_delete_user asks_same_db split: option.splits if_splits simp: reads_def)

text \<open>The ids and roles of a database, all that decides who administers it.\<close>

definition roles :: "db \<Rightarrow> (ident \<times> Role) list" where
  "roles d = map (\<lambda>u. (u_id u, u_role u)) (users d)"

definition administered :: "db \<Rightarrow> bool" where
  "administered d \<longleftrightarrow> distinct (map u_id (users d)) \<and> 0 < admins d"

lemma administered_roles: "administered d \<longleftrightarrow> distinct (map fst (roles d)) \<and> (\<exists>i. (i, ADMIN) \<in> set (roles d))"
proof -
  have "map fst (roles d) = map u_id (users d)" by (simp add: roles_def comp_def)
  moreover have "0 < admins d \<longleftrightarrow> (\<exists>i. (i, ADMIN) \<in> set (roles d))"
    by (force simp: admins_def count_where_pos_iff roles_def image_iff)
  ultimately show ?thesis by (simp add: administered_def)
qed

text \<open>
  One request at a time: role changes, deletions, registrations, and every other request, which leaves ids
  and roles as they are.
\<close>

inductive account_step :: "'r redis \<Rightarrow> crypto \<Rightarrow> jwt \<Rightarrow> auth_service \<Rightarrow> 'r api \<Rightarrow> 'r api \<Rightarrow> bool" for R C J a where
  change_role: "updateUser R (as_accessTtlMs a) env i dto s = (x, s') \<Longrightarrow> account_step R C J a s s'"
| remove: "deleteUser R (as_accessTtlMs a) env acting i s = (y, s') \<Longrightarrow> account_step R C J a s s'"
| leave: "deleteAccount R C (as_accessTtlMs a) env i password s = (z, s') \<Longrightarrow> account_step R C J a s s'"
| join: "register C J a env email password s = (t, s') \<Longrightarrow> account_step R C J a s s'"
| other: "roles (ap_db s') = roles (ap_db s) \<Longrightarrow> account_step R C J a s s'"

lemma delete_user_users [simp]: "users (delete_user i d) = delete_many (\<lambda>u. u_id u = i) (users d)"
  by (simp add: delete_user_def delete_triggers_def Let_def)

lemma other_admin_stays:
  assumes "distinct (map u_id (users d))" and "v \<in> set (users d)" "u_role v = ADMIN" "u_id v \<noteq> i"
  shows "administered (delete_user i d)" "(\<And>u. u_id (g u) = u_id u) \<Longrightarrow> administered (d\<lparr>users := update_many (\<lambda>u. u_id u = i) g (users d)\<rparr>)"
proof -
  show "administered (delete_user i d)" using assms by (auto simp: administered_def admins_def count_where_pos_iff)
  assume "\<And>u. u_id (g u) = u_id u"
  then show "administered (d\<lparr>users := update_many (\<lambda>u. u_id u = i) g (users d)\<rparr>)"
    using assms by (auto simp: administered_def admins_def count_where_pos_iff map_update_many set_update_many intro!: bexI [of _ v])
qed

lemma two_admins_other:
  assumes "distinct (map u_id (users d))" and "find_user i d = Some u" and "u_role u = ADMIN \<longrightarrow> admins d \<noteq> 1" and "0 < admins d"
  obtains v where "v \<in> set (users d)" "u_role v = ADMIN" "u_id v \<noteq> i"
proof (cases "u_role u = ADMIN")
  case False
  then show ?thesis using assms that find_user_Some [OF assms(2)] find_user_unique [OF assms(1)]
    by (auto simp: admins_def count_where_pos_iff) (metis option.inject)
next
  case True
  have "\<not> set (filter (\<lambda>u. u_role u = ADMIN) (users d)) \<subseteq> {u}"
  proof
    assume sub: "set (filter (\<lambda>u. u_role u = ADMIN) (users d)) \<subseteq> {u}"
    have "distinct (filter (\<lambda>u. u_role u = ADMIN) (users d))" using assms(1) by (simp add: distinct_map)
    then have "admins d \<le> 1" using sub card_mono [OF _ sub] by (simp add: admins_def count_where_def distinct_card [symmetric])
    then show False using assms(3,4) True by simp
  qed
  then show ?thesis using that assms(1) find_user_Some [OF assms(2)] unfolding distinct_map inj_on_def by auto
qed

lemma users_kept: "users (snd (revoke_where p d)) = users d" "create_refresh r d = Inr (x, d') \<Longrightarrow> users d' = users d"
  by (auto simp: create_refresh_def split: if_splits)

lemma register_roles:
  assumes "register C J a env email password s = (t, s')"
  shows "roles (ap_db s') = roles (ap_db s) \<or>
    (find_user (rq_uuid env 1) (ap_db s) = None \<and> roles (ap_db s') = roles (ap_db s) @ [(rq_uuid env 1, USER)])"
proof -
  have issue: "roles (ap_db v) = roles (ap_db w)" if "issueTokens C J a env n k i em w = (y, v)" for n k i em w y v
    using that unfolding issueTokens_def Let_def
    by (auto elim!: andThenE executes_cases simp: roles_def reads_def users_kept split: if_splits dest!: users_kept(2))
  have mail: "roles (ap_db v) = roles (ap_db w)" if "sendVerificationEmail C a env n k i em w = (y, v)" for n k i em w y v
    using that unfolding sendVerificationEmail_def Let_def
    by (auto elim!: andThenE dest!: executes_update_user simp: roles_def map_update_many sendDetached_def split: if_splits)
  have new: "roles (ap_db v) = roles (ap_db w) \<or>
      (find_user (rq_uuid env 1) (ap_db w) = None \<and> roles (ap_db v) = roles (ap_db w) @ [(rq_uuid env 1, USER)])"
    if "executes f (users_create (rq_uuid env 1) (rq_now env) email h) w = (y, v)" for f h w y v
    using that by (auto elim!: executes_cases simp: users_create_def roles_def new_user_def Let_def split: if_splits)
  show ?thesis using assms unfolding register_def Let_def
    by (auto elim!: andThenE dest!: issue mail new simp: reads_def split: if_splits simp del: One_nat_def)
qed

lemma administered_step:
  assumes "account_step R C J a s s'" and "administered (ap_db s)" shows "administered (ap_db s')"
proof -
  have d: "distinct (map u_id (users (ap_db s)))" "0 < admins (ap_db s)" using assms(2) by (auto simp: administered_def)
  have cov: "\<exists>v \<in> set (users (ap_db s)). u_role v = ADMIN \<and> u_id v \<noteq> i" if "covered True i (ap_db s)" for i
  proof (cases "\<exists>u. find_user i (ap_db s) = Some u \<and> u_role u = ADMIN")
    case True
    then show ?thesis using that by (auto simp: covered_def count_where_pos_iff)
  next
    case False
    then show ?thesis using that d find_user_unique [OF d(1)] by (auto simp: covered_def admins_def count_where_pos_iff)
  qed
  from assms(1) show ?thesis
  proof cases
    case (change_role env i dto x)
    from updateUser_db [OF this] show ?thesis
    proof (elim disjE conjE)
      assume cv: "covered (uu_role dto = Some USER) i (ap_db s)"
        and s': "ap_db s' = (ap_db s)\<lparr>users := update_many (\<lambda>v. u_id v = i) (admin_patch dto) (users (ap_db s))\<rparr>"
      show ?thesis
      proof (cases "uu_role dto = Some USER")
        case True
        then obtain v where "v \<in> set (users (ap_db s))" "u_role v = ADMIN" "u_id v \<noteq> i" using cv cov [of i] by auto
        then show ?thesis unfolding s' using other_admin_stays(2) [OF d(1)] by (simp add: admin_patch_def)
      next
        case False
        then have "u_role u = ADMIN \<Longrightarrow> u_role (admin_patch dto u) = ADMIN" for u
          by (cases "uu_role dto") (auto simp: admin_patch_def or_old_def, metis Role.exhaust)
        then have "(if u_id v = i then admin_patch dto v else v) \<in> set (users (ap_db s')) \<and>
            u_role (if u_id v = i then admin_patch dto v else v) = ADMIN" if "v \<in> set (users (ap_db s))" "u_role v = ADMIN" for v
          using that by (simp add: s' set_update_many)
        moreover obtain v where "v \<in> set (users (ap_db s))" "u_role v = ADMIN" using d(2) by (auto simp: admins_def count_where_pos_iff)
        moreover have "distinct (map u_id (users (ap_db s')))" using d(1) by (simp add: s' map_update_many admin_patch_def)
        ultimately show ?thesis unfolding administered_def admins_def count_where_pos_iff by blast
      qed
    qed (simp add: assms(2))
  next
    case (remove env acting i y)
    from deleteUser_db [OF this] show ?thesis using cov [of i] other_admin_stays(1) [OF d(1)] assms(2) by auto
  next
    case (leave env i password z)
    from deleteAccount_db [OF this] show ?thesis
      using two_admins_other [OF d(1) _ _ d(2), of i] other_admin_stays(1) [OF d(1)] assms(2) by (metis (no_types, lifting))
  next
    case (join env email password t)
    from register_roles [OF this] assms(2) show ?thesis
      by (auto simp: administered_roles) (auto simp: roles_def find_user_def find_unique_None comp_def)
  next
    case other
    then show ?thesis using assms(2) by (simp add: administered_roles)
  qed
qed

text \<open>
  C26: the administration never locks itself out. From a database with an administrator, however many
  accounts are promoted, demoted, deleted by others, deleted by their owners or registered, one request
  after the other and with any of their statements failing, there is always an administrator left.
\<close>

theorem admin_survives:
  assumes "(account_step R C J a)\<^sup>*\<^sup>* s s'" and "administered (ap_db s)"
  shows "administered (ap_db s')"
  using assms by (induction rule: rtranclp_induct) (auto intro: administered_step)

section \<open>Concrete requests\<close>

definition boss :: User where
  "boss = alice\<lparr>u_id := ''b1'', u_email := ''b@x.io'', u_role := ADMIN\<rparr>"

definition staffed :: "(string \<Rightarrow> entry option) api" where
  "staffed = api0\<lparr>ap_db := empty_db\<lparr>users := [alice\<lparr>u_role := ADMIN\<rparr>, boss]\<rparr>\<rparr>"

definition demote :: UpdateUserDto where
  "demote = \<lparr>uu_role = Some USER, uu_emailVerified = None\<rparr>"

lemmas admin_samples = boss_def staffed_def demote_def

definition demoted :: "(string \<Rightarrow> entry option) api" where
  "demoted = snd (updateUser mem_redis 900000 (later 1000) ''u1'' demote staffed)"

theorem admin_survives_witness: "administered (ap_db demoted)"
proof (rule admin_survives)
  show "administered (ap_db staffed)"
    by (simp add: administered_def admins_def count_where_def admin_samples auth_samples)
  have "account_step mem_redis plain_crypto toy_jwt auth0 staffed demoted"
    unfolding demoted_def by (rule change_role [where env = "later 1000" and i = "''u1''" and dto = demote
      and x = "fst (updateUser mem_redis 900000 (later 1000) ''u1'' demote staffed)"]) (simp add: auth0_def)
  then show "(account_step mem_redis plain_crypto toy_jwt auth0)\<^sup>*\<^sup>* staffed demoted" by simp
qed

text \<open>
  Two findings. The check and the write of a demotion are separate statements: two administrators demoting each
  other at the same time both pass the check, and nobody is left. And the deny marker of a role change is
  per user, not per token: it refuses the tokens issued after the change as well, so the user stays
  locked out for the whole lifetime of an access token, refreshing or not.
\<close>

lemma concurrent_demotions_lock_out:
  "\<exists>d d1 d2. admins d = 2 \<and> 0 < count_where (\<lambda>u. u_role u = ADMIN \<and> u_id u \<noteq> ''u1'') (users d) \<and>
     0 < count_where (\<lambda>u. u_role u = ADMIN \<and> u_id u \<noteq> ''b1'') (users d) \<and>
     update_user ''u1'' (admin_patch demote) d = Inr ((), d1) \<and> update_user ''b1'' (admin_patch demote) d1 = Inr ((), d2) \<and>
     admins d2 = 0"
  by (rule exI [of _ "ap_db staffed"])
    (simp add: admins_def count_where_def update_user_def find_user_def find_unique_def users_unique_def unique_some_def
      admin_patch_def or_old_def admin_samples auth_samples)

lemma role_change_locks_out:
  assumes "redis_spec R view" and "0 < accessTtlSec ttlMs"
    and "updateUser R ttlMs env i dto s = (Inr x, s')" and "find_user i (ap_db s) = Some u" "uu_role dto = Some r" "r \<noteq> u_role u"
    and "rq_io env 0 = Replied" and "t < rq_now env + 1000 * accessTtlSec ttlMs" and "i \<noteq> []"
  shows "jwt_canActivate R Replied t (Some (jwt_validate (i, email, role))) (ap_redis s') =
    Inl (Unauthorized ''This session is no longer valid'')"
proof -
  have "\<exists>q. ap_redis s' = snd (revokeUserTokens R Replied q (rq_now env) i (accessTtlSec ttlMs))"
    using assms(3-7) unfolding updateUser_def
    by (auto simp: andThen_Inr asks_eq assertExists_def split: option.splits if_splits dest!: getUser_state)
  then show ?thesis using redis_spec.revoke_denies [OF assms(1,2) _ assms(8)] assms(9)
    by (auto simp: jwt_canActivate_def jwt_validate_def)
qed

end
