(* ===== verification/History.thy ===== *)
theory History
  imports ApiBase
begin

text \<open>
  \<open>notifications.service.ts\<close> and \<open>pinned-cities.service.ts\<close> of core-api: the delivery history a user sees,
  the nightly sweep that bounds it, and the pinned cities. The sweep deletes in chunks under a lock it
  renews before every chunk, while other processes keep writing; it is modelled with their writes.
\<close>

section \<open>The history (notifications.service.ts)\<close>

definition DEFAULT_RETENTION_DAYS :: rat where "DEFAULT_RETENTION_DAYS = 90"
definition HISTORY_LOCK_KEY :: string where "HISTORY_LOCK_KEY = ''core-api:notifications:prune''"
definition HISTORY_LOCK_TTL_SEC :: int where "HISTORY_LOCK_TTL_SEC = 600"
definition PRUNE_CHUNK :: nat where "PRUNE_CHUNK = 5000"

definition retentionDays :: "cfg \<Rightarrow> rat" where
  "retentionDays configured = positive_or DEFAULT_RETENTION_DAYS (js_Number configured)"

record NotificationResponseDto =
  nr_id :: ident
  nr_triggerId :: "ident option"
  nr_channel :: Channel
  nr_status :: NotifStatus
  nr_payload :: TriggerFiredEvent
  nr_error :: "string option"
  nr_createdAt :: instant

definition toNotificationResponse :: "Notification \<Rightarrow> NotificationResponseDto" where
  "toNotificationResponse row =
     \<lparr>nr_id = n_id row, nr_triggerId = n_triggerId row, nr_channel = n_channel row, nr_status = n_status row,
      nr_payload = n_payload row, nr_error = n_error row, nr_createdAt = n_createdAt row\<rparr>"

definition findAll :: "request_env \<Rightarrow> ident \<Rightarrow> PaginationDto \<Rightarrow> ('r, NotificationResponseDto PaginatedResult) act" where
  "findAll env userId dto =
     andThen (reads (rq_sql env 0) (\<lambda>d. paginate n_createdAt (\<lambda>n. n_userId n = userId) dto (notifications d))) (\<lambda>p.
       yields \<lparr>pg_items = map toNotificationResponse (pg_items p), pg_total = pg_total p, pg_page = pg_page p, pg_limit = pg_limit p\<rparr>)"

definition delete_notifications :: "(Notification \<Rightarrow> bool) \<Rightarrow> db \<Rightarrow> nat \<times> db" where
  "delete_notifications p d = (count_where p (notifications d), d\<lparr>notifications := delete_many p (notifications d)\<rparr>)"

definition remove_notification :: "request_env \<Rightarrow> ident \<Rightarrow> ident \<Rightarrow> ('r, ident) act" where
  "remove_notification env userId i =
     andThen (executes (rq_sql env 0) (\<lambda>d. Inr (delete_notifications (\<lambda>n. n_id n = i \<and> n_userId n = userId) d))) (\<lambda>count.
       if count = 0 then rejects (NotFound ''Notification not found'') else yields i)"

definition clear :: "request_env \<Rightarrow> ident \<Rightarrow> ('r, nat) act" where
  "clear env userId = executes (rq_sql env 0) (\<lambda>d. Inr (delete_notifications (\<lambda>n. n_userId n = userId) d))"

section \<open>The sweep\<close>

text \<open>
  \<open>new Date(x)\<close>: invalid beyond 8.64e15 milliseconds, otherwise cut to an integer. The product and the
  difference are rounded like every double operation. A query with an invalid date is refused by the client.
\<close>

definition date_of :: "rat \<Rightarrow> instant option" where
  "date_of x = (if \<bar>x\<bar> \<le> 8640000000000000 then Some (if 0 \<le> x then \<lfloor>x\<rfloor> else \<lceil>x\<rceil>) else None)"

definition sweep_before :: "rat \<Rightarrow> instant \<Rightarrow> instant option" where
  "sweep_before days now = date_of (rnd64 (of_int now - rnd64 (rnd64 (days * 24) * 3600000)))"

text \<open>
  The run of a sweep: the clock and the fate of its lock commands (0 is the acquisition, then one renewal
  per chunk), the fate of its statements (two per chunk), the last command's, and what the other processes
  write before each of its statements.
\<close>

record sweep_env =
  se_now :: instant
  se_token :: string
  se_clock :: "nat \<Rightarrow> instant"
  se_io :: "nat \<Rightarrow> io"
  se_sql :: "nat \<Rightarrow> commit"
  se_end :: instant
  se_release :: io
  se_others :: "nat \<Rightarrow> db \<Rightarrow> db"

definition history_renewLock :: "'r redis \<Rightarrow> io \<Rightarrow> 'r \<Rightarrow> instant \<Rightarrow> string \<Rightarrow> bool \<times> 'r" where
  "history_renewLock R c r now token =
     (case extendLock R c r now HISTORY_LOCK_KEY token HISTORY_LOCK_TTL_SEC of
        (Inl _, r') \<Rightarrow> (False, r')
      | (Inr b, r') \<Rightarrow> (b, r'))"

definition doomed :: "commit \<Rightarrow> instant option \<Rightarrow> db \<Rightarrow> (db_error, ident list) result" where
  "doomed c before d =
     (case before of
        None \<Rightarrow> Inl InvalidQuery
      | Some t \<Rightarrow> if c = Committed then Inr (map n_id (take PRUNE_CHUNK (filter (\<lambda>n. n_createdAt n < t) (notifications d))))
                  else Inl DbDown)"

text \<open>The value is the number of rows removed, or nothing when the lock was lost on the way.\<close>

partial_function (option) prune_loop ::
  "'r redis \<Rightarrow> sweep_env \<Rightarrow> instant option \<Rightarrow> string \<Rightarrow> nat \<Rightarrow> nat \<Rightarrow> 'r api \<Rightarrow> ((db_error, nat option) result \<times> 'r api) option" where
  "prune_loop R env before token k removed s =
     (case history_renewLock R (se_io env (Suc k)) (ap_redis s) (se_clock env (Suc k)) token of
        (held, r) \<Rightarrow>
          let s1 = s\<lparr>ap_redis := r, ap_db := se_others env (2 * k) (ap_db s)\<rparr> in
          if \<not> held then Some (Inr None, s1)
          else case doomed (se_sql env (2 * k)) before (ap_db s1) of
                 Inl e \<Rightarrow> Some (Inl e, s1)
               | Inr ids \<Rightarrow>
                   if ids = [] then Some (Inr (Some removed), s1)
                   else let d1 = se_others env (Suc (2 * k)) (ap_db s1) in
                     case transact (se_sql env (Suc (2 * k))) d1 (Inr (delete_notifications (\<lambda>n. n_id n \<in> set ids) d1)) of
                       (Inl e, d2) \<Rightarrow> Some (Inl e, s1\<lparr>ap_db := d2\<rparr>)
                     | (Inr count, d2) \<Rightarrow> prune_loop R env before token (Suc k) (removed + count) (s1\<lparr>ap_db := d2\<rparr>))"

definition pruneExpired :: "'r redis \<Rightarrow> rat \<Rightarrow> sweep_env \<Rightarrow> 'r api \<Rightarrow> ((http_error, unit) result \<times> 'r api) option" where
  "pruneExpired R days env s =
     (case acquireLock R (se_io env 0) (ap_redis s) (se_clock env 0) (se_token env) HISTORY_LOCK_KEY HISTORY_LOCK_TTL_SEC of
        (Inl _, r) \<Rightarrow> Some (Inl CacheError, s\<lparr>ap_redis := r\<rparr>)
      | (Inr None, r) \<Rightarrow> Some (Inr (), s\<lparr>ap_redis := r\<rparr>)
      | (Inr (Some token), r) \<Rightarrow>
          (case prune_loop R env (sweep_before days (se_now env)) token 0 0 (s\<lparr>ap_redis := r\<rparr>) of
             None \<Rightarrow> None
           | Some (res, s') \<Rightarrow>
               (case releaseLock R (se_release env) (ap_redis s') (se_end env) HISTORY_LOCK_KEY token of
                  (Inl _, r') \<Rightarrow> Some (Inl CacheError, s'\<lparr>ap_redis := r'\<rparr>)
                | (Inr _, r') \<Rightarrow> Some (map_sum DatabaseError (\<lambda>_. ()) res, s'\<lparr>ap_redis := r'\<rparr>))))"

section \<open>Pinned cities (pinned-cities.service.ts)\<close>

record PinnedCityResponseDto =
  pr_id :: ident
  pr_name :: string
  pr_country :: "string option"
  pr_admin1 :: "string option"
  pr_latitude :: rat
  pr_longitude :: rat
  pr_order :: int
  pr_createdAt :: instant

definition toPinnedCityResponse :: "PinnedCity \<Rightarrow> PinnedCityResponseDto" where
  "toPinnedCityResponse row =
     \<lparr>pr_id = pc_id row, pr_name = pc_name row, pr_country = pc_country row, pr_admin1 = pc_admin1 row,
      pr_latitude = pc_latitude row, pr_longitude = pc_longitude row, pr_order = pc_order row, pr_createdAt = pc_createdAt row\<rparr>"

record CreatePinnedCityDto =
  cp_name :: string
  cp_country :: "string option"
  cp_admin1 :: "string option"
  cp_latitude :: rat
  cp_longitude :: rat

text \<open>\<open>orderBy [order, createdAt]\<close>: a stable sort by the second column and then by the first.\<close>

definition pinned_findAll :: "request_env \<Rightarrow> ident \<Rightarrow> ('r, PinnedCityResponseDto list) act" where
  "pinned_findAll env userId =
     reads (rq_sql env 0) (\<lambda>d. map toPinnedCityResponse
       (sort_key pc_order (sort_key pc_createdAt (find_many (\<lambda>c. pc_userId c = userId) (pinnedCities d)))))"

definition pinned_insert :: "PinnedCity \<Rightarrow> db \<Rightarrow> (db_error, PinnedCity \<times> db) result" where
  "pinned_insert c d =
     (if (\<exists>x \<in> set (pinnedCities d). (pc_userId x, pc_latitude x, pc_longitude x) = (pc_userId c, pc_latitude c, pc_longitude c))
         \<or> (\<exists>x \<in> set (pinnedCities d). pc_id x = pc_id c)
      then Inl UniqueViolation
      else if (\<exists>u \<in> set (users d). u_id u = pc_userId c) then Inr (c, d\<lparr>pinnedCities := pinnedCities d @ [c]\<rparr>)
      else Inl ForeignKeyViolation)"

definition pinned_create :: "request_env \<Rightarrow> ident \<Rightarrow> CreatePinnedCityDto \<Rightarrow> ('r, PinnedCityResponseDto) act" where
  "pinned_create env userId dto =
     andThen (reads (rq_sql env 0) (\<lambda>d. count_where (\<lambda>c. pc_userId c = userId) (pinnedCities d))) (\<lambda>count.
       if maxPinnedCities API_LIMITS \<le> count
       then rejects (BadRequest (''Pinned city limit reached (max '' @ show_nat (maxPinnedCities API_LIMITS) @ '')''))
       else andThen (query (rq_sql env 1) (pinned_insert
              \<lparr>pc_id = rq_uuid env 0, pc_userId = userId, pc_name = cp_name dto, pc_country = cp_country dto, pc_admin1 = cp_admin1 dto,
               pc_latitude = cp_latitude dto, pc_longitude = cp_longitude dto, pc_order = int count, pc_createdAt = rq_now env\<rparr>)) (\<lambda>res.
              case res of
                Inr created \<Rightarrow> yields (toPinnedCityResponse created)
              | Inl UniqueViolation \<Rightarrow> rejects (BadRequest ''City is already pinned'')
              | Inl e \<Rightarrow> rejects (DatabaseError e)))"

definition pinned_remove :: "request_env \<Rightarrow> ident \<Rightarrow> ident \<Rightarrow> ('r, ident) act" where
  "pinned_remove env userId i =
     andThen (executes (rq_sql env 0) (\<lambda>d. Inr ((), d\<lparr>pinnedCities := delete_many (\<lambda>c. pc_id c = i \<and> pc_userId c = userId) (pinnedCities d)\<rparr>)))
       (\<lambda>_. yields i)"

section \<open>The sweep ends and removes exactly what is old\<close>

definition old :: "instant \<Rightarrow> db \<Rightarrow> ident set" where
  "old t d = n_id ` {n \<in> set (notifications d). n_createdAt n < t}"

lemma old_finite [simp]: "finite (old t d)"
  by (simp add: old_def)

text \<open>
  What the rest of the system does to the table while the sweep runs: a row gets its creation time when
  it is inserted, so nobody adds a row that is already old, and ids stay unique.
\<close>

definition modest :: "instant \<Rightarrow> (nat \<Rightarrow> db \<Rightarrow> db) \<Rightarrow> bool" where
  "modest t others \<longleftrightarrow> (\<forall>k d. old t (others k d) \<subseteq> old t d \<and>
     (distinct (map n_id (notifications d)) \<longrightarrow> distinct (map n_id (notifications (others k d)))))"

definition kept_by :: "(nat \<Rightarrow> db \<Rightarrow> db) \<Rightarrow> Notification \<Rightarrow> bool" where
  "kept_by others f \<longleftrightarrow> (\<forall>k d. f \<in> set (notifications d) \<longrightarrow> f \<in> set (notifications (others k d)))"

text \<open>Nothing fails, and a chunk never takes longer than the lease.\<close>

definition steady :: "sweep_env \<Rightarrow> bool" where
  "steady env \<longleftrightarrow> (\<forall>k. se_io env k = Replied \<and> se_sql env k = Committed \<and>
     se_clock env (Suc k) < se_clock env k + 1000 * HISTORY_LOCK_TTL_SEC)"

lemma old_delete: "old t (snd (delete_notifications (\<lambda>n. n_id n \<in> S) d)) = old t d - S"
  by (auto simp: old_def delete_notifications_def)

lemma doomed_old:
  assumes "doomed c (Some t) d = Inr ids"
  shows "set ids \<subseteq> old t d \<and> (ids = [] \<longrightarrow> old t d = {})"
proof -
  let ?l = "filter (\<lambda>n. n_createdAt n < t) (notifications d)"
  have ids: "ids = map n_id (take PRUNE_CHUNK ?l)" using assms by (simp add: doomed_def split: if_splits)
  then have "set ids \<subseteq> n_id ` set ?l" using image_mono [OF set_take_subset] by (simp only: set_map)
  moreover have "ids = [] \<longrightarrow> ?l = []" using ids by (simp add: PRUNE_CHUNK_def)
  moreover have "old t d = n_id ` set ?l" by (simp add: old_def)
  ultimately show ?thesis by (metis empty_set image_empty)
qed

lemma fresh_not_old:
  "distinct (map n_id (notifications d)) \<Longrightarrow> f \<in> set (notifications d) \<Longrightarrow> t \<le> n_createdAt f \<Longrightarrow> n_id f \<notin> old t d"
  by (fastforce simp: old_def distinct_map dest: inj_onD)

context redis_spec
begin

lemma history_renew:
  assumes "view r HISTORY_LOCK_KEY = Some (tok, Some e)" and "now < e"
  shows "\<exists>r'. history_renewLock R Replied r now tok = (True, r') \<and>
    view r' HISTORY_LOCK_KEY = Some (tok, Some (now + 1000 * HISTORY_LOCK_TTL_SEC))"
  using assms pexpire_live [of now r HISTORY_LOCK_KEY tok "Some e" "1000 * HISTORY_LOCK_TTL_SEC"]
  by (cases "rpexpire R r now HISTORY_LOCK_KEY (1000 * HISTORY_LOCK_TTL_SEC)")
    (simp add: history_renewLock_def extendLock_def EXTEND_IF_OWNED_def get HISTORY_LOCK_TTL_SEC_def)

lemma release_frees:
  assumes "view r k = Some (tok, Some e)"
  shows "\<exists>b r'. releaseLock R Replied r now k tok = (Inr b, r') \<and> live now (view r' k) = None"
  using assms del_effect [of r now k]
  by (cases "rdel R r now k") (auto simp: releaseLock_def RELEASE_IF_OWNED_def get)

end

lemma prune_loop_chunk:
  assumes "history_renewLock R (se_io env (Suc k)) (ap_redis s) (se_clock env (Suc k)) tok = (held, r)"
    and "s1 = s\<lparr>ap_redis := r, ap_db := se_others env (2 * k) (ap_db s)\<rparr>"
  shows "prune_loop R env (Some t) tok k removed s =
    (if \<not> held then Some (Inr None, s1)
       else case doomed (se_sql env (2 * k)) (Some t) (ap_db s1) of
              Inl e \<Rightarrow> Some (Inl e, s1)
            | Inr ids \<Rightarrow> if ids = [] then Some (Inr (Some removed), s1)
                else case transact (se_sql env (Suc (2 * k))) (se_others env (Suc (2 * k)) (ap_db s1))
                       (Inr (delete_notifications (\<lambda>n. n_id n \<in> set ids) (se_others env (Suc (2 * k)) (ap_db s1)))) of
                     (Inl e, d2) \<Rightarrow> Some (Inl e, s1\<lparr>ap_db := d2\<rparr>)
                   | (Inr count, d2) \<Rightarrow> prune_loop R env (Some t) tok (Suc k) (removed + count) (s1\<lparr>ap_db := d2\<rparr>))"
  by (subst prune_loop.simps) (simp only: assms prod.case Let_def)

text \<open>The loop, from any chunk on, with the rows that are still old as the measure.\<close>

lemma prune_loop_ends:
  assumes "modest t (se_others env)" and "distinct (map n_id (notifications (ap_db s)))"
  shows "\<exists>x s'. prune_loop R env (Some t) tok k removed s = Some (x, s') \<and>
    (\<forall>f \<in> set (notifications (ap_db s)). t \<le> n_createdAt f \<and> kept_by (se_others env) f \<longrightarrow> f \<in> set (notifications (ap_db s'))) \<and>
    (redis_spec R view \<and> steady env \<and>
       view (ap_redis s) HISTORY_LOCK_KEY = Some (tok, Some (se_clock env k + 1000 * HISTORY_LOCK_TTL_SEC)) \<longrightarrow>
     (\<exists>n j. x = Inr (Some n) \<and> old t (ap_db s') = {} \<and>
       view (ap_redis s') HISTORY_LOCK_KEY = Some (tok, Some (se_clock env j + 1000 * HISTORY_LOCK_TTL_SEC))))"
  (is "\<exists>x s'. _ \<and> ?keep s s' \<and> (?ok k s \<longrightarrow> ?fin x s')")
  using assms(2)
proof (induction "card (old t (ap_db s))" arbitrary: s k removed rule: less_induct)
  case less
  obtain held r where h: "history_renewLock R (se_io env (Suc k)) (ap_redis s) (se_clock env (Suc k)) tok = (held, r)" by force
  define s1 where "s1 = s\<lparr>ap_redis := r, ap_db := se_others env (2 * k) (ap_db s)\<rparr>"
  have d1: "distinct (map n_id (notifications (ap_db s1)))" and o1: "old t (ap_db s1) \<subseteq> old t (ap_db s)"
    and k1: "?keep s s1" using assms(1) less.prems by (auto simp: s1_def modest_def kept_by_def)
  have ok1: "held \<and> ?ok (Suc k) s1" if "?ok k s"
    using that redis_spec.history_renew [of R view "ap_redis s" tok _ "se_clock env (Suc k)"] h
    by (fastforce simp: s1_def steady_def)
  note unfolded = prune_loop_chunk [OF h s1_def, where t = t and removed = removed]
  show ?case
  proof (cases "held \<and> (\<exists>ids. doomed (se_sql env (2 * k)) (Some t) (ap_db s1) = Inr ids \<and> ids \<noteq> [])")
    case False
    let ?q = "doomed (se_sql env (2 * k)) (Some t) (ap_db s1)"
    let ?x = "if \<not> held then Inr None else case ?q of Inl e \<Rightarrow> Inl e | Inr _ \<Rightarrow> Inr (Some removed)"
    have x: "prune_loop R env (Some t) tok k removed s = Some (?x, s1)"
      using False unfolding unfolded by (cases held; cases ?q) simp_all
    have "?fin ?x s1" if ok: "?ok k s"
    proof -
      have "held" and ok': "?ok (Suc k) s1" using ok1 [OF ok] by simp_all
      moreover obtain ids where ids: "?q = Inr ids" using ok by (auto simp: steady_def doomed_def)
      ultimately have "ids = []" using False by blast
      then show ?thesis using doomed_old [OF ids] ids \<open>held\<close> ok' by auto
    qed
    then show ?thesis using x k1 by blast
  next
    case True
    then obtain ids where ids: "doomed (se_sql env (2 * k)) (Some t) (ap_db s1) = Inr ids" "ids \<noteq> []" and held by blast
    define d where "d = se_others env (Suc (2 * k)) (ap_db s1)"
    define s2 where "s2 = s1\<lparr>ap_db := snd (delete_notifications (\<lambda>n. n_id n \<in> set ids) d)\<rparr>"
    have sub: "set ids \<subseteq> old t (ap_db s1)" using doomed_old [OF ids(1)] by simp
    have od: "old t d \<subseteq> old t (ap_db s1)" and dd: "distinct (map n_id (notifications d))"
      using assms(1) d1 by (auto simp: d_def modest_def)
    have kd: "f \<in> set (notifications (ap_db s2)) \<and> f \<in> set (notifications d)"
      if "f \<in> set (notifications (ap_db s1))" "t \<le> n_createdAt f" "kept_by (se_others env) f" for f
      using that fresh_not_old [OF d1 that(1,2)] sub by (auto simp: s2_def d_def kept_by_def delete_notifications_def)
    have "old t (ap_db s2) \<subset> old t (ap_db s)" using sub ids(2) od o1 by (fastforce simp: s2_def old_delete neq_Nil_conv)
    then have less': "card (old t (ap_db s2)) < card (old t (ap_db s))" by (simp add: psubset_card_mono)
    have d2: "distinct (map n_id (notifications (ap_db s2)))" using dd by (simp add: s2_def delete_notifications_def)
    have "steady env \<Longrightarrow> se_sql env (Suc (2 * k)) = Committed" by (simp add: steady_def)
    then consider (lost) e s3 where "prune_loop R env (Some t) tok k removed s = Some (Inl e, s3)" "s3 = s2 \<or> s3 = s1\<lparr>ap_db := d\<rparr>" "\<not> steady env"
      | (next_chunk) n where "prune_loop R env (Some t) tok k removed s = prune_loop R env (Some t) tok (Suc k) n s2"
      using \<open>held\<close> ids
      by (cases "se_sql env (Suc (2 * k))"; cases "delete_notifications (\<lambda>n. n_id n \<in> set ids) d")
        (auto simp: unfolded d_def [symmetric] s2_def split: prod.splits)
    then show ?thesis
    proof cases
      case lost
      then have "?keep s s3" using k1 kd by auto
      with lost show ?thesis by blast
    next
      case next_chunk
      from less.hyps [OF less' d2, of "Suc k" n] obtain x s' where ih: "prune_loop R env (Some t) tok (Suc k) n s2 = Some (x, s')"
        "?keep s2 s'" "?ok (Suc k) s2 \<longrightarrow> ?fin x s'" by blast
      have "?keep s s'" using k1 kd ih(2) by blast
      moreover have "?ok k s \<longrightarrow> ?fin x s'" using ok1 ih(3) by (auto simp: s2_def)
      ultimately show ?thesis using next_chunk ih(1) by auto
    qed
  qed
qed

text \<open>
  C21: the nightly sweep of the history always ends, and does its work. While other processes keep adding
  and deleting rows, the loop stops after finitely many chunks whatever fails; a row younger than the
  retention window that nobody else deletes is never lost to it; and when nothing fails, the lock was free
  and no chunk outlasts the lease, no older row is left and the lock is free again.
\<close>

theorem sweep_complete:
  assumes "sweep_before days (se_now env) = Some t" and "modest t (se_others env)"
    and "distinct (map n_id (notifications (ap_db s)))"
  shows "\<exists>x s'. pruneExpired R days env s = Some (x, s') \<and>
    (\<forall>f \<in> set (notifications (ap_db s)). t \<le> n_createdAt f \<and> kept_by (se_others env) f \<longrightarrow> f \<in> set (notifications (ap_db s'))) \<and>
    (redis_spec R view \<and> steady env \<and> se_release env = Replied \<and>
       live (se_clock env 0) (view (ap_redis s) HISTORY_LOCK_KEY) = None \<longrightarrow>
     x = Inr () \<and> old t (ap_db s') = {} \<and> live (se_end env) (view (ap_redis s') HISTORY_LOCK_KEY) = None)"
proof -
  obtain a r where a: "acquireLock R (se_io env 0) (ap_redis s) (se_clock env 0) (se_token env) HISTORY_LOCK_KEY HISTORY_LOCK_TTL_SEC = (a, r)"
    by force
  have ok: "a = Inr (Some (se_token env)) \<and> view r HISTORY_LOCK_KEY = Some (se_token env, Some (se_clock env 0 + 1000 * HISTORY_LOCK_TTL_SEC))"
    if R: "redis_spec R view" "se_io env 0 = Replied" "live (se_clock env 0) (view (ap_redis s) HISTORY_LOCK_KEY) = None"
  proof -
    note ls = redis_spec.is_lock_service [OF R(1)]
    have "a = Inr (Some (se_token env))"
      using lock_service.acquire_free [OF ls R(3), of HISTORY_LOCK_TTL_SEC "se_token env"] a R(2) by (simp add: HISTORY_LOCK_TTL_SEC_def)
    then show ?thesis using lock_service.acquire_grants [OF ls, of _ _ _ _ _ _ "se_token env" r] a by (simp add: HISTORY_LOCK_TTL_SEC_def)
  qed
  show ?thesis
  proof (cases "\<exists>tok. a = Inr (Some tok)")
    case False
    then have "\<not> (redis_spec R view \<and> steady env \<and> live (se_clock env 0) (view (ap_redis s) HISTORY_LOCK_KEY) = None)"
      using ok steady_def by blast
    moreover have "\<exists>x. pruneExpired R days env s = Some (x, s\<lparr>ap_redis := r\<rparr>)"
      using False a by (auto simp: pruneExpired_def split: sum.splits option.splits)
    ultimately show ?thesis by auto
  next
    case True
    then obtain tok where tok: "a = Inr (Some tok)" by blast
    let ?s = "s\<lparr>ap_redis := r\<rparr>"
    have "distinct (map n_id (notifications (ap_db ?s)))" using assms(3) by simp
    from prune_loop_ends [OF assms(2) this, of R tok 0 0 view] obtain x s' where
      x: "prune_loop R env (Some t) tok 0 0 ?s = Some (x, s')"
        "\<forall>f \<in> set (notifications (ap_db s)). t \<le> n_createdAt f \<and> kept_by (se_others env) f \<longrightarrow> f \<in> set (notifications (ap_db s'))"
      and fin: "redis_spec R view \<Longrightarrow> steady env \<Longrightarrow> view r HISTORY_LOCK_KEY = Some (tok, Some (se_clock env 0 + 1000 * HISTORY_LOCK_TTL_SEC)) \<Longrightarrow>
        \<exists>n j. x = Inr (Some n) \<and> old t (ap_db s') = {} \<and>
          view (ap_redis s') HISTORY_LOCK_KEY = Some (tok, Some (se_clock env j + 1000 * HISTORY_LOCK_TTL_SEC))"
      by auto
    obtain b r' where b: "releaseLock R (se_release env) (ap_redis s') (se_end env) HISTORY_LOCK_KEY tok = (b, r')" by force
    let ?x = "case b of Inl _ \<Rightarrow> Inl CacheError | Inr _ \<Rightarrow> map_sum DatabaseError (\<lambda>_. ()) x"
    have "pruneExpired R days env s = Some (?x, s'\<lparr>ap_redis := r'\<rparr>)"
      using a tok x(1) b assms(1) by (simp add: pruneExpired_def split: sum.splits)
    moreover have "?x = Inr () \<and> old t (ap_db s') = {} \<and> live (se_end env) (view r' HISTORY_LOCK_KEY) = None"
      if R: "redis_spec R view" "steady env" "se_release env = Replied" "live (se_clock env 0) (view (ap_redis s) HISTORY_LOCK_KEY) = None"
    proof -
      have "tok = se_token env" "view r HISTORY_LOCK_KEY = Some (tok, Some (se_clock env 0 + 1000 * HISTORY_LOCK_TTL_SEC))"
        using ok [OF R(1) _ R(4)] R(2) tok by (auto simp: steady_def)
      from fin [OF R(1,2) this(2)] obtain n j where "x = Inr (Some n)" "old t (ap_db s') = {}"
        and v: "view (ap_redis s') HISTORY_LOCK_KEY = Some (tok, Some (se_clock env j + 1000 * HISTORY_LOCK_TTL_SEC))" by blast
      with redis_spec.release_frees [OF R(1) v, of "se_end env"] b R(3) show ?thesis by auto
    qed
    ultimately show ?thesis using x(2) by auto
  qed
qed

section \<open>Pinned cities stay within their limit\<close>

definition pins_ok :: "db \<Rightarrow> bool" where
  "pins_ok d \<longleftrightarrow> distinct (map (\<lambda>c. (pc_userId c, pc_latitude c, pc_longitude c)) (pinnedCities d)) \<and>
     (\<forall>u. count_where (\<lambda>c. pc_userId c = u) (pinnedCities d) \<le> maxPinnedCities API_LIMITS)"

text \<open>Requests that do not overlap keep every user within the limit and no city pinned twice.\<close>

lemma pinned_create_ok:
  assumes "pins_ok (ap_db s)" shows "pins_ok (ap_db (snd (pinned_create env userId dto s)))"
proof (cases "rq_sql env 0 = Committed \<and> count_where (\<lambda>c. pc_userId c = userId) (pinnedCities (ap_db s)) < maxPinnedCities API_LIMITS")
  case False
  then show ?thesis using assms by (auto simp: pinned_create_def act_simps)
next
  case True
  let ?n = "count_where (\<lambda>c. pc_userId c = userId) (pinnedCities (ap_db s))"
  let ?c = "\<lparr>pc_id = rq_uuid env 0, pc_userId = userId, pc_name = cp_name dto, pc_country = cp_country dto, pc_admin1 = cp_admin1 dto,
               pc_latitude = cp_latitude dto, pc_longitude = cp_longitude dto, pc_order = int ?n, pc_createdAt = rq_now env\<rparr>"
  obtain r d where t: "transact (rq_sql env 1) (ap_db s) (pinned_insert ?c (ap_db s)) = (r, d)" by force
  have "ap_db (snd (pinned_create env userId dto s)) = d"
    using True t by (auto simp: pinned_create_def act_simps split: sum.splits db_error.splits)
  moreover have "pins_ok d" using transact_cases [OF t]
  proof
    assume "\<exists>a. pinned_insert ?c (ap_db s) = Inr (a, d)"
    then show ?thesis using assms True
      by (force simp: pinned_insert_def pins_ok_def count_where_def split: if_splits)
  qed (simp add: assms)
  ultimately show ?thesis by simp
qed

lemma pinned_remove_ok: "pins_ok (ap_db s) \<Longrightarrow> pins_ok (ap_db (snd (pinned_remove env userId i s)))"
  by (cases "rq_sql env 0")
    (auto simp: pinned_remove_def act_simps pins_ok_def intro: order_trans [OF count_where_delete_many_le])

text \<open>Deleting one's own rows leaves everybody else's history alone.\<close>

lemma history_foreign:
  assumes "n \<in> set (notifications (ap_db s))" and "n_userId n \<noteq> userId"
  shows "n \<in> set (notifications (ap_db (snd (clear env userId s))))"
    and "n \<in> set (notifications (ap_db (snd (remove_notification env userId i s))))"
  using assms by (cases "rq_sql env 0"; simp add: clear_def remove_notification_def act_simps delete_notifications_def)+

section \<open>A concrete sweep\<close>

definition aged :: "nat \<Rightarrow> instant \<Rightarrow> Notification" where
  "aged i t = \<lparr>n_id = show_nat i, n_eventId = None, n_triggerId = None, n_userId = ''u1'', n_channel = EMAIL, n_status = SENT,
     n_payload = heat_event, n_error = None, n_claimedAt = None, n_deliveredTo = [], n_createdAt = t\<rparr>"

definition sweep0 :: sweep_env where
  "sweep0 = \<lparr>se_now = 90 * 86400000 + 1000, se_token = ''tok'', se_clock = (\<lambda>k. int k), se_io = (\<lambda>_. Replied), se_sql = (\<lambda>_. Committed),
     se_end = 9, se_release = Replied, se_others = (\<lambda>_ d. d)\<rparr>"

definition dusty :: "(string \<Rightarrow> entry option) api" where
  "dusty = \<lparr>ap_db = small_db\<lparr>notifications := [aged 1 5, aged 2 999, aged 3 2000]\<rparr>, ap_redis = (\<lambda>_. None), ap_mailed = [], ap_events = []\<rparr>"

lemma sweep0_before: "sweep_before 90 (se_now sweep0) = Some 1000"
proof -
  have "rnd64 (of_int 2160) = of_int 2160" "rnd64 (of_int 7776000000) = of_int 7776000000" "rnd64 (of_int 1000) = of_int 1000"
    by (rule rnd64_of_int; simp)+
  then show ?thesis by (simp add: sweep_before_def sweep0_def date_of_def)
qed

theorem sweep_complete_witness:
  "\<exists>x s'. pruneExpired mem_redis 90 sweep0 dusty = Some (x, s') \<and> x = Inr () \<and> old 1000 (ap_db s') = {} \<and>
     aged 3 2000 \<in> set (notifications (ap_db s'))"
proof -
  have d: "distinct (map n_id (notifications (ap_db dusty)))"
    by (simp add: dusty_def aged_def show_nat.simps digit_char_def char_of_def bit_iff_odd)
  have m: "modest 1000 (se_others sweep0)" and k: "kept_by (se_others sweep0) (aged 3 2000)"
    by (simp_all add: modest_def kept_by_def sweep0_def)
  have h: "redis_spec mem_redis (\<lambda>m. m)" "steady sweep0" "se_release sweep0 = Replied"
    "live (se_clock sweep0 0) (ap_redis dusty HISTORY_LOCK_KEY) = None"
    using mem.redis_spec_axioms by (simp_all add: steady_def sweep0_def dusty_def HISTORY_LOCK_TTL_SEC_def)
  have "aged 3 2000 \<in> set (notifications (ap_db dusty))" "1000 \<le> n_createdAt (aged 3 2000)" by (simp_all add: dusty_def aged_def)
  with sweep_complete [OF sweep0_before m d, of mem_redis "\<lambda>m. m"] h k show ?thesis by blast
qed

end
