(* ===== verification/Config.thy ===== *)
theory Config
  imports Location
begin

text \<open>
  \<open>libs/common/src/config/env.ts\<close>: what the three processes demand of their environment before they start.
  An environment is a partial map of strings. Each schema is the conjunction of its rules: the form of
  the single variables and the conditions across them. Which problems a refusal lists, and in which
  words, is up to the schema library and is its argument \<open>problems\<close>.
\<close>

type_synonym env = "string \<Rightarrow> string option"

section \<open>Rules for one variable\<close>

definition required :: "string \<Rightarrow> env \<Rightarrow> bool" where
  "required name env \<longleftrightarrow> (case env name of None \<Rightarrow> False | Some v \<Rightarrow> v \<noteq> [])"

text \<open>
  The length of a string in UTF-16 units, on its UTF-8 bytes: a byte that continues a character counts
  nothing, one that opens a character beyond the basic plane counts two.
\<close>

fun utf16_length :: "string \<Rightarrow> nat" where
  "utf16_length [] = 0"
| "utf16_length (c # cs) =
     (let b = (of_char c :: nat) in (if b < 128 \<or> (192 \<le> b \<and> b < 240) then 1 else if 240 \<le> b then 2 else 0) + utf16_length cs)"

definition jwtSecret :: "string \<Rightarrow> env \<Rightarrow> bool" where
  "jwtSecret name env \<longleftrightarrow> (case env name of None \<Rightarrow> False | Some v \<Rightarrow> 32 \<le> utf16_length v \<and> take 9 v \<noteq> ''change-me'')"

definition optional :: "(string \<Rightarrow> bool) \<Rightarrow> string \<Rightarrow> env \<Rightarrow> bool" where
  "optional ok name env \<longleftrightarrow> (case env name of None \<Rightarrow> True | Some v \<Rightarrow> ok v)"

definition base_rules :: "env \<Rightarrow> bool" where
  "base_rules env \<longleftrightarrow> optional (\<lambda>v. v \<in> {''development'', ''production'', ''test''}) ''NODE_ENV'' env \<and> required ''DATABASE_URL'' env"

text \<open>\<open>.default('development')\<close>\<close>

definition NODE_ENV :: "env \<Rightarrow> string" where
  "NODE_ENV env = (case env ''NODE_ENV'' of None \<Rightarrow> ''development'' | Some v \<Rightarrow> v)"

definition cookieSameSite :: "string \<Rightarrow> bool" where
  "cookieSameSite v \<longleftrightarrow> v \<in> {''lax'', ''strict'', ''none''}"

text \<open>\<open>/^(\S+\s+){4,5}\S+$/\<close>: five or six runs of non-blanks, with blanks only between them.\<close>

fun fields :: "string \<Rightarrow> string \<Rightarrow> string list" where
  "fields w [] = (if w = [] then [] else [w])"
| "fields w (c # cs) = (if is_ws c then (if w = [] then fields [] cs else w # fields [] cs) else fields (w @ [c]) cs)"

definition cronExpression :: "string \<Rightarrow> bool" where
  "cronExpression v \<longleftrightarrow> v \<noteq> [] \<and> \<not> is_ws (hd v) \<and> \<not> is_ws (last v) \<and> length (fields [] v) \<in> {5, 6}"

text \<open>\<open>/^\d+$/\<close>, then \<open>Number\<close>.\<close>

definition nonNegativeInt :: "string \<Rightarrow> jsnum option" where
  "nonNegativeInt v = (if v \<noteq> [] \<and> list_all is_digit v then Some (js_Number (Str v)) else None)"

definition int_or :: "rat \<Rightarrow> string \<Rightarrow> env \<Rightarrow> jsnum" where
  "int_or d name env = (case env name of None \<Rightarrow> Fin d | Some v \<Rightarrow> (case nonNegativeInt v of Some n \<Rightarrow> n | None \<Rightarrow> NaN))"

section \<open>The schemas\<close>

text \<open>\<open><\<close> on numbers.\<close>

fun num_less :: "jsnum \<Rightarrow> jsnum \<Rightarrow> bool" where
  "num_less (Fin x) (Fin y) = (x < y)"
| "num_less (Fin x) PosInf = True"
| "num_less NegInf (Fin y) = True"
| "num_less NegInf PosInf = True"
| "num_less _ _ = False"

definition coreApiEnvSchema :: "env \<Rightarrow> bool" where
  "coreApiEnvSchema env \<longleftrightarrow>
     base_rules env \<and> required ''REDIS_URL'' env \<and> required ''RABBITMQ_URL'' env \<and>
     jwtSecret ''JWT_ACCESS_SECRET'' env \<and> jwtSecret ''JWT_REFRESH_SECRET'' env \<and>
     optional cookieSameSite ''COOKIE_SAMESITE'' env \<and>
     (env ''COOKIE_SAMESITE'' \<noteq> Some ''none'' \<or> NODE_ENV env = ''production'')"

definition watcherEnvSchema :: "env \<Rightarrow> bool" where
  "watcherEnvSchema env \<longleftrightarrow>
     base_rules env \<and> required ''REDIS_URL'' env \<and> required ''RABBITMQ_URL'' env \<and>
     optional cronExpression ''WATCHER_CRON'' env \<and>
     optional (\<lambda>v. nonNegativeInt v \<noteq> None) ''WATCHER_SHARD_COUNT'' env \<and>
     optional (\<lambda>v. nonNegativeInt v \<noteq> None) ''WATCHER_SHARD_INDEX'' env \<and>
     optional (\<lambda>v. nonNegativeInt v \<noteq> None) ''WATCHER_CONCURRENCY'' env \<and>
     num_less (Fin 0) (int_or 1 ''WATCHER_CONCURRENCY'' env) \<and>
     num_less (Fin 0) (int_or 1 ''WATCHER_SHARD_COUNT'' env) \<and>
     num_less (int_or 0 ''WATCHER_SHARD_INDEX'' env) (int_or 1 ''WATCHER_SHARD_COUNT'' env)"

definition notifierEnvSchema :: "env \<Rightarrow> bool" where
  "notifierEnvSchema env \<longleftrightarrow> base_rules env \<and> required ''RABBITMQ_URL'' env"

text \<open>
  The parsed values replace the strings they came from: the default of \<open>NODE_ENV\<close>, and numbers for the
  variables a schema transforms.
\<close>

definition createEnvValidator ::
  "(env \<Rightarrow> bool) \<Rightarrow> string list \<Rightarrow> (env \<Rightarrow> string) \<Rightarrow> env \<Rightarrow> (string, string \<Rightarrow> cfg) result" where
  "createEnvValidator schema numbers problems env =
     (if schema env
      then Inr (\<lambda>name. if name = ''NODE_ENV'' then Str (NODE_ENV env)
                       else case env name of
                              None \<Rightarrow> Undef
                            | Some v \<Rightarrow> (if name \<in> set numbers then (case nonNegativeInt v of Some n \<Rightarrow> Num n | None \<Rightarrow> Str v) else Str v))
      else Inl (''Invalid environment configuration:'' @ [CHR 0x0A] @ problems env))"

definition WATCHER_NUMBERS :: "string list" where
  "WATCHER_NUMBERS = [''WATCHER_SHARD_COUNT'', ''WATCHER_SHARD_INDEX'', ''WATCHER_CONCURRENCY'']"

section \<open>A watcher that starts has work it can be given\<close>

text \<open>The variable as \<open>process.env\<close> holds it, which is what \<open>shardFromEnv\<close> reads.\<close>

definition raw :: "env \<Rightarrow> string \<Rightarrow> cfg" where
  "raw env name = (case env name of None \<Rightarrow> Undef | Some v \<Rightarrow> Str v)"

definition exact :: "env \<Rightarrow> string \<Rightarrow> bool" where
  "exact env name \<longleftrightarrow> (case env name of None \<Rightarrow> True | Some v \<Rightarrow> read_digits 0 v \<le> 2 ^ 53)"

lemma read_digits_nonneg: "0 \<le> a \<Longrightarrow> list_all is_digit s \<Longrightarrow> 0 \<le> read_digits a s"
proof (induction s arbitrary: a)
  case (Cons c s)
  then have "0 \<le> digit_val c" using digit_val_range by simp
  then show ?case using Cons by simp
qed simp

lemma int_or_nat:
  assumes "optional (\<lambda>v. nonNegativeInt v \<noteq> None) name env" and "exact env name" and "d = of_nat k"
  shows "\<exists>n :: nat. int_or d name env = Fin (of_nat n) \<and> js_Number (nullish (raw env name) d) = Fin (of_nat n)"
proof (cases "env name")
  case (Some v)
  then have v: "v \<noteq> []" "list_all is_digit v" "read_digits 0 v \<le> 2 ^ 53"
    using assms by (auto simp: optional_def exact_def nonNegativeInt_def split: if_splits)
  define n where "n = nat (read_digits 0 v)"
  have n: "read_digits 0 v = int n" using read_digits_nonneg [of 0 v] v(2) by (simp add: n_def)
  have "js_Number (Str v) = Fin (of_nat n)"
    using string_to_number_digits [OF v(1,2)] mk_num_of_int [of "int n"] v(3) n by simp
  then show ?thesis using Some v by (auto simp: int_or_def nonNegativeInt_def raw_def nullish_def)
qed (use assms(3) in \<open>auto simp: int_or_def raw_def nullish_def\<close>)

text \<open>
  C40: a validated watcher is never idle by configuration, up to the number of buckets: it can be given some
  location exactly when its index is one of the 1024 buckets' remainders. An index from 1024 on passes
  validation when the count is larger still, and such an instance polls nothing.
\<close>

theorem validated_shard_serves:
  assumes "watcherEnvSchema env" and "exact env ''WATCHER_SHARD_COUNT''" and "exact env ''WATCHER_SHARD_INDEX''"
    and "s = shardFromEnv (raw env ''WATCHER_SHARD_COUNT'') (raw env ''WATCHER_SHARD_INDEX'')"
  shows "sh_index s < sh_count s \<and>
    ((\<exists>b < LOCATION_BUCKETS. selects (shardBuckets s) b) \<longleftrightarrow> sh_index s < of_nat LOCATION_BUCKETS)"
proof -
  obtain n where n: "int_or 1 ''WATCHER_SHARD_COUNT'' env = Fin (of_nat n)" "js_Number (nullish (raw env ''WATCHER_SHARD_COUNT'') 1) = Fin (of_nat n)"
    using int_or_nat [of "''WATCHER_SHARD_COUNT''" env 1 1] assms(1,2) by (auto simp: watcherEnvSchema_def)
  obtain i where i: "int_or 0 ''WATCHER_SHARD_INDEX'' env = Fin (of_nat i)" "js_Number (nullish (raw env ''WATCHER_SHARD_INDEX'') 0) = Fin (of_nat i)"
    using int_or_nat [of "''WATCHER_SHARD_INDEX''" env 0 0] assms(1,3) by (auto simp: watcherEnvSchema_def)
  have lt: "i < n" "0 < n" using assms(1) n(1) i(1) by (auto simp: watcherEnvSchema_def)
  then have s: "s = \<lparr>sh_index = of_nat i, sh_count = of_nat n\<rparr>" using assms(4) n(2) i(2) by (simp add: shardFromEnv_def)
  have "(\<exists>b < LOCATION_BUCKETS. n = 1 \<or> b mod n = i) \<longleftrightarrow> i < LOCATION_BUCKETS"
  proof
    assume "i < LOCATION_BUCKETS"
    then show "\<exists>b < LOCATION_BUCKETS. n = 1 \<or> b mod n = i" using lt by (intro exI [of _ i]) simp
  next
    assume "\<exists>b < LOCATION_BUCKETS. n = 1 \<or> b mod n = i"
    then show "i < LOCATION_BUCKETS" using lt by (auto intro: le_less_trans [OF mod_less_eq_dividend])
  qed
  moreover have "selects (shardBuckets s) b \<longleftrightarrow> n = 1 \<or> b mod n = i" if "b < LOCATION_BUCKETS" for b
    unfolding s by (rule selects_shardBuckets [OF lt(2) that])
  ultimately show ?thesis using lt(1) by (auto simp: s)
qed

definition idle_env :: env where
  "idle_env = [''DATABASE_URL'' \<mapsto> ''postgres://db'', ''REDIS_URL'' \<mapsto> ''redis://r'', ''RABBITMQ_URL'' \<mapsto> ''amqp://q'',
     ''WATCHER_SHARD_COUNT'' \<mapsto> ''2000'', ''WATCHER_SHARD_INDEX'' \<mapsto> ''1500'']"

lemma idle_env_ok: "watcherEnvSchema idle_env" "exact idle_env ''WATCHER_SHARD_COUNT''" "exact idle_env ''WATCHER_SHARD_INDEX''"
  by code_simp+

theorem validated_shard_serves_witness:
  "\<not> (\<exists>b < LOCATION_BUCKETS. selects (shardBuckets (shardFromEnv (raw idle_env ''WATCHER_SHARD_COUNT'') (raw idle_env ''WATCHER_SHARD_INDEX''))) b)"
proof -
  have "sh_index (shardFromEnv (raw idle_env ''WATCHER_SHARD_COUNT'') (raw idle_env ''WATCHER_SHARD_INDEX'')) = 1500" by code_simp
  then show ?thesis using validated_shard_serves [OF idle_env_ok refl] by (simp add: LOCATION_BUCKETS_def)
qed

end
