(* ===== verification/Sessions.thy ===== *)
theory Sessions
  imports Auth Config
begin

text \<open>
  \<open>auth.controller.ts\<close>: the routes of a session. The refresh token travels only in a cookie, the access
  token only in the body. A request carries cookies; a response may set or clear one. The throttling of the routes is that of the Redis-backed storage and is not repeated here.
\<close>

datatype cookie_op =
    SetCookie string string CookieOptions rat
  | ClearCookie string CookieOptions

text \<open>A response: the outcome of the handler and what it does to the cookies.\<close>

type_synonym ('r, 'a) route = "'r api \<Rightarrow> (http_error, 'a) result \<times> cookie_op list \<times> 'r api"

definition respondWithTokens :: "auth_service \<Rightarrow> CookieOptions \<Rightarrow> Tokens \<Rightarrow> string \<times> cookie_op list" where
  "respondWithTokens a cookieBase tokens =
     (tk_accessToken tokens, [SetCookie REFRESH_COOKIE (tk_refreshToken tokens) cookieBase (as_refreshTtlMs a)])"

definition readRefreshCookie :: "(string \<Rightarrow> string option) \<Rightarrow> string option" where
  "readRefreshCookie cookies = cookies REFRESH_COOKIE"

definition with_tokens :: "auth_service \<Rightarrow> CookieOptions \<Rightarrow> ('r, Tokens) act \<Rightarrow> ('r, string) route" where
  "with_tokens a base m s =
     (case m s of
        (Inl e, s') \<Rightarrow> (Inl e, [], s')
      | (Inr tokens, s') \<Rightarrow> (Inr (fst (respondWithTokens a base tokens)), snd (respondWithTokens a base tokens), s'))"

definition post_register :: "crypto \<Rightarrow> jwt \<Rightarrow> auth_service \<Rightarrow> CookieOptions \<Rightarrow> request_env \<Rightarrow> string \<Rightarrow> string \<Rightarrow> ('r, string) route" where
  "post_register C J a base env email password = with_tokens a base (register C J a env email password)"

definition post_login :: "'r redis \<Rightarrow> crypto \<Rightarrow> jwt \<Rightarrow> auth_service \<Rightarrow> CookieOptions \<Rightarrow> request_env \<Rightarrow> string \<Rightarrow> string \<Rightarrow> ('r, string) route" where
  "post_login R C J a base env email password = with_tokens a base (login R C J a env email password)"

text \<open>An empty cookie counts as none.\<close>

definition post_refresh :: "crypto \<Rightarrow> jwt \<Rightarrow> auth_service \<Rightarrow> CookieOptions \<Rightarrow> request_env \<Rightarrow> (string \<Rightarrow> string option) \<Rightarrow> ('r, string) route" where
  "post_refresh C J a base env cookies s =
     (case readRefreshCookie cookies of
        Some (c # cs) \<Rightarrow> with_tokens a base (refresh C J a env (c # cs)) s
      | _ \<Rightarrow> (Inl (Unauthorized ''Invalid refresh token''), [], s))"

text \<open>The cookie is cleared before anything can fail.\<close>

definition post_logout :: "jwt \<Rightarrow> auth_service \<Rightarrow> CookieOptions \<Rightarrow> request_env \<Rightarrow> (string \<Rightarrow> string option) \<Rightarrow> ('r, bool) route" where
  "post_logout J a base env cookies s =
     (case readRefreshCookie cookies of
        Some (c # cs) \<Rightarrow> (case logout J a env (c # cs) s of (r, s') \<Rightarrow> (r, [ClearCookie REFRESH_COOKIE base], s'))
      | _ \<Rightarrow> (Inr True, [ClearCookie REFRESH_COOKIE base], s))"

text \<open>Deleting the account (\<open>users.controller.ts\<close>) ends the session of the browser that asked for it.\<close>

definition delete_me :: "'r redis \<Rightarrow> crypto \<Rightarrow> rat \<Rightarrow> CookieOptions \<Rightarrow> request_env \<Rightarrow> ident \<Rightarrow> string \<Rightarrow> ('r, bool) route" where
  "delete_me R C ttlMs base env userId password s =
     (case deleteAccount R C ttlMs env userId password s of
        (Inl e, s') \<Rightarrow> (Inl e, [], s')
      | (Inr b, s') \<Rightarrow> (Inr b, [ClearCookie REFRESH_COOKIE base], s'))"

section \<open>The cookie\<close>

text \<open>The configuration the process runs with, once its environment was accepted.\<close>

definition cookie_base :: "env \<Rightarrow> CookieOptions" where
  "cookie_base env = refreshCookieOptions (env(''NODE_ENV'' \<mapsto> NODE_ENV env))"

lemma validated_cookie:
  assumes "coreApiEnvSchema env"
  shows "ck_sameSite (cookie_base env) = ''none'' \<Longrightarrow> ck_secure (cookie_base env)" "ck_path (cookie_base env) = ''/auth''"
  using assms by (auto simp: cookie_base_def refreshCookieOptions_def coreApiEnvSchema_def split: option.splits)

section \<open>A session from sign-in to sign-out\<close>

text \<open>
  What is documented of JSON web tokens: a signed token verifies to its claims until the second its
  lifetime ends, counted from the second it was issued in, and never to others; and a token is not the
  empty string.
\<close>

definition honest :: "jwt \<Rightarrow> bool" where
  "honest J \<longleftrightarrow> (\<forall>secret sub email jti now ttl. jw_signRefresh J secret (sub, email, jti) now ttl \<noteq> [] \<and>
     (\<forall>t p. jw_verify J secret t (jw_signRefresh J secret (sub, email, jti) now ttl) = Some p \<longrightarrow> p = \<lparr>rp_sub = sub, rp_jti = jti, rp_email = Some email\<rparr>) \<and>
     (\<forall>t. now \<le> t \<longrightarrow> t div 1000 < now div 1000 + ttl \<longrightarrow>
        jw_verify J secret t (jw_signRefresh J secret (sub, email, jti) now ttl) = Some \<lparr>rp_sub = sub, rp_jti = jti, rp_email = Some email\<rparr>))"

definition committed :: "request_env \<Rightarrow> bool" where
  "committed env \<longleftrightarrow> (\<forall>n. rq_sql env n = Committed)"

lemma issueTokens_Inr:
  assumes "issueTokens C J a env n k i email s = (Inr t, s')"
  obtains row where "tk_refreshToken t = jw_signRefresh J (as_refreshSecret a) (i, email, rq_uuid env k) (rq_now env) (expiresIn (as_refreshTtlMs a))"
    "row = \<lparr>rt_id = rq_uuid env k, rt_userId = i, rt_tokenHash = hashToken C (tk_refreshToken t),
       rt_expiresAt = rq_now env + \<lfloor>as_refreshTtlMs a\<rfloor>, rt_revoked = False\<rparr>"
    "find_unique (\<lambda>r. rt_id r = rq_uuid env k) (refreshTokens (ap_db s)) = None" "find_user i (ap_db s) \<noteq> None"
    "s' = s\<lparr>ap_db := (ap_db s)\<lparr>refreshTokens := refreshTokens (ap_db s) @ [row]\<rparr>\<rparr>"
  using assms by (auto simp: issueTokens_def andThen_Inr executes_Inr create_refresh_def Let_def split: if_splits)

lemma issueTokens_ok:
  assumes "committed env" and "find_unique (\<lambda>r. rt_id r = rq_uuid env k) (refreshTokens (ap_db s)) = None" and "find_user i (ap_db s) \<noteq> None"
  shows "\<exists>t s'. issueTokens C J a env n k i email s = (Inr t, s')"
  using assms by (auto simp: committed_def issueTokens_def act_simps create_refresh_def Let_def)

lemma login_issues:
  assumes "login R C J a env email password s = (Inr t, s')"
  obtains u r where "findByEmail email (ap_db s) = Some u" "issueTokens C J a env 1 0 (u_id u) (u_email u) (s\<lparr>ap_redis := r\<rparr>) = (Inr t, s')"
  using assms by (auto simp: login_def andThen_Inr asks_def Let_def split: option.splits if_splits)

lemma query_ok: "query Committed (\<lambda>d. Inr (g d)) s = (Inr (Inr (fst (g (ap_db s)))), s\<lparr>ap_db := snd (g (ap_db s))\<rparr>)"
  by (cases "g (ap_db s)") (simp add: query_def)

text \<open>The row of a token that was just issued: found by its id, unexpired, unspent, and matching the token.\<close>

lemma issued_refreshes:
  assumes "jw_verify J (as_refreshSecret a) (rq_now env) tok = Some payload"
    and "find_unique (\<lambda>r. rt_id r = rp_jti payload) (refreshTokens (ap_db s)) = Some row"
    and "rt_tokenHash row = hashToken C tok" and "\<not> rt_revoked row" and "rq_now env \<le> rt_expiresAt row"
    and "committed env" and "find_unique (\<lambda>r. rt_id r = rq_uuid env 0) (refreshTokens (ap_db s)) = None"
    and "find_user (rp_sub payload) (ap_db s) \<noteq> None"
  shows "\<exists>t s'. refresh C J a env tok s = (Inr t, s')"
proof -
  let ?p = "\<lambda>x. rt_id x = rt_id row"
  let ?s = "s\<lparr>ap_db := snd (revoke_where ?p (ap_db s))\<rparr>"
  have "row \<in> set (refreshTokens (ap_db s))" "rt_id row = rp_jti payload" using find_unique_Some [OF assms(2)] by auto
  then have "0 < fst (revoke_where ?p (ap_db s))" using assms(4) by (auto simp: revoke_where_def count_where_pos_iff)
  moreover have "find_unique (\<lambda>r. rt_id r = rq_uuid env 0) (refreshTokens (ap_db ?s)) = None"
    using assms(7) by (auto simp: find_unique_None revoke_where_def set_update_many)
  moreover have "find_user (rp_sub payload) (ap_db ?s) \<noteq> None" using assms(8) by (simp add: revoke_where_def find_user_def)
  ultimately show ?thesis
    using issueTokens_ok [OF assms(6), where s = ?s and k = 0] assms
    by (simp add: refresh_def committed_def verifyTokenHash_def)
qed

text \<open>A sign-in sets one cookie, whose value is a token with a row of its own, and answers with the access token.\<close>

lemma post_login_Inr:
  assumes "post_login R C J a base env email password s = (Inr access, ops, s1)"
  obtains u :: User and tok row where "ops = [SetCookie REFRESH_COOKIE tok base (as_refreshTtlMs a)]"
    "tok = jw_signRefresh J (as_refreshSecret a) (u_id u, u_email u, rq_uuid env 0) (rq_now env) (expiresIn (as_refreshTtlMs a))"
    "row = \<lparr>rt_id = rq_uuid env 0, rt_userId = u_id u, rt_tokenHash = hashToken C tok, rt_expiresAt = rq_now env + \<lfloor>as_refreshTtlMs a\<rfloor>, rt_revoked = False\<rparr>"
    "find_unique (\<lambda>r. rt_id r = rq_uuid env 0) (refreshTokens (ap_db s1)) = Some row" "find_user (u_id u) (ap_db s1) \<noteq> None"
proof -
  obtain tk where l: "login R C J a env email password s = (Inr tk, s1)"
    and ops: "ops = [SetCookie REFRESH_COOKIE (tk_refreshToken tk) base (as_refreshTtlMs a)]"
    using assms by (auto simp: post_login_def with_tokens_def respondWithTokens_def split: prod.splits sum.splits)
  obtain u :: User and r where i: "issueTokens C J a env 1 0 (u_id u) (u_email u) (s\<lparr>ap_redis := r\<rparr>) = (Inr tk, s1)"
    by (rule login_issues [OF l]) blast
  let ?tok = "tk_refreshToken tk"
  obtain row where row: "?tok = jw_signRefresh J (as_refreshSecret a) (u_id u, u_email u, rq_uuid env 0) (rq_now env) (expiresIn (as_refreshTtlMs a))"
    "row = \<lparr>rt_id = rq_uuid env 0, rt_userId = u_id u, rt_tokenHash = hashToken C ?tok, rt_expiresAt = rq_now env + \<lfloor>as_refreshTtlMs a\<rfloor>, rt_revoked = False\<rparr>"
    "find_unique (\<lambda>r. rt_id r = rq_uuid env 0) (refreshTokens (ap_db s)) = None" "find_user (u_id u) (ap_db s) \<noteq> None"
    "s1 = s\<lparr>ap_redis := r, ap_db := (ap_db s)\<lparr>refreshTokens := refreshTokens (ap_db s) @ [row]\<rparr>\<rparr>"
    by (rule issueTokens_Inr [OF i]) simp
  show ?thesis
  proof (rule that [OF ops row(1,2)])
    show "find_unique (\<lambda>r. rt_id r = rq_uuid env 0) (refreshTokens (ap_db s1)) = Some row"
      using row(2,3,5) by (simp add: find_unique_def find_append)
    show "find_user (u_id u) (ap_db s1) \<noteq> None" using row(4,5) by (simp add: find_user_def)
  qed
qed

text \<open>A row that is revoked, or that is gone, is refused whatever the token says.\<close>

lemma spent_refused:
  assumes "jw_verify J (as_refreshSecret a) (rq_now env) tok \<in> {None, Some payload}" and "committed env"
    and "\<forall>r \<in> set (refreshTokens (ap_db s)). rt_id r = rp_jti payload \<longrightarrow> rt_revoked r"
  shows "fst (refresh C J a env tok s) = Inl (Unauthorized ''Invalid refresh token'')"
proof -
  have "rt_revoked r" if "find_unique (\<lambda>r. rt_id r = rp_jti payload) (refreshTokens (ap_db s)) = Some r" for r
    using find_unique_Some [OF that] assms(3) by blast
  then show ?thesis using assms(1,2)
    by (auto simp: refresh_def revokeFamily_def invalidRefresh_def committed_def rejects_def split: option.split)
qed

lemma honest_claims:
  "honest J \<Longrightarrow> jw_verify J secret t (jw_signRefresh J secret (sub, email, jti) now ttl) \<in>
     {None, Some \<lparr>rp_sub = sub, rp_jti = jti, rp_email = Some email\<rparr>}"
  unfolding honest_def by (metis insertCI not_Some_eq)

section \<open>A concrete session\<close>

text \<open>Tokens that spell out their claims, each preceded by its length.\<close>

definition pack :: "string \<Rightarrow> string" where
  "pack s = replicate (length s) (CHR ''1'') @ CHR ''0'' # s"

definition unpack :: "string \<Rightarrow> string \<times> string" where
  "unpack t = (let n = length (takeWhile (\<lambda>c. c = CHR ''1'') t) in (take n (drop (Suc n) t), drop (Suc (2 * n)) t))"

lemma unpack_pack [simp]: "unpack (pack s @ r) = (s, r)"
proof -
  have "takeWhile (\<lambda>c. c = CHR ''1'') (replicate n (CHR ''1'') @ CHR ''0'' # xs) = replicate n (CHR ''1'')" for n xs
    by (induction n) simp_all
  then show ?thesis by (simp add: unpack_def pack_def)
qed

definition open_jwt :: jwt where
  "open_jwt = \<lparr>jw_signAccess = (\<lambda>_ (sub, email, role) now ttl. pack sub), jw_signRefresh = (\<lambda>_ (sub, email, jti) now ttl. pack sub @ pack email @ pack jti @ ''.''),
     jw_verify = (\<lambda>_ now tok. let (sub, r) = unpack tok; (email, r') = unpack r in Some \<lparr>rp_sub = sub, rp_jti = fst (unpack r'), rp_email = Some email\<rparr>)\<rparr>"

lemma open_jwt_honest: "honest open_jwt"
  by (auto simp: honest_def open_jwt_def)

definition core_env :: env where
  "core_env = [''DATABASE_URL'' \<mapsto> ''postgres://db'', ''REDIS_URL'' \<mapsto> ''redis://r'', ''RABBITMQ_URL'' \<mapsto> ''amqp://q'',
     ''JWT_ACCESS_SECRET'' \<mapsto> ''0123456789abcdef0123456789abcdef'', ''JWT_REFRESH_SECRET'' \<mapsto> ''fedcba9876543210fedcba9876543210'']"

lemma core_env_ok: "coreApiEnvSchema core_env"
  by code_simp

definition hello :: "(string \<Rightarrow> entry option) api" where
  "hello = snd (snd (post_login mem_redis plain_crypto open_jwt auth0 (cookie_base core_env) (later 2000) ''a@x.io'' ''h'' signed_in))"

lemmas login_eval = post_login_def with_tokens_def respondWithTokens_def login_def failureCount_def READ_FAILURES_def mem_redis_def
  findByEmail_def refresh_eval clearFailures_def LOGIN_MAX_FAILURES_def auth_samples

lemma hello_login:
  "\<exists>access ops. post_login mem_redis plain_crypto open_jwt auth0 (cookie_base core_env) (later 2000) ''a@x.io'' ''h'' signed_in = (Inr access, ops, hello)"
  unfolding hello_def by (simp add: login_eval)

end
