(* ===== verification/WeatherProvider.thy ===== *)
theory WeatherProvider
  imports Conditions RedisSpec
begin

text \<open>
  \<open>apps/watcher/src/weather\<close>: the snapshot of a location, from the Redis cache or from Open-Meteo with
  one retry. The HTTP service is a parameter: the outcome of each attempt, with the numeric fields of
  \<open>current\<close> that the body had. The JSON codec of the cache is a parameter too.
\<close>

section \<open>\<open>toFixed\<close>\<close>

text \<open>
  \<open>x.toFixed(2)\<close>: the integer nearest to \<open>100 x\<close> (the larger of two), taken on the exact value of the
  double, with two decimals.
\<close>

definition toFixed2 :: "rat \<Rightarrow> string" where
  "toFixed2 x =
     (let n = \<lfloor>\<bar>x\<bar> * 100 + 1/2\<rfloor>
      in (if x < 0 then ''-'' else '''') @ show_int (n div 100) @ ''.'' @
         (if n mod 100 < 10 then ''0'' else '''') @ show_int (n mod 100))"

section \<open>The provider\<close>

datatype weather_error = UpstreamFailed | MalformedPayload | CacheFailed redis_error

type_synonym payload = "(string \<times> rat) list option"

text \<open>\<open>openMeteoResponseSchema.parse(data).current\<close>, mapped onto a snapshot.\<close>

definition parse_current :: "payload \<Rightarrow> WeatherSnapshot option" where
  "parse_current data =
     (case data of None \<Rightarrow> None
      | Some c \<Rightarrow>
        (case (map_of c ''temperature_2m'', map_of c ''apparent_temperature'', map_of c ''relative_humidity_2m'',
               map_of c ''wind_speed_10m'', map_of c ''precipitation'', map_of c ''weather_code'') of
           (Some t, Some a, Some h, Some w, Some p, Some wc) \<Rightarrow>
             Some \<lparr>temperature = t, apparentTemp = a, humidity = h, windSpeed = w, precipitation = p, weatherCode = wc\<rparr>
         | _ \<Rightarrow> None))"

text \<open>\<open>retry({ count: 1 })\<close>: a second request after a failed first one.\<close>

definition fetch :: "(nat \<Rightarrow> payload option) \<Rightarrow> (weather_error, WeatherSnapshot) result" where
  "fetch http =
     (case (case http 0 of Some data \<Rightarrow> Some data | None \<Rightarrow> http 1) of
        None \<Rightarrow> Inl UpstreamFailed
      | Some data \<Rightarrow> (case parse_current data of None \<Rightarrow> Inl MalformedPayload | Some s \<Rightarrow> Inr s))"

definition DEFAULT_CACHE_TTL_SEC :: rat where
  "DEFAULT_CACHE_TTL_SEC = 240"

definition weather_ttl :: "cfg \<Rightarrow> rat" where
  "weather_ttl configured = positive_or DEFAULT_CACHE_TTL_SEC (js_Number configured)"

definition cacheKey :: "rat \<Rightarrow> rat \<Rightarrow> string" where
  "cacheKey lat lon = ''weather:'' @ toFixed2 lat @ '':'' @ toFixed2 lon"

text \<open>The fates and instants of the calls behind one lookup, and the upstream's answers.\<close>

record snapshot_env =
  se_get :: io
  se_getAt :: instant
  se_set :: io
  se_setAt :: instant
  se_http :: "nat \<Rightarrow> payload option"

text \<open>\<open>EX\<close> takes whole seconds; the server rejects anything else.\<close>

definition getSnapshot ::
  "'s redis \<Rightarrow> (string \<Rightarrow> (redis_error, WeatherSnapshot) result) \<Rightarrow> (WeatherSnapshot \<Rightarrow> string) \<Rightarrow> rat \<Rightarrow> snapshot_env \<Rightarrow>
   rat \<Rightarrow> rat \<Rightarrow> 's \<Rightarrow> (weather_error, WeatherSnapshot) result \<times> 's" where
  "getSnapshot R parse stringify ttl env latitude longitude s =
     (let key = cacheKey latitude longitude in
      case getJson R (se_get env) parse s (se_getAt env) key of
        Inl e \<Rightarrow> (Inl (CacheFailed e), s)
      | Inr (Some cached) \<Rightarrow> (Inr cached, s)
      | Inr None \<Rightarrow>
          (case fetch (se_http env) of
             Inl e \<Rightarrow> (Inl e, s)
           | Inr snapshot \<Rightarrow>
               (case (if ttl = of_int \<lfloor>ttl\<rfloor> then setJson R (se_set env) stringify s (se_setAt env) key snapshot \<lfloor>ttl\<rfloor>
                      else (Inl RedisError, s)) of
                  (Inl e, s') \<Rightarrow> (Inl (CacheFailed e), s')
                | (Inr _, s') \<Rightarrow> (Inr snapshot, s'))))"

section \<open>The cache in front of the upstream\<close>

definition quick :: "snapshot_env \<Rightarrow> bool" where
  "quick env \<longleftrightarrow> se_get env = Replied \<and> se_set env = Replied"

context redis_spec
begin

lemma getSnapshot_miss:
  assumes "0 < ttl" and "quick env" and "live (se_getAt env) (view s (cacheKey lat lon)) = None"
    and "getSnapshot R parse stringify (of_int ttl) env lat lon s = (r, s')"
  shows "r = fetch (se_http env) \<and> (\<forall>x. r = Inr x \<longrightarrow>
       view s' (cacheKey lat lon) = Some (stringify x, Some (se_setAt env + 1000 * ttl)))"
proof (cases "fetch (se_http env)")
  case (Inl e)
  then show ?thesis using assms by (auto simp: getSnapshot_def quick_def getJson_def get)
next
  case (Inr x)
  obtain ok s1 where set: "rset R s (se_setAt env) (cacheKey lat lon) (stringify x) (Some (1000 * ttl)) False = (ok, s1)" by force
  with set_effect [of "Some (1000 * ttl)" s "se_setAt env" "cacheKey lat lon" "stringify x" False] assms(1)
  have "view s1 = set_view (view s) (se_setAt env) (cacheKey lat lon) (stringify x) (Some (1000 * ttl))" by simp
  then show ?thesis using Inr assms set
    by (auto simp: getSnapshot_def quick_def getJson_def get setJson_def set_view_def Let_def)
qed

lemma getSnapshot_hit:
  assumes "quick env" and "view s (cacheKey lat lon) = Some (stringify x, Some e)" and "se_getAt env < e"
    and "parse (stringify x) = Inr x" and "stringify x \<noteq> []"
  shows "getSnapshot R parse stringify ttl env lat lon s = (Inr x, s)"
  using assms by (simp add: getSnapshot_def quick_def getJson_def get)

end

section \<open>Properties\<close>

text \<open>
  C37: what was fetched is what is served, for exactly as long as the cache entry lives. After a
  lookup that missed the cache and got a snapshot, a lookup for any coordinates with the same cache
  key answers with that snapshot and leaves the upstream alone until the configured time to live has
  passed; from then on it answers what the upstream answers. The hypothesis on the codec is that
  parsing undoes printing for that snapshot.
\<close>

theorem snapshot_cache_roundtrip:
  assumes "redis_spec R view" and "parse (stringify x) = Inr x" and "stringify x \<noteq> []" and "0 < ttl"
    and "quick env" and "live (se_getAt env) (view s (cacheKey lat lon)) = None"
    and "getSnapshot R parse stringify (of_int ttl) env lat lon s = (Inr x, s')"
    and "quick env'" and "cacheKey lat' lon' = cacheKey lat lon"
  shows "fst (getSnapshot R parse stringify (of_int ttl) env' lat' lon' s') =
    (if se_getAt env' < se_setAt env + 1000 * ttl then Inr x else fetch (se_http env'))"
proof -
  have v: "view s' (cacheKey lat' lon') = Some (stringify x, Some (se_setAt env + 1000 * ttl))"
    using redis_spec.getSnapshot_miss [OF assms(1,4,5,6,7)] assms(9) by simp
  show ?thesis
  proof (cases "se_getAt env' < se_setAt env + 1000 * ttl")
    case True
    then show ?thesis using redis_spec.getSnapshot_hit [OF assms(1,8), of s' lat' lon' stringify x] v assms(2,3) by simp
  next
    case False
    then have "live (se_getAt env') (view s' (cacheKey lat' lon')) = None" using v by simp
    from redis_spec.getSnapshot_miss [OF assms(1,4,8) this] False show ?thesis by (metis prod.collapse)
  qed
qed

definition calm_day :: WeatherSnapshot where
  "calm_day = \<lparr>temperature = 18, apparentTemp = 17, humidity = 50, windSpeed = 5, precipitation = 0, weatherCode = 1\<rparr>"

definition asked_at :: "instant \<Rightarrow> snapshot_env" where
  "asked_at t = \<lparr>se_get = Replied, se_getAt = t, se_set = Replied, se_setAt = t + 5,
     se_http = (\<lambda>_. Some (Some [(''temperature_2m'', 18), (''apparent_temperature'', 17), (''relative_humidity_2m'', 50),
       (''wind_speed_10m'', 5), (''precipitation'', 0), (''weather_code'', 1)]))\<rparr>"

theorem snapshot_cache_roundtrip_witness:
  "fst (getSnapshot mem_redis (\<lambda>_. Inr calm_day) (\<lambda>_. ''calm'') (of_int 240) (asked_at 240004) (52 + 1/2) 13
     (snd (getSnapshot mem_redis (\<lambda>_. Inr calm_day) (\<lambda>_. ''calm'') (of_int 240) (asked_at 0) (52 + 1/2) 13 Map.empty))) = Inr calm_day"
proof -
  let ?g = "getSnapshot mem_redis (\<lambda>_. Inr calm_day) (\<lambda>_. ''calm'') (of_int 240) (asked_at 0) (52 + 1/2) 13 Map.empty"
  have "fst ?g = Inr calm_day" by code_simp
  then have "?g = (Inr calm_day, snd ?g)" by (simp add: prod_eq_iff)
  from snapshot_cache_roundtrip [OF mem.redis_spec_axioms _ _ _ _ _ this, where env' = "asked_at 240004"] show ?thesis
    by (simp add: quick_def asked_at_def)
qed

end
