(* ===== verification/Proxy.thy ===== *)
theory Proxy
  imports WeatherProvider Users
begin

text \<open>
  \<open>open-meteo/forecast.service.ts\<close> and \<open>geocode.service.ts\<close> of core-api: the cached proxies in front of
  Open-Meteo. The upstream is a parameter: nothing when the request failed, otherwise the body as the
  schema accepted it, or nothing when it did not. The JSON codec of the cache is a parameter. The two
  differ in what an outage of the upstream means: a 503 for the forecast, no matches for the geocoder.
\<close>

section \<open>The forecast\<close>

definition FORECAST_CACHE_TTL_SEC :: int where "FORECAST_CACHE_TTL_SEC = 300"

record forecast_current =
  cw_time :: string
  cw_temperature :: rat
  cw_apparentTemp :: rat
  cw_humidity :: rat
  cw_windSpeed :: rat
  cw_precipitation :: rat
  cw_weatherCode :: rat

record forecast_daily =
  dl_time :: "string list"
  dl_weather_code :: "rat list"
  dl_temperature_2m_max :: "rat list"
  dl_temperature_2m_min :: "rat list"
  dl_precipitation_probability_max :: "rat option list"

text \<open>An array read past its end is \<open>undefined\<close>, so the numeric fields are optional.\<close>

record DailyForecastDto =
  df_date :: string
  df_weatherCode :: "rat option"
  df_tempMax :: "rat option"
  df_tempMin :: "rat option"
  df_precipitationProbability :: "rat option"

record ForecastResponseDto =
  fr_current :: forecast_current
  fr_daily :: "DailyForecastDto list"

definition elem_at :: "'a list \<Rightarrow> nat \<Rightarrow> 'a option" where
  "elem_at xs i = (if i < length xs then Some (xs ! i) else None)"

definition toReport :: "forecast_current \<Rightarrow> forecast_daily \<Rightarrow> ForecastResponseDto" where
  "toReport c d =
     \<lparr>fr_current = c,
      fr_daily = map (\<lambda>(i, date). \<lparr>df_date = date, df_weatherCode = elem_at (dl_weather_code d) i, df_tempMax = elem_at (dl_temperature_2m_max d) i,
          df_tempMin = elem_at (dl_temperature_2m_min d) i,
          df_precipitationProbability = (case elem_at (dl_precipitation_probability_max d) i of Some p \<Rightarrow> p | None \<Rightarrow> None)\<rparr>)
        (enumerate 0 (dl_time d))\<rparr>"

definition forecast_key :: "rat \<Rightarrow> rat \<Rightarrow> string" where
  "forecast_key latitude longitude = ''forecast:'' @ toFixed2 latitude @ '':'' @ toFixed2 longitude"

definition forecast_get ::
  "'r redis \<Rightarrow> (string \<Rightarrow> (redis_error, ForecastResponseDto) result) \<Rightarrow> (ForecastResponseDto \<Rightarrow> string) \<Rightarrow>
   (rat \<Rightarrow> rat \<Rightarrow> (forecast_current \<times> forecast_daily) option option) \<Rightarrow> request_env \<Rightarrow> rat \<Rightarrow> rat \<Rightarrow> ('r, ForecastResponseDto) act" where
  "forecast_get R parse stringify http env latitude longitude s =
     (let key = forecast_key latitude longitude in
      case getJson R (rq_io env 0) parse (ap_redis s) (rq_now env) key of
        Inl _ \<Rightarrow> (Inl CacheError, s)
      | Inr (Some cached) \<Rightarrow> (Inr cached, s)
      | Inr None \<Rightarrow>
          (case http latitude longitude of
             Some (Some (c, d)) \<Rightarrow>
               (case setJson R (rq_io env 1) stringify (ap_redis s) (rq_now env) key (toReport c d) FORECAST_CACHE_TTL_SEC of
                  (Inl _, r) \<Rightarrow> (Inl CacheError, s\<lparr>ap_redis := r\<rparr>)
                | (Inr _, r) \<Rightarrow> (Inr (toReport c d), s\<lparr>ap_redis := r\<rparr>))
           | _ \<Rightarrow> (Inl (ServiceUnavailable ''Weather data is unavailable''), s)))"

section \<open>The geocoder\<close>

definition RESULT_COUNT :: nat where "RESULT_COUNT = 5"
definition GEOCODE_CACHE_TTL_SEC :: int where "GEOCODE_CACHE_TTL_SEC = 24 * 60 * 60"

record GeocodeResultDto =
  gr_name :: string
  gr_country :: "string option"
  gr_admin1 :: "string option"
  gr_latitude :: rat
  gr_longitude :: rat

definition geocode_key :: "crypto \<Rightarrow> string \<Rightarrow> string" where
  "geocode_key C q = ''geocode:'' @ cr_sha256 C (cr_lower C (js_trim q))"

text \<open>The body's \<open>results\<close> may be missing; the places come with the fields of the response.\<close>

definition geocode_search ::
  "'r redis \<Rightarrow> crypto \<Rightarrow> (string \<Rightarrow> (redis_error, GeocodeResultDto list) result) \<Rightarrow> (GeocodeResultDto list \<Rightarrow> string) \<Rightarrow>
   (string \<Rightarrow> nat \<Rightarrow> GeocodeResultDto list option option option) \<Rightarrow> request_env \<Rightarrow> string \<Rightarrow> ('r, GeocodeResultDto list) act" where
  "geocode_search R C parse stringify http env q s =
     (let key = geocode_key C q in
      case getJson R (rq_io env 0) parse (ap_redis s) (rq_now env) key of
        Inl _ \<Rightarrow> (Inl CacheError, s)
      | Inr (Some cached) \<Rightarrow> (Inr cached, s)
      | Inr None \<Rightarrow>
          (case http q RESULT_COUNT of
             Some (Some res) \<Rightarrow>
               (let found = (case res of Some rs \<Rightarrow> rs | None \<Rightarrow> []) in
                case setJson R (rq_io env 1) stringify (ap_redis s) (rq_now env) key found GEOCODE_CACHE_TTL_SEC of
                  (Inl _, r) \<Rightarrow> (Inl CacheError, s\<lparr>ap_redis := r\<rparr>)
                | (Inr _, r) \<Rightarrow> (Inr found, s\<lparr>ap_redis := r\<rparr>))
           | _ \<Rightarrow> (Inr [], s)))"

section \<open>What an outage costs\<close>

text \<open>
  An upstream outage never reaches the cache: the geocoder answers with no matches and the forecast with
  a 503, and the next request asks again. An outage of Redis fails both.
\<close>

lemma upstream_outage:
  assumes "getJson R (rq_io env 0) parse (ap_redis s) (rq_now env) (geocode_key C q) = Inr None"
    and "getJson R (rq_io env 0) parse' (ap_redis s) (rq_now env) (forecast_key lat lon) = Inr None"
  shows "geocode_search R C parse stringify (\<lambda>_ _. None) env q s = (Inr [], s)"
    and "forecast_get R parse' stringify' (\<lambda>_ _. None) env lat lon s = (Inl (ServiceUnavailable ''Weather data is unavailable''), s)"
  using assms by (simp_all add: geocode_search_def forecast_get_def)

lemma cache_outage:
  assumes "rq_io env 0 \<noteq> Replied"
  shows "geocode_search R C parse stringify http env q s = (Inl CacheError, s)"
    and "forecast_get R parse' stringify' http' env lat lon s = (Inl CacheError, s)"
  using assms by (cases "rq_io env 0"; simp add: geocode_search_def forecast_get_def getJson_def)+

text \<open>Two spellings of a query that trim and fold to the same text share one entry.\<close>

context redis_spec
begin

lemma geocode_shared:
  assumes "geocode_search R C parse stringify http env q s = (Inr found, s')" and "http q RESULT_COUNT = Some (Some res)"
    and "live (rq_now env) (view (ap_redis s) (geocode_key C q)) = None"
    and "cr_lower C (js_trim q') = cr_lower C (js_trim q)" and "parse (stringify found) = Inr found" and "stringify found \<noteq> []"
    and "rq_io env' 0 = Replied" and "rq_now env' < rq_now env + 1000 * GEOCODE_CACHE_TTL_SEC"
  shows "geocode_search R C parse stringify http' env' q' s' = (Inr found, s')"
proof -
  have k: "geocode_key C q' = geocode_key C q" using assms(4) by (simp add: geocode_key_def)
  have io: "rq_io env 0 = Replied" using assms(1) by (cases "rq_io env 0") (auto simp: geocode_search_def getJson_def)
  obtain r where r: "setJson R (rq_io env 1) stringify (ap_redis s) (rq_now env) (geocode_key C q) found GEOCODE_CACHE_TTL_SEC = (Inr (), r)"
    "s' = s\<lparr>ap_redis := r\<rparr>"
    using assms(1-3) io by (auto simp: geocode_search_def getJson_def get Let_def split: prod.splits sum.splits option.splits)
  have "view r (geocode_key C q) = Some (stringify found, Some (rq_now env + 1000 * GEOCODE_CACHE_TTL_SEC))"
    using r(1) set_effect [of "Some (1000 * GEOCODE_CACHE_TTL_SEC)" "ap_redis s" "rq_now env" "geocode_key C q" "stringify found" False]
    by (cases "rset R (ap_redis s) (rq_now env) (geocode_key C q) (stringify found) (Some (1000 * GEOCODE_CACHE_TTL_SEC)) False"; cases "rq_io env 1")
      (auto simp: setJson_def set_view_def GEOCODE_CACHE_TTL_SEC_def)
  then show ?thesis using assms(5-8) r(2) by (simp add: geocode_search_def k getJson_def get)
qed

end

end
