(* ===== verification/Routes.thy ===== *)
theory Routes
  imports Admin History Sessions Proxy
begin

text \<open>
  The HTTP surface of core-api: the controllers, their decorators and the order in which a request passes
  the throttler, the guards, the validation pipe and the handler (\<open>core-api.module.ts\<close>, \<open>main.ts\<close>). One
  datatype per controller lists its routes with their parsed arguments; one function per controller gives the
  handlers. A path that names no route is answered by the framework and is not modelled.
\<close>

section \<open>Routes\<close>

datatype auth_route =
    PostRegister string string
  | PostLogin string string
  | PostRefresh
  | PostLogout
  | GetAuthMe
  | PostVerifyEmail string
  | PostForgotPassword string
  | PostResetPassword string string
  | PostResendVerification

datatype users_route =
    GetMe
  | PatchMe UpdateProfileDto
  | DeleteMe string
  | PostTelegramLink
  | DeleteTelegram
  | GetPush
  | PostPush CreatePushSubscriptionDto
  | DeletePush string

datatype triggers_route =
    PostTrigger CreateTriggerDto
  | GetTriggers PaginationDto
  | GetTrigger ident
  | PatchTrigger ident UpdateTriggerDto
  | DeleteTriggers
  | DeleteTrigger ident
  | PostTest ident

datatype notifications_route =
    GetNotifications PaginationDto
  | DeleteNotifications
  | DeleteNotification ident

datatype pinned_route =
    GetPinned
  | PostPinned CreatePinnedCityDto
  | DeletePinned ident

datatype admin_route =
    GetStats
  | GetUsers PaginationDto
  | GetUser ident
  | PatchUser ident UpdateUserDto
  | DeleteUser ident
  | DeleteAnyTrigger ident

datatype endpoint =
    GetHealth
  | GetMeta
  | AuthRoute auth_route
  | UsersRoute users_route
  | TriggersRoute triggers_route
  | NotificationsRoute notifications_route
  | PinnedRoute pinned_route
  | GetWeather rat rat
  | GetGeocode string
  | AdminRoute admin_route

section \<open>Bodies\<close>

record HealthResponseDto =
  hb_status :: string

record MetaResponseDto =
  mb_limits :: ApiLimits

record AuthResponseDto =
  ar_accessToken :: string

record VerifyEmailResultDto =
  ve_verified :: bool

record ResendVerificationResultDto =
  rv_sent :: bool

record ForgotPasswordResultDto =
  fp_accepted :: bool

record ResetPasswordResultDto =
  rp_reset :: bool

record IdResultDto =
  ir_id :: ident

record CountResultDto =
  cr_count :: nat

record SuccessResultDto =
  sr_success :: bool

datatype body =
    HealthBody HealthResponseDto
  | MetaBody MetaResponseDto
  | TokenBody AuthResponseDto
  | AuthUserBody AuthUser
  | VerifyBody VerifyEmailResultDto
  | ResendBody ResendVerificationResultDto
  | ForgotBody ForgotPasswordResultDto
  | ResetBody ResetPasswordResultDto
  | IdBody IdResultDto
  | CountBody CountResultDto
  | SuccessBody SuccessResultDto
  | ProfileBody ProfileResponseDto
  | LinkBody "string \<times> string"
  | PushBody PushSubscriptionResponseDto
  | PushListBody "PushSubscriptionResponseDto list"
  | TriggerBody TriggerResponseDto
  | TriggerPage "TriggerResponseDto PaginatedResult"
  | TestBody "Channel list"
  | NotificationPage "NotificationResponseDto PaginatedResult"
  | PinnedBody PinnedCityResponseDto
  | PinnedListBody "PinnedCityResponseDto list"
  | ForecastBody ForecastResponseDto
  | GeocodeBody "GeocodeResultDto list"
  | StatsBody AdminStatsDto
  | UserPage "AdminUserDto PaginatedResult"
  | UserBody AdminUserDetailDto

section \<open>What the application is built from\<close>

text \<open>
  Libraries and configuration are arguments. Of the validation library: the length it measures, its checks of
  addresses and URLs, the host name of a URL and the zones of the runtime. Of the token library: the payload of
  an access token signed with a secret and not expired. Of the throttler: the key of a handler of a class for
  an address.
\<close>

record validators =
  va_len :: "string \<Rightarrow> nat"
  va_isEmail :: "string \<Rightarrow> bool"
  va_isHttpsUrl :: "string \<Rightarrow> bool"
  va_hostname :: "string \<Rightarrow> string option"
  va_timezones :: "string list"

record 'r app =
  app_redis :: "'r redis"
  app_crypto :: crypto
  app_jwt :: jwt
  app_auth :: auth_service
  app_verifyAccess :: "string \<Rightarrow> instant \<Rightarrow> string \<Rightarrow> (ident \<times> string \<times> Role) option"
  app_cookies :: CookieOptions
  app_config :: env
  app_validators :: validators
  app_throttleKey :: "string \<times> string \<Rightarrow> string \<Rightarrow> string"
  app_forecastCodec :: "(string \<Rightarrow> (redis_error, ForecastResponseDto) result) \<times> (ForecastResponseDto \<Rightarrow> string)"
  app_geocodeCodec :: "(string \<Rightarrow> (redis_error, GeocodeResultDto list) result) \<times> (GeocodeResultDto list \<Rightarrow> string)"

text \<open>A request, and the fates of what it calls: the two Redis calls of the guards, the broker and Open-Meteo.\<close>

record http_request =
  hr_ip :: string
  hr_bearer :: "string option"
  hr_cookies :: "string \<Rightarrow> string option"
  hr_endpoint :: endpoint

record fates =
  ft_env :: request_env
  ft_throttle :: io
  ft_guard :: io
  ft_published :: "nat \<Rightarrow> bool"
  ft_forecast :: "rat \<Rightarrow> rat \<Rightarrow> (forecast_current \<times> forecast_daily) option option"
  ft_geocode :: "string \<Rightarrow> nat \<Rightarrow> GeocodeResultDto list option option option"

section \<open>Decorators\<close>

datatype guard = JwtAuthGuard | AdminGuard

record decorators =
  de_handler :: "string \<times> string"
  de_guards :: "guard list"
  de_limit :: int

text \<open>The module's throttler: sixty requests in sixty seconds, unless a route says otherwise.\<close>

definition THROTTLE_TTL :: int where "THROTTLE_TTL = 60000"
definition THROTTLE_LIMIT :: int where "THROTTLE_LIMIT = 60"

definition on :: "string \<Rightarrow> guard list \<Rightarrow> string \<Rightarrow> int \<Rightarrow> decorators" where
  "on c gs h n = \<lparr>de_handler = (c, h), de_guards = gs, de_limit = n\<rparr>"

fun auth_decorators :: "auth_route \<Rightarrow> decorators" where
  "auth_decorators (PostRegister _ _) = on ''AuthController'' [] ''register'' 10"
| "auth_decorators (PostLogin _ _) = on ''AuthController'' [] ''login'' 10"
| "auth_decorators PostRefresh = on ''AuthController'' [] ''refresh'' 20"
| "auth_decorators PostLogout = on ''AuthController'' [] ''logout'' 20"
| "auth_decorators GetAuthMe = on ''AuthController'' [JwtAuthGuard] ''me'' THROTTLE_LIMIT"
| "auth_decorators (PostVerifyEmail _) = on ''AuthController'' [] ''verifyEmail'' 10"
| "auth_decorators (PostForgotPassword _) = on ''AuthController'' [] ''forgotPassword'' 3"
| "auth_decorators (PostResetPassword _ _) = on ''AuthController'' [] ''resetPassword'' 10"
| "auth_decorators PostResendVerification = on ''AuthController'' [JwtAuthGuard] ''resendVerification'' 3"

fun users_decorators :: "users_route \<Rightarrow> decorators" where
  "users_decorators GetMe = on ''UsersController'' [JwtAuthGuard] ''me'' THROTTLE_LIMIT"
| "users_decorators (PatchMe _) = on ''UsersController'' [JwtAuthGuard] ''updateMe'' THROTTLE_LIMIT"
| "users_decorators (DeleteMe _) = on ''UsersController'' [JwtAuthGuard] ''deleteMe'' 5"
| "users_decorators PostTelegramLink = on ''UsersController'' [JwtAuthGuard] ''telegramLink'' THROTTLE_LIMIT"
| "users_decorators DeleteTelegram = on ''UsersController'' [JwtAuthGuard] ''unlinkTelegram'' THROTTLE_LIMIT"
| "users_decorators GetPush = on ''UsersController'' [JwtAuthGuard] ''listPush'' THROTTLE_LIMIT"
| "users_decorators (PostPush _) = on ''UsersController'' [JwtAuthGuard] ''addPush'' THROTTLE_LIMIT"
| "users_decorators (DeletePush _) = on ''UsersController'' [JwtAuthGuard] ''removePush'' THROTTLE_LIMIT"

fun triggers_decorators :: "triggers_route \<Rightarrow> decorators" where
  "triggers_decorators (PostTrigger _) = on ''TriggersController'' [JwtAuthGuard] ''create'' THROTTLE_LIMIT"
| "triggers_decorators (GetTriggers _) = on ''TriggersController'' [JwtAuthGuard] ''findAll'' THROTTLE_LIMIT"
| "triggers_decorators (GetTrigger _) = on ''TriggersController'' [JwtAuthGuard] ''findOne'' THROTTLE_LIMIT"
| "triggers_decorators (PatchTrigger _ _) = on ''TriggersController'' [JwtAuthGuard] ''update'' THROTTLE_LIMIT"
| "triggers_decorators DeleteTriggers = on ''TriggersController'' [JwtAuthGuard] ''clear'' THROTTLE_LIMIT"
| "triggers_decorators (DeleteTrigger _) = on ''TriggersController'' [JwtAuthGuard] ''remove'' THROTTLE_LIMIT"
| "triggers_decorators (PostTest _) = on ''TriggersController'' [JwtAuthGuard] ''test'' 20"

fun notifications_decorators :: "notifications_route \<Rightarrow> decorators" where
  "notifications_decorators (GetNotifications _) = on ''NotificationsController'' [JwtAuthGuard] ''findAll'' THROTTLE_LIMIT"
| "notifications_decorators DeleteNotifications = on ''NotificationsController'' [JwtAuthGuard] ''clear'' THROTTLE_LIMIT"
| "notifications_decorators (DeleteNotification _) = on ''NotificationsController'' [JwtAuthGuard] ''remove'' THROTTLE_LIMIT"

fun pinned_decorators :: "pinned_route \<Rightarrow> decorators" where
  "pinned_decorators GetPinned = on ''PinnedCitiesController'' [JwtAuthGuard] ''findAll'' THROTTLE_LIMIT"
| "pinned_decorators (PostPinned _) = on ''PinnedCitiesController'' [JwtAuthGuard] ''create'' THROTTLE_LIMIT"
| "pinned_decorators (DeletePinned _) = on ''PinnedCitiesController'' [JwtAuthGuard] ''remove'' THROTTLE_LIMIT"

fun admin_decorators :: "admin_route \<Rightarrow> decorators" where
  "admin_decorators GetStats = on ''AdminController'' [JwtAuthGuard, AdminGuard] ''stats'' THROTTLE_LIMIT"
| "admin_decorators (GetUsers _) = on ''AdminController'' [JwtAuthGuard, AdminGuard] ''listUsers'' THROTTLE_LIMIT"
| "admin_decorators (GetUser _) = on ''AdminController'' [JwtAuthGuard, AdminGuard] ''getUser'' THROTTLE_LIMIT"
| "admin_decorators (PatchUser _ _) = on ''AdminController'' [JwtAuthGuard, AdminGuard] ''updateUser'' THROTTLE_LIMIT"
| "admin_decorators (DeleteUser _) = on ''AdminController'' [JwtAuthGuard, AdminGuard] ''deleteUser'' THROTTLE_LIMIT"
| "admin_decorators (DeleteAnyTrigger _) = on ''AdminController'' [JwtAuthGuard, AdminGuard] ''deleteTrigger'' THROTTLE_LIMIT"

fun decorators_of :: "endpoint \<Rightarrow> decorators" where
  "decorators_of GetHealth = on ''CoreApiController'' [] ''health'' THROTTLE_LIMIT"
| "decorators_of GetMeta = on ''MetaController'' [] ''get'' THROTTLE_LIMIT"
| "decorators_of (AuthRoute r) = auth_decorators r"
| "decorators_of (UsersRoute r) = users_decorators r"
| "decorators_of (TriggersRoute r) = triggers_decorators r"
| "decorators_of (NotificationsRoute r) = notifications_decorators r"
| "decorators_of (PinnedRoute r) = pinned_decorators r"
| "decorators_of (GetWeather _ _) = on ''ForecastController'' [JwtAuthGuard] ''get'' 30"
| "decorators_of (GetGeocode _) = on ''GeocodeController'' [JwtAuthGuard] ''search'' 30"
| "decorators_of (AdminRoute r) = admin_decorators r"

section \<open>The validation pipe\<close>

definition valid_credentials :: "validators \<Rightarrow> string \<Rightarrow> string \<Rightarrow> bool" where
  "valid_credentials V email password \<longleftrightarrow> va_isEmail V email \<and> 8 \<le> va_len V password \<and> va_len V password \<le> 72"

definition valid_reset :: "validators \<Rightarrow> string \<Rightarrow> string \<Rightarrow> bool" where
  "valid_reset V token password \<longleftrightarrow> token \<noteq> [] \<and> 8 \<le> va_len V password \<and> va_len V password \<le> 72"

definition optional :: "('a \<Rightarrow> bool) \<Rightarrow> 'a option \<Rightarrow> bool" where
  "optional p x \<longleftrightarrow> (case x of None \<Rightarrow> True | Some v \<Rightarrow> p v)"

definition nullable :: "('a \<Rightarrow> bool) \<Rightarrow> 'a patch \<Rightarrow> bool" where
  "nullable p x = optional (optional p) x"

definition valid_profile :: "validators \<Rightarrow> UpdateProfileDto \<Rightarrow> bool" where
  "valid_profile V dto \<longleftrightarrow> nullable HHMM (up_quietHoursStart dto) \<and> nullable HHMM (up_quietHoursEnd dto) \<and>
     nullable (\<lambda>z. z \<in> set (va_timezones V)) (up_timezone dto)"

definition valid_push :: "crypto \<Rightarrow> validators \<Rightarrow> CreatePushSubscriptionDto \<Rightarrow> bool" where
  "valid_push C V dto \<longleftrightarrow> va_isHttpsUrl V (cps_endpoint dto) \<and> isKnownPushHost C (va_hostname V) (cps_endpoint dto)"

text \<open>The patch of a trigger has the decorators of its creation, each on a field that may be absent.\<close>

definition valid_update :: "(string \<Rightarrow> nat) \<Rightarrow> UpdateTriggerDto \<Rightarrow> bool" where
  "valid_update len dto \<longleftrightarrow>
     optional (\<lambda>s. 1 \<le> len s \<and> len s \<le> 80) (ut_name dto) \<and> optional (\<lambda>s. 1 \<le> len s \<and> len s \<le> 120) (ut_city dto) \<and>
     optional (\<lambda>x. -90 \<le> x \<and> x \<le> 90) (ut_latitude dto) \<and> optional (\<lambda>x. -180 \<le> x \<and> x \<le> 180) (ut_longitude dto) \<and>
     optional (\<lambda>cs. cs \<noteq> [] \<and> length cs \<le> maxConditionsPerTrigger API_LIMITS) (ut_conditions dto) \<and>
     optional (\<lambda>cs. cs \<noteq> [] \<and> distinct cs \<and> length cs \<le> maxChannelsPerTrigger API_LIMITS) (ut_channels dto) \<and>
     optional (\<lambda>c. minCooldownMin API_LIMITS \<le> c \<and> c \<le> maxCooldownMin API_LIMITS) (ut_cooldownMin dto)"

definition valid_pinned :: "(string \<Rightarrow> nat) \<Rightarrow> CreatePinnedCityDto \<Rightarrow> bool" where
  "valid_pinned len dto \<longleftrightarrow>
     1 \<le> len (cp_name dto) \<and> len (cp_name dto) \<le> 120 \<and> optional (\<lambda>s. 1 \<le> len s \<and> len s \<le> 120) (cp_country dto) \<and>
     optional (\<lambda>s. 1 \<le> len s \<and> len s \<le> 120) (cp_admin1 dto) \<and>
     -90 \<le> cp_latitude dto \<and> cp_latitude dto \<le> 90 \<and> -180 \<le> cp_longitude dto \<and> cp_longitude dto \<le> 180"

definition valid_forecast :: "rat \<Rightarrow> rat \<Rightarrow> bool" where
  "valid_forecast latitude longitude \<longleftrightarrow> -90 \<le> latitude \<and> latitude \<le> 90 \<and> -180 \<le> longitude \<and> longitude \<le> 180"

definition valid_geocode :: "(string \<Rightarrow> nat) \<Rightarrow> string \<Rightarrow> bool" where
  "valid_geocode len q \<longleftrightarrow> 2 \<le> len q \<and> len q \<le> 100"

fun valid_auth :: "validators \<Rightarrow> auth_route \<Rightarrow> bool" where
  "valid_auth V (PostRegister email password) = valid_credentials V email password"
| "valid_auth V (PostLogin email _) = va_isEmail V email"
| "valid_auth V (PostVerifyEmail token) = (token \<noteq> [])"
| "valid_auth V (PostForgotPassword email) = va_isEmail V email"
| "valid_auth V (PostResetPassword token password) = valid_reset V token password"
| "valid_auth V _ = True"

fun valid_users :: "crypto \<Rightarrow> validators \<Rightarrow> users_route \<Rightarrow> bool" where
  "valid_users C V (PatchMe dto) = valid_profile V dto"
| "valid_users C V (DeleteMe password) = (password \<noteq> [])"
| "valid_users C V (PostPush dto) = valid_push C V dto"
| "valid_users C V _ = True"

fun valid_triggers :: "validators \<Rightarrow> triggers_route \<Rightarrow> bool" where
  "valid_triggers V (PostTrigger dto) = valid_create (va_len V) dto"
| "valid_triggers V (PatchTrigger _ dto) = valid_update (va_len V) dto"
| "valid_triggers V (GetTriggers dto) = valid_pagination dto"
| "valid_triggers V _ = True"

fun valid :: "crypto \<Rightarrow> validators \<Rightarrow> endpoint \<Rightarrow> bool" where
  "valid C V GetHealth = True"
| "valid C V GetMeta = True"
| "valid C V (AuthRoute r) = valid_auth V r"
| "valid C V (UsersRoute r) = valid_users C V r"
| "valid C V (TriggersRoute r) = valid_triggers V r"
| "valid C V (NotificationsRoute r) = (case r of GetNotifications dto \<Rightarrow> valid_pagination dto | _ \<Rightarrow> True)"
| "valid C V (PinnedRoute r) = (case r of PostPinned dto \<Rightarrow> valid_pinned (va_len V) dto | _ \<Rightarrow> True)"
| "valid C V (GetWeather latitude longitude) = valid_forecast latitude longitude"
| "valid C V (GetGeocode q) = valid_geocode (va_len V) q"
| "valid C V (AdminRoute r) = (case r of GetUsers dto \<Rightarrow> valid_pagination dto | _ \<Rightarrow> True)"

section \<open>Handlers\<close>

definition answers :: "('a \<Rightarrow> body) \<Rightarrow> ('r, 'a) act \<Rightarrow> ('r, body) route" where
  "answers f m s = (case m s of (x, s') \<Rightarrow> (map_sum id f x, [], s'))"

definition replies :: "('a \<Rightarrow> body) \<Rightarrow> ('r, 'a) route \<Rightarrow> ('r, body) route" where
  "replies f m s = (case m s of (x, ops, s') \<Rightarrow> (map_sum id f x, ops, s'))"

definition token_body :: "string \<Rightarrow> body" where "token_body t = TokenBody \<lparr>ar_accessToken = t\<rparr>"
definition id_body :: "ident \<Rightarrow> body" where "id_body i = IdBody \<lparr>ir_id = i\<rparr>"
definition count_body :: "nat \<Rightarrow> body" where "count_body n = CountBody \<lparr>cr_count = n\<rparr>"
definition success_body :: "bool \<Rightarrow> body" where "success_body b = SuccessBody \<lparr>sr_success = b\<rparr>"

text \<open>\<open>user\<close> is what \<open>@CurrentUser\<close> yields; a handler that does not take it ignores it.\<close>

fun AuthController :: "'r app \<Rightarrow> fates \<Rightarrow> (string \<Rightarrow> string option) \<Rightarrow> AuthUser \<Rightarrow> auth_route \<Rightarrow> ('r, body) route" where
  "AuthController A f cookies user (PostRegister email password) =
     replies token_body (post_register (app_crypto A) (app_jwt A) (app_auth A) (app_cookies A) (ft_env f) email password)"
| "AuthController A f cookies user (PostLogin email password) =
     replies token_body (post_login (app_redis A) (app_crypto A) (app_jwt A) (app_auth A) (app_cookies A) (ft_env f) email password)"
| "AuthController A f cookies user PostRefresh =
     replies token_body (post_refresh (app_crypto A) (app_jwt A) (app_auth A) (app_cookies A) (ft_env f) cookies)"
| "AuthController A f cookies user PostLogout =
     replies success_body (post_logout (app_jwt A) (app_auth A) (app_cookies A) (ft_env f) cookies)"
| "AuthController A f cookies user GetAuthMe = answers AuthUserBody (yields user)"
| "AuthController A f cookies user (PostVerifyEmail token) =
     answers (\<lambda>b. VerifyBody \<lparr>ve_verified = b\<rparr>) (verifyEmail (app_crypto A) (ft_env f) token)"
| "AuthController A f cookies user (PostForgotPassword email) =
     answers (\<lambda>b. ForgotBody \<lparr>fp_accepted = b\<rparr>) (forgotPassword (app_crypto A) (app_auth A) (ft_env f) email)"
| "AuthController A f cookies user (PostResetPassword token password) =
     answers (\<lambda>b. ResetBody \<lparr>rp_reset = b\<rparr>) (resetPassword (app_crypto A) (ft_env f) token password)"
| "AuthController A f cookies user PostResendVerification =
     answers (\<lambda>b. ResendBody \<lparr>rv_sent = b\<rparr>) (resendVerification (app_crypto A) (app_auth A) (ft_env f) (au_userId user))"

fun UsersController :: "'r app \<Rightarrow> fates \<Rightarrow> AuthUser \<Rightarrow> users_route \<Rightarrow> ('r, body) route" where
  "UsersController A f user GetMe = answers ProfileBody (getProfile (rq_sql (ft_env f) 0) (au_userId user))"
| "UsersController A f user (PatchMe dto) = answers ProfileBody (updateProfile (ft_env f) (au_userId user) dto)"
| "UsersController A f user (DeleteMe password) =
     replies success_body (delete_me (app_redis A) (app_crypto A) (as_accessTtlMs (app_auth A)) (app_cookies A) (ft_env f) (au_userId user) password)"
| "UsersController A f user PostTelegramLink =
     answers LinkBody (createTelegramLink (app_crypto A) (ft_env f) (au_userId user)
       (case app_config A ''TELEGRAM_BOT_USERNAME'' of Some b \<Rightarrow> b | None \<Rightarrow> ''''))"
| "UsersController A f user DeleteTelegram = answers success_body (unlinkTelegram (ft_env f) (au_userId user))"
| "UsersController A f user GetPush = answers PushListBody (listPushSubscriptions (ft_env f) (au_userId user))"
| "UsersController A f user (PostPush dto) = answers PushBody (addPushSubscription (ft_env f) (au_userId user) dto)"
| "UsersController A f user (DeletePush endpoint) = answers success_body (user_removePushSubscription (ft_env f) (au_userId user) endpoint)"

fun TriggersController :: "'r app \<Rightarrow> fates \<Rightarrow> AuthUser \<Rightarrow> triggers_route \<Rightarrow> ('r, body) route" where
  "TriggersController A f user (PostTrigger dto) = answers TriggerBody (CreateTriggerHandler (ft_env f) (au_userId user) dto)"
| "TriggersController A f user (GetTriggers dto) = answers TriggerPage (ListTriggersHandler (ft_env f) (au_userId user) dto)"
| "TriggersController A f user (GetTrigger i) = answers TriggerBody (GetTriggerHandler (ft_env f) (au_userId user) i)"
| "TriggersController A f user (PatchTrigger i dto) = answers TriggerBody (UpdateTriggerHandler (ft_env f) (au_userId user) i dto)"
| "TriggersController A f user DeleteTriggers = answers count_body (ClearTriggersHandler (ft_env f) (au_userId user))"
| "TriggersController A f user (DeleteTrigger i) = answers id_body (DeleteTriggerHandler (ft_env f) (au_userId user) i)"
| "TriggersController A f user (PostTest i) =
     answers TestBody (SendTestNotificationHandler (app_redis A) (ft_published f) (ft_env f) (au_userId user) i)"

fun NotificationsController :: "fates \<Rightarrow> AuthUser \<Rightarrow> notifications_route \<Rightarrow> ('r, body) route" where
  "NotificationsController f user (GetNotifications dto) = answers NotificationPage (findAll (ft_env f) (au_userId user) dto)"
| "NotificationsController f user DeleteNotifications = answers count_body (clear (ft_env f) (au_userId user))"
| "NotificationsController f user (DeleteNotification i) = answers id_body (remove_notification (ft_env f) (au_userId user) i)"

fun PinnedCitiesController :: "fates \<Rightarrow> AuthUser \<Rightarrow> pinned_route \<Rightarrow> ('r, body) route" where
  "PinnedCitiesController f user GetPinned = answers PinnedListBody (pinned_findAll (ft_env f) (au_userId user))"
| "PinnedCitiesController f user (PostPinned dto) = answers PinnedBody (pinned_create (ft_env f) (au_userId user) dto)"
| "PinnedCitiesController f user (DeletePinned i) = answers id_body (pinned_remove (ft_env f) (au_userId user) i)"

fun AdminController :: "'r app \<Rightarrow> fates \<Rightarrow> AuthUser \<Rightarrow> admin_route \<Rightarrow> ('r, body) route" where
  "AdminController A f user GetStats = answers StatsBody (reads (rq_sql (ft_env f) 0) stats)"
| "AdminController A f user (GetUsers dto) = answers UserPage (reads (rq_sql (ft_env f) 0) (listUsers dto))"
| "AdminController A f user (GetUser i) = answers UserBody (getUser (rq_sql (ft_env f) 0) i)"
| "AdminController A f user (PatchUser i dto) =
     answers UserBody (updateUser (app_redis A) (as_accessTtlMs (app_auth A)) (ft_env f) i dto)"
| "AdminController A f user (DeleteUser i) =
     answers id_body (deleteUser (app_redis A) (as_accessTtlMs (app_auth A)) (ft_env f) (au_userId user) i)"
| "AdminController A f user (DeleteAnyTrigger i) = answers id_body (admin_deleteTrigger (ft_env f) i)"

definition CoreApiController :: HealthResponseDto where
  "CoreApiController = \<lparr>hb_status = ''ok''\<rparr>"

definition MetaController :: MetaResponseDto where
  "MetaController = \<lparr>mb_limits = API_LIMITS\<rparr>"

definition ForecastController :: "'r app \<Rightarrow> fates \<Rightarrow> rat \<Rightarrow> rat \<Rightarrow> ('r, body) route" where
  "ForecastController A f latitude longitude =
     answers ForecastBody (forecast_get (app_redis A) (fst (app_forecastCodec A)) (snd (app_forecastCodec A)) (ft_forecast f) (ft_env f) latitude longitude)"

definition GeocodeController :: "'r app \<Rightarrow> fates \<Rightarrow> string \<Rightarrow> ('r, body) route" where
  "GeocodeController A f q =
     answers GeocodeBody (geocode_search (app_redis A) (app_crypto A) (fst (app_geocodeCodec A)) (snd (app_geocodeCodec A)) (ft_geocode f) (ft_env f) q)"

fun handler :: "'r app \<Rightarrow> fates \<Rightarrow> (string \<Rightarrow> string option) \<Rightarrow> AuthUser \<Rightarrow> endpoint \<Rightarrow> ('r, body) route" where
  "handler A f cookies user GetHealth = answers HealthBody (yields CoreApiController)"
| "handler A f cookies user GetMeta = answers MetaBody (yields MetaController)"
| "handler A f cookies user (AuthRoute r) = AuthController A f cookies user r"
| "handler A f cookies user (UsersRoute r) = UsersController A f user r"
| "handler A f cookies user (TriggersRoute r) = TriggersController A f user r"
| "handler A f cookies user (NotificationsRoute r) = NotificationsController f user r"
| "handler A f cookies user (PinnedRoute r) = PinnedCitiesController f user r"
| "handler A f cookies user (GetWeather latitude longitude) = ForecastController A f latitude longitude"
| "handler A f cookies user (GetGeocode q) = GeocodeController A f q"
| "handler A f cookies user (AdminRoute r) = AdminController A f user r"

section \<open>A request through the application\<close>

text \<open>The bearer token as passport reads it: the payload of a token of the access secret that has not expired.\<close>

definition passport :: "'r app \<Rightarrow> instant \<Rightarrow> http_request \<Rightarrow> AuthUser option" where
  "passport A now q =
     (case hr_bearer q of
        None \<Rightarrow> None
      | Some token \<Rightarrow> map_option jwt_validate (app_verifyAccess A (as_accessSecret (app_auth A)) now token))"

text \<open>The guards run in the order of the decorator; the first sets the user the second reads.\<close>

fun run_guards :: "'r app \<Rightarrow> fates \<Rightarrow> http_request \<Rightarrow> 'r \<Rightarrow> AuthUser option \<Rightarrow> guard list \<Rightarrow> (http_error, AuthUser option) result" where
  "run_guards A f q r user [] = Inr user"
| "run_guards A f q r user (JwtAuthGuard # gs) =
     (case jwt_canActivate (app_redis A) (ft_guard f) (rq_now (ft_env f)) (passport A (rq_now (ft_env f)) q) r of
        Inl e \<Rightarrow> Inl e
      | Inr u \<Rightarrow> run_guards A f q r (Some u) gs)"
| "run_guards A f q r user (AdminGuard # gs) =
     (case admin_canActivate user of Inl e \<Rightarrow> Inl e | Inr _ \<Rightarrow> run_guards A f q r user gs)"

text \<open>A public handler runs without a user; \<open>nobody\<close> stands for the one it never reads.\<close>

definition nobody :: AuthUser where
  "nobody = \<lparr>au_userId = '''', au_email = '''', au_role = USER\<rparr>"

text \<open>What happens before a handler runs: the throttler, the guards, and the validation of the arguments.\<close>

definition admit :: "'r app \<Rightarrow> fates \<Rightarrow> http_request \<Rightarrow> 'r \<Rightarrow> (http_error, AuthUser) result \<times> 'r" where
  "admit A f q r0 =
     (let de = decorators_of (hr_endpoint q); now = rq_now (ft_env f) in
      case increment (app_redis A) (ft_throttle f) r0 now (app_throttleKey A (de_handler de) (hr_ip q)) THROTTLE_TTL (de_limit de)
             THROTTLE_TTL ''default'' of
        (record, r) \<Rightarrow>
          if t_isBlocked record then (Inl (TooManyRequests (t_timeToBlockExpire record)), r)
          else (case run_guards A f q r None (de_guards de) of
                  Inl e \<Rightarrow> Inl e
                | Inr user \<Rightarrow>
                    if \<not> valid (app_crypto A) (app_validators A) (hr_endpoint q) then Inl ValidationFailed
                    else Inr (case user of Some u \<Rightarrow> u | None \<Rightarrow> nobody), r))"

definition serve :: "'r app \<Rightarrow> fates \<Rightarrow> http_request \<Rightarrow> ('r, body) route" where
  "serve A f q s =
     (case admit A f q (ap_redis s) of
        (Inl e, r) \<Rightarrow> (Inl e, [], s\<lparr>ap_redis := r\<rparr>)
      | (Inr user, r) \<Rightarrow> handler A f (hr_cookies q) user (hr_endpoint q) (s\<lparr>ap_redis := r\<rparr>))"

section \<open>Nothing runs unguarded\<close>

text \<open>The routes meant to be reached without a token.\<close>

fun public_auth :: "auth_route \<Rightarrow> bool" where
  "public_auth GetAuthMe = False"
| "public_auth PostResendVerification = False"
| "public_auth _ = True"

fun public :: "endpoint \<Rightarrow> bool" where
  "public GetHealth = True"
| "public GetMeta = True"
| "public (AuthRoute r) = public_auth r"
| "public _ = False"

definition is_admin_route :: "endpoint \<Rightarrow> bool" where
  "is_admin_route e \<longleftrightarrow> (case e of AdminRoute _ \<Rightarrow> True | _ \<Rightarrow> False)"

lemma guards_of:
  "de_guards (decorators_of e) = (if public e then [] else if is_admin_route e then [JwtAuthGuard, AdminGuard] else [JwtAuthGuard])"
proof (cases e)
  case (AuthRoute r) then show ?thesis by (cases r) (simp_all add: on_def is_admin_route_def)
next
  case (UsersRoute r) then show ?thesis by (cases r) (simp_all add: on_def is_admin_route_def)
next
  case (TriggersRoute r) then show ?thesis by (cases r) (simp_all add: on_def is_admin_route_def)
next
  case (NotificationsRoute r) then show ?thesis by (cases r) (simp_all add: on_def is_admin_route_def)
next
  case (PinnedRoute r) then show ?thesis by (cases r) (simp_all add: on_def is_admin_route_def)
next
  case (AdminRoute r) then show ?thesis by (cases r) (simp_all add: on_def is_admin_route_def)
qed (simp_all add: on_def is_admin_route_def)

text \<open>The user of a request whose token was accepted and is not denied.\<close>

definition caller :: "'r app \<Rightarrow> fates \<Rightarrow> http_request \<Rightarrow> 'r \<Rightarrow> AuthUser \<Rightarrow> bool" where
  "caller A f q r u \<longleftrightarrow> passport A (rq_now (ft_env f)) q = Some u \<and>
     \<not> (au_userId u \<noteq> '''' \<and> isUserRevoked (app_redis A) (ft_guard f) r (rq_now (ft_env f)) (au_userId u))"

definition refusals :: "http_error set" where
  "refusals = range TooManyRequests \<union> {Unauthorized ''Unauthorized'', Unauthorized ''This session is no longer valid'',
     Forbidden ''Admin access required'', ValidationFailed}"

lemma admit_Inr:
  assumes "admit A f q r0 = (Inr u, r)"
  shows "(if public (hr_endpoint q) then u = nobody else caller A f q r u) \<and> valid (app_crypto A) (app_validators A) (hr_endpoint q) \<and>
    (is_admin_route (hr_endpoint q) \<longrightarrow> au_role u = ADMIN)"
  using assms
  by (auto simp: admit_def Let_def guards_of jwt_canActivate_def admin_canActivate_def caller_def is_admin_route_def
      split: prod.splits if_splits option.splits sum.splits endpoint.splits)

lemma admit_Inl:
  assumes "admit A f q r0 = (Inl e, r)" shows "e \<in> refusals"
  using assms
  by (auto simp: admit_def Let_def guards_of jwt_canActivate_def admin_canActivate_def refusals_def
      split: prod.splits if_splits option.splits sum.splits)

lemma serve_refused: "admit A f q (ap_redis s) = (Inl e, r) \<Longrightarrow> serve A f q s = (Inl e, [], s\<lparr>ap_redis := r\<rparr>)"
  by (simp add: serve_def)

lemma serve_admitted:
  "admit A f q (ap_redis s) = (Inr u, r) \<Longrightarrow> serve A f q s = handler A f (hr_cookies q) u (hr_endpoint q) (s\<lparr>ap_redis := r\<rparr>)"
  by (simp add: serve_def)

text \<open>
  C11: no handler runs for a caller it should not run for. Outside the health check, the limits and the
  sign-up, sign-in and recovery routes, a request is either that of the user of an accepted access token who
  is not denied, an administrator's on the administration routes, or it is refused by the throttler, the
  guards or the validation, and then neither the database nor the mail nor the broker has seen it and no
  cookie is set. Arguments that fail the validation never reach a handler.
\<close>

theorem guarded_surface:
  assumes "serve A f q s = (x, ops, s')" and "\<not> public (hr_endpoint q)"
  shows "(\<exists>u r. caller A f q r u \<and> (is_admin_route (hr_endpoint q) \<longrightarrow> au_role u = ADMIN) \<and>
      valid (app_crypto A) (app_validators A) (hr_endpoint q) \<and>
      (x, ops, s') = handler A f (hr_cookies q) u (hr_endpoint q) (s\<lparr>ap_redis := r\<rparr>)) \<or>
    (\<exists>e \<in> refusals. x = Inl e \<and> ops = [] \<and> ap_db s' = ap_db s \<and> ap_mailed s' = ap_mailed s \<and> ap_events s' = ap_events s)"
proof -
  obtain y r where y: "admit A f q (ap_redis s) = (y, r)" by force
  show ?thesis
  proof (cases y)
    case (Inl e)
    then show ?thesis using y serve_refused [of A f q s e r] admit_Inl [of A f q "ap_redis s" e r] assms(1) by auto
  next
    case (Inr u)
    then have "(x, ops, s') = handler A f (hr_cookies q) u (hr_endpoint q) (s\<lparr>ap_redis := r\<rparr>)"
      using y serve_admitted [of A f q s u r] assms(1) by simp
    then show ?thesis using y Inr admit_Inr [of A f q "ap_redis s" u r] assms(2) by auto
  qed
qed

section \<open>A concrete application\<close>

definition validators0 :: validators where
  "validators0 = \<lparr>va_len = length, va_isEmail = (\<lambda>s. CHR ''@'' \<in> set s), va_isHttpsUrl = (\<lambda>_. True), va_hostname = Some, va_timezones = [''UTC'']\<rparr>"

definition app0 :: "(string \<Rightarrow> entry option) app" where
  "app0 = \<lparr>app_redis = mem_redis, app_crypto = plain_crypto, app_jwt = open_jwt, app_auth = auth0,
     app_verifyAccess = (\<lambda>_ _ t. if t = ''alice'' then Some (''u1'', ''a@x.io'', USER) else if t = ''bob'' then Some (''u2'', ''b@x.io'', USER) else None),
     app_cookies = cookie_base core_env, app_config = core_env, app_validators = validators0, app_throttleKey = (\<lambda>(c, h) ip. c @ h @ ip),
     app_forecastCodec = (\<lambda>_. Inl RedisError, \<lambda>_. ''''), app_geocodeCodec = (\<lambda>_. Inl RedisError, \<lambda>_. '''')\<rparr>"

definition fates0 :: "instant \<Rightarrow> fates" where
  "fates0 t = \<lparr>ft_env = done_env t (\<lambda>n. ''uuid'' @ show_nat n), ft_throttle = Replied, ft_guard = Replied, ft_published = (\<lambda>_. True),
     ft_forecast = (\<lambda>_ _. None), ft_geocode = (\<lambda>_ _. None)\<rparr>"

definition asking :: "string option \<Rightarrow> endpoint \<Rightarrow> http_request" where
  "asking bearer e = \<lparr>hr_ip = ''10.0.0.1'', hr_bearer = bearer, hr_cookies = (\<lambda>_. None), hr_endpoint = e\<rparr>"

lemma asking_endpoint [simp]: "hr_endpoint (asking t e) = e"
  by (simp add: asking_def)

lemma passport0:
  "passport app0 n (asking (Some ''bob'') e) = Some \<lparr>au_userId = ''u2'', au_email = ''b@x.io'', au_role = USER\<rparr>"
  "passport app0 n (asking (Some ''alice'') e) = Some \<lparr>au_userId = ''u1'', au_email = ''a@x.io'', au_role = USER\<rparr>"
  "passport app0 n (asking None e) = None"
  by (simp_all add: passport_def asking_def app0_def jwt_validate_def)

theorem guarded_surface_witness:
  "\<exists>e \<in> refusals. fst (serve app0 (fates0 2000) (asking None (TriggersRoute DeleteTriggers)) api1) = Inl e \<and>
     ap_db (snd (snd (serve app0 (fates0 2000) (asking None (TriggersRoute DeleteTriggers)) api1))) = ap_db api1"
proof -
  obtain x ops s' where s: "serve app0 (fates0 2000) (asking None (TriggersRoute DeleteTriggers)) api1 = (x, ops, s')" by (metis prod.exhaust)
  have "\<not> public (hr_endpoint (asking None (TriggersRoute DeleteTriggers)))" by simp
  from guarded_surface [OF s this] show ?thesis by (auto simp: s caller_def passport0)
qed

end
