(* ===== verification/Policy.thy ===== *)
theory Policy
  imports Routes
begin

text \<open>
  Who may change what through the API. An account is everything stored of one user; the authority of a request
  is the set of users it may act for. Every handler spares the accounts outside its authority, one statement at
  a time; a locale carries that from one request to any sequence of them.
\<close>

section \<open>Accounts\<close>

record account =
  ac_user :: "User list"
  ac_triggers :: "TriggerRow list"
  ac_notifications :: "Notification list"
  ac_push :: "PushSubscription list"
  ac_tokens :: "RefreshToken list"
  ac_pinned :: "PinnedCity list"

definition account_of :: "ident \<Rightarrow> db \<Rightarrow> account" where
  "account_of v d =
     \<lparr>ac_user = filter (\<lambda>u. u_id u = v) (users d),
      ac_triggers = map (include_conditions d) (filter (\<lambda>t. tr_userId t = v) (triggers d)),
      ac_notifications = filter (\<lambda>n. n_userId n = v) (notifications d),
      ac_push = filter (\<lambda>p. ps_userId p = v) (pushSubs d),
      ac_tokens = filter (\<lambda>r. rt_userId r = v) (refreshTokens d),
      ac_pinned = filter (\<lambda>c. pc_userId c = v) (pinnedCities d)\<rparr>"

text \<open>Primary keys are unique, and a notification about a trigger belongs to the trigger's owner.\<close>

definition owners :: "db \<Rightarrow> (ident \<times> ident) list" where
  "owners d = map (\<lambda>t. (tr_id t, tr_userId t)) (triggers d)"

definition coherent :: "db \<Rightarrow> bool" where
  "coherent d \<longleftrightarrow> distinct (map u_id (users d)) \<and> distinct (map tr_id (triggers d)) \<and> distinct (map ps_endpoint (pushSubs d)) \<and>
     distinct (map rt_id (refreshTokens d)) \<and>
     (\<forall>n \<in> set (notifications d). \<forall>t. n_triggerId n = Some t \<longrightarrow> (t, n_userId n) \<in> set (owners d))"

lemma note_owner:
  assumes "coherent d" and "n \<in> set (notifications d)" and "n_triggerId n = Some t"
  obtains x where "x \<in> set (triggers d)" "tr_id x = t" "tr_userId x = n_userId n"
proof -
  have "(t, n_userId n) \<in> set (owners d)" using assms by (simp add: coherent_def)
  then show thesis using that by (auto simp: owners_def)
qed

lemma coherent_id: "coherent d \<Longrightarrow> x \<in> set (triggers d) \<Longrightarrow> y \<in> set (triggers d) \<Longrightarrow> tr_id x = tr_id y \<Longrightarrow> x = y"
  unfolding coherent_def distinct_map inj_on_def by blast

section \<open>Statements that spare an account\<close>

definition sparing :: "ident \<Rightarrow> db \<Rightarrow> db \<Rightarrow> bool" where
  "sparing v d d' \<longleftrightarrow> (coherent d \<longrightarrow> coherent d' \<and> account_of v d' = account_of v d)"

lemma sparing_refl [simp]: "sparing v d d"
  by (simp add: sparing_def)

lemma sparing_trans: "sparing v d d' \<Longrightarrow> sparing v d' d'' \<Longrightarrow> sparing v d d''"
  by (simp add: sparing_def)

lemma sparing_update_user:
  assumes "update_user i g d = Inr (x, d')" and "i \<noteq> v" and "\<And>u. u_id (g u) = u_id u"
  shows "sparing v d d'"
  using assms
  by (auto simp: sparing_def update_user_Inr coherent_def owners_def account_of_def include_conditions_def map_update_many
      intro!: filter_update_other)

lemma sparing_users_create:
  assumes "users_create i now email h d = Inr (u, d')" and "i \<noteq> v"
  shows "sparing v d d'"
  using assms
  by (auto simp: sparing_def users_create_def Let_def coherent_def owners_def account_of_def include_conditions_def new_user_def
      find_user_def find_unique_None split: if_splits)

lemma sparing_create_refresh:
  assumes "create_refresh r d = Inr (x, d')" and "rt_userId r \<noteq> v"
  shows "sparing v d d'"
  using assms
  by (auto simp: sparing_def create_refresh_def coherent_def owners_def account_of_def include_conditions_def find_unique_None split: if_splits) blast

lemma sparing_revoke_where:
  assumes "revoke_where p d = (n, d')" and "\<And>r. r \<in> set (refreshTokens d) \<Longrightarrow> p r \<Longrightarrow> rt_userId r \<noteq> v"
  shows "sparing v d d'"
  using assms
  by (auto simp: sparing_def revoke_where_def coherent_def owners_def account_of_def include_conditions_def map_update_many
      intro!: filter_update_other) blast+

lemma sparing_delete_notifications:
  assumes "delete_notifications p d = (n, d')" and "\<And>n. p n \<Longrightarrow> n_userId n \<noteq> v"
  shows "sparing v d d'"
  using assms
  by (auto simp: sparing_def delete_notifications_def coherent_def owners_def account_of_def include_conditions_def intro!: filter_delete_other) blast+

lemma sparing_pinned_insert:
  assumes "pinned_insert c d = Inr (x, d')" and "pc_userId c \<noteq> v"
  shows "sparing v d d'"
  using assms
  by (auto simp: sparing_def pinned_insert_def coherent_def owners_def account_of_def include_conditions_def split: if_splits)

lemma sparing_pinned_delete:
  assumes "\<And>c. p c \<Longrightarrow> pc_userId c \<noteq> v"
  shows "sparing v d (d\<lparr>pinnedCities := delete_many p (pinnedCities d)\<rparr>)"
  using assms
  by (auto simp: sparing_def coherent_def owners_def account_of_def include_conditions_def intro!: filter_delete_other)

lemma sparing_push_delete:
  assumes "\<And>c. p c \<Longrightarrow> ps_userId c \<noteq> v"
  shows "sparing v d (d\<lparr>pushSubs := delete_many p (pushSubs d)\<rparr>)"
  using assms
  by (auto simp: sparing_def coherent_def owners_def account_of_def include_conditions_def distinct_map_filter delete_many_def
      filter_filter intro!: filter_cong)

lemma sparing_upsert_push:
  assumes "upsert_push i now userId dto d = Inr (x, d')" and "userId \<noteq> v"
    and "\<And>s. find_unique (\<lambda>s. ps_endpoint s = cps_endpoint dto) (pushSubs d) = Some s \<Longrightarrow> ps_userId s = userId"
  shows "sparing v d d'"
proof (cases "find_unique (\<lambda>s. ps_endpoint s = cps_endpoint dto) (pushSubs d)")
  case None
  then have "\<forall>p \<in> set (pushSubs d). ps_endpoint p \<noteq> cps_endpoint dto" by (simp add: find_unique_None)
  then show ?thesis using assms(1,2) None
    by (auto simp: upsert_push_def Let_def sparing_def coherent_def owners_def account_of_def include_conditions_def split: if_splits) blast
next
  case (Some s)
  have "p = s" if "p \<in> set (pushSubs d)" "ps_endpoint p = cps_endpoint dto" "coherent d" for p
    using that find_unique_Some [OF Some] unfolding coherent_def distinct_map inj_on_def by auto
  then show ?thesis using assms Some
    by (auto simp: upsert_push_def sparing_def coherent_def owners_def account_of_def include_conditions_def map_update_many
        intro!: filter_update_other)
qed

lemma sparing_triggers:
  assumes "filter (\<lambda>t. tr_userId t = v) (triggers d') = filter (\<lambda>t. tr_userId t = v) (triggers d)"
    and "\<And>t. t \<in> set (triggers d) \<Longrightarrow> tr_userId t = v \<Longrightarrow>
      filter (\<lambda>c. tc_triggerId c = tr_id t) (conditions d') = filter (\<lambda>c. tc_triggerId c = tr_id t) (conditions d)"
    and "users d' = users d" "filter (\<lambda>n. n_userId n = v) (notifications d') = filter (\<lambda>n. n_userId n = v) (notifications d)"
    and "pushSubs d' = pushSubs d" "refreshTokens d' = refreshTokens d" "pinnedCities d' = pinnedCities d" "coherent d \<Longrightarrow> coherent d'"
  shows "sparing v d d'"
  using assms by (auto simp: sparing_def account_of_def include_conditions_def find_many_def)

lemma sparing_trigger_create:
  assumes "trigger_create i ids now userId dto l d = Inr (y, d')" and "userId \<noteq> v"
  shows "sparing v d d'"
proof (rule sparing_triggers)
  have new: "find_unique (\<lambda>x. tr_id x = i) (triggers d) = None" using assms by (auto simp: trigger_create_def Let_def split: if_splits)
  have d': "users d' = users d" "notifications d' = notifications d" "pushSubs d' = pushSubs d" "refreshTokens d' = refreshTokens d"
      "owners d' = owners d @ [(i, userId)]" "map tr_id (triggers d') = map tr_id (triggers d) @ [i]"
    using assms by (auto simp: trigger_create_def Let_def owners_def split: if_splits)
  then show "coherent d'" if "coherent d" using that new unfolding coherent_def d' by (auto simp: find_unique_None)
qed (use assms in \<open>auto simp: trigger_create_def Let_def filter_conditionRows find_unique_None split: if_splits\<close>)

lemma sparing_trigger_update:
  assumes "trigger_update ids i dto d = Inr (y, d')" and "own userId i d" and "userId \<noteq> v"
  shows "sparing v d d'"
proof -
  have tr: "triggers d' = update_many (\<lambda>t. tr_id t = i) (patch_trigger dto) (triggers d)"
    and rest: "users d' = users d" "notifications d' = notifications d" "pushSubs d' = pushSubs d" "refreshTokens d' = refreshTokens d"
      "pinnedCities d' = pinnedCities d"
    using assms(1) by (auto simp: trigger_update_def Let_def split: option.splits if_splits)
  have patch: "tr_id (patch_trigger dto t) = tr_id t" "tr_userId (patch_trigger dto t) = tr_userId t" for t
    by (simp_all add: patch_trigger_def)
  have "owners d' = owners d" "map tr_id (triggers d') = map tr_id (triggers d)"
    by (simp_all add: owners_def tr map_update_many patch)
  then have co: "coherent d'" if "coherent d" using that by (simp add: coherent_def rest)
  show ?thesis
  proof (cases "coherent d")
    case True
    then have owner: "tr_id t = i \<Longrightarrow> t \<in> set (triggers d) \<Longrightarrow> tr_userId t = userId" for t
      using owner_unique [of d userId i t] assms(2) by (simp add: coherent_def)
    show ?thesis
    proof (rule sparing_triggers)
      show "filter (\<lambda>t. tr_userId t = v) (triggers d') = filter (\<lambda>t. tr_userId t = v) (triggers d)"
        unfolding tr using owner assms(3) by (intro filter_update_other) (auto simp: patch)
      fix t assume "t \<in> set (triggers d)" "tr_userId t = v"
      then have "tr_id t \<noteq> i" using owner assms(3) by blast
      then show "filter (\<lambda>c. tc_triggerId c = tr_id t) (conditions d') = filter (\<lambda>c. tc_triggerId c = tr_id t) (conditions d)"
        using assms(1) by (auto simp: trigger_update_def Let_def filter_conditionRows split: option.splits if_splits intro!: filter_delete_other)
    qed (simp_all add: rest co)
  qed (simp add: sparing_def)
qed

text \<open>Deleting triggers empties the reference of their notifications, which are the owners' own.\<close>

lemma coherent_delete_triggers:
  assumes "coherent d" shows "coherent (delete_triggers p d)"
proof -
  have "(t, n_userId n) \<in> set (owners (delete_triggers p d))"
    if n0: "n \<in> set (notifications (delete_triggers p d))" "n_triggerId n = Some t" for n t
  proof -
    have n: "n \<in> set (notifications d)" "\<And>x. x \<in> set (triggers d) \<Longrightarrow> p x \<Longrightarrow> tr_id x \<noteq> t"
      using n0 by (auto simp: delete_triggers_def Let_def find_many_def set_update_many split: if_splits)
    obtain x where "x \<in> set (triggers d)" "tr_id x = t" "tr_userId x = n_userId n"
      by (rule note_owner [OF assms n(1) n0(2)])
    then show ?thesis using n(2) by (force simp: owners_def delete_triggers_def Let_def delete_many_def)
  qed
  moreover have "distinct (map tr_id (triggers (delete_triggers p d)))"
    using assms by (simp add: coherent_def delete_triggers_def Let_def delete_many_def distinct_map_filter)
  ultimately show ?thesis using assms by (simp add: coherent_def delete_triggers_def Let_def)
qed

lemma sparing_delete_triggers:
  assumes "\<And>t. t \<in> set (triggers d) \<Longrightarrow> p t \<Longrightarrow> tr_userId t \<noteq> v"
  shows "sparing v d (delete_triggers p d)"
proof (cases "coherent d")
  case True
  let ?gone = "map tr_id (find_many p (triggers d))"
  have gone: "tr_id t \<notin> set ?gone" if "t \<in> set (triggers d)" "tr_userId t = v" for t
    using that assms coherent_id [OF True that(1)] by (auto simp: find_many_def)
  show ?thesis
  proof (rule sparing_triggers)
    show "filter (\<lambda>t. tr_userId t = v) (triggers (delete_triggers p d)) = filter (\<lambda>t. tr_userId t = v) (triggers d)"
      using assms by (auto simp: delete_triggers_def Let_def delete_many_def intro!: filter_cong)
    show "filter (\<lambda>c. tc_triggerId c = tr_id t) (conditions (delete_triggers p d)) = filter (\<lambda>c. tc_triggerId c = tr_id t) (conditions d)"
      if "t \<in> set (triggers d)" "tr_userId t = v" for t
      using gone [OF that] by (auto simp: delete_triggers_def Let_def delete_many_def image_iff intro!: filter_cong)
    show "filter (\<lambda>n. n_userId n = v) (notifications (delete_triggers p d)) = filter (\<lambda>n. n_userId n = v) (notifications d)"
    proof -
      have "n_userId n \<noteq> v" if n: "n \<in> set (notifications d)" "\<exists>t \<in> set ?gone. n_triggerId n = Some t" for n
      proof -
        from n(2) obtain t where t: "t \<in> set (triggers d)" "p t" "n_triggerId n = Some (tr_id t)" by (auto simp: find_many_def)
        obtain x where "x \<in> set (triggers d)" "tr_id x = tr_id t" "tr_userId x = n_userId n"
          by (rule note_owner [OF True n(1) t(3)])
        then show ?thesis using t assms coherent_id [OF True] by metis
      qed
      then show ?thesis unfolding delete_triggers_def Let_def by (simp, intro filter_update_other) auto
    qed
    show "coherent (delete_triggers p d)" if "coherent d" using that by (rule coherent_delete_triggers)
  qed (simp_all add: delete_triggers_def Let_def)
qed (simp add: sparing_def)

lemma sparing_delete_user:
  assumes "i \<noteq> v" shows "sparing v d (delete_user i d)"
proof -
  let ?d = "delete_triggers (\<lambda>t. tr_userId t = i) d"
  have "sparing v d ?d" using assms by (intro sparing_delete_triggers) auto
  moreover have "sparing v ?d (delete_user i d)"
    using assms unfolding delete_user_def Let_def
    by (auto simp: sparing_def coherent_def owners_def account_of_def include_conditions_def delete_many_def
        filter_filter intro!: distinct_map_filter filter_cong)
  ultimately show ?thesis by (rule sparing_trans)
qed

section \<open>Actions that spare an account\<close>

abbreviation spares :: "ident \<Rightarrow> ('r, 'a) act \<Rightarrow> 'r api \<Rightarrow> bool" where
  "spares v \<equiv> obeys (sparing v)"

interpretation spares: db_preorder "sparing v"
  by unfold_locales (auto simp: sparing_def)

declare spares.r_pure [simp]

lemma spares_update_user:
  "i \<noteq> v \<Longrightarrow> (\<And>u. u_id (g u) = u_id u) \<Longrightarrow> spares v (executes f (update_user i g)) s"
  by (intro spares.r_executes) (auto intro: sparing_update_user)

lemma spares_user_write:
  "i \<noteq> v \<Longrightarrow> (\<And>u. u_id (g u) = u_id u) \<Longrightarrow> (\<And>x t. spares v (k x) t) \<Longrightarrow> spares v (andThen (executes f (update_user i g)) k) s"
  by (intro spares.r_andThen spares_update_user)

section \<open>Users\<close>

lemma spares_getProfile: "spares v (getProfile f userId) s"
  unfolding getProfile_def by (intro spares.r_after_read spares.r_option) auto

lemma spares_updateProfile: "userId \<noteq> v \<Longrightarrow> spares v (updateProfile env userId dto) s"
  unfolding updateProfile_def by (rule spares_user_write) (auto intro: spares_getProfile)

lemma spares_createTelegramLink: "userId \<noteq> v \<Longrightarrow> spares v (createTelegramLink C env userId b) s"
  unfolding createTelegramLink_def Let_def by (rule spares_user_write) auto

lemma spares_unlinkTelegram: "userId \<noteq> v \<Longrightarrow> spares v (unlinkTelegram env userId) s"
  unfolding unlinkTelegram_def by (rule spares_user_write) auto

lemma spares_listPush: "spares v (listPushSubscriptions env userId) s"
  unfolding listPushSubscriptions_def by (intro spares.r_after_read) auto

lemma spares_addPush:
  assumes "userId \<noteq> v" shows "spares v (addPushSubscription env userId dto) s"
  unfolding addPushSubscription_def
proof (intro spares.r_after_read spares.r_if spares.r_andThen spares.r_executes)
  fix x d
  assume "\<not> (case find_unique (\<lambda>s. ps_endpoint s = cps_endpoint dto) (pushSubs (ap_db s)) of None \<Rightarrow> False | Some s \<Rightarrow> ps_userId s \<noteq> userId)"
    and "upsert_push (rq_uuid env 0) (rq_now env) userId dto (ap_db s) = Inr (x, d)"
  then show "sparing v (ap_db s) d" using assms by (intro sparing_upsert_push [of _ _ userId dto]) auto
qed auto

lemma spares_removePush: "userId \<noteq> v \<Longrightarrow> spares v (user_removePushSubscription env userId e) s"
  unfolding user_removePushSubscription_def
  by (rule spares.r_andThen [OF spares.r_executes]) (auto intro!: sparing_push_delete)

lemma spares_deleteAccount: "userId \<noteq> v \<Longrightarrow> spares v (deleteAccount R C ttl env userId p) s"
  unfolding deleteAccount_def
  by (intro spares.r_after_read spares.r_option spares.r_if spares.r_andThen spares.r_executes)
    (auto simp: delete_user_row_def intro: sparing_delete_user split: if_splits)

section \<open>Triggers, history and pinned cities\<close>

lemma spares_findOwned:
  assumes "\<And>row. own userId i (ap_db s) \<Longrightarrow> spares v (k row) s"
  shows "spares v (andThen (findOwned f userId i) k) s"
proof (rule spares.r_andThen)
  show "spares v (findOwned f userId i) s" unfolding findOwned_def by (intro spares.r_after_read spares.r_option) auto
  show "spares v (k x) t" if "findOwned f userId i s = (Inr x, t)" for x t
    using findOwned_cases [OF that] assms by (auto simp: own_def)
qed

lemma spares_triggers:
  assumes "userId \<noteq> v"
  shows "spares v (CreateTriggerHandler env userId dto) s" and "spares v (UpdateTriggerHandler env userId i patch) s"
    and "spares v (DeleteTriggerHandler env userId i) s" and "spares v (ClearTriggersHandler env userId) s"
    and "spares v (GetTriggerHandler env userId i) s" and "spares v (ListTriggersHandler env userId pg) s"
proof -
  show "spares v (CreateTriggerHandler env userId dto) s" unfolding CreateTriggerHandler_def
    using assms by (intro spares.r_after_read spares.r_if spares.r_andThen spares.r_executes) (auto elim!: sparing_trigger_create)
  show "spares v (UpdateTriggerHandler env userId i patch) s" unfolding UpdateTriggerHandler_def
    using assms by (intro spares_findOwned spares.r_andThen spares.r_executes) (auto elim!: sparing_trigger_update)
  show "spares v (DeleteTriggerHandler env userId i) s" unfolding DeleteTriggerHandler_def
  proof (intro spares_findOwned spares.r_andThen spares.r_executes)
    fix x d
    assume "own userId i (ap_db s)" and d: "trigger_delete i (ap_db s) = Inr (x, d)"
    then have "coherent (ap_db s) \<Longrightarrow> sparing v (ap_db s) (delete_triggers (\<lambda>t. tr_id t = i) (ap_db s))"
      using owner_unique [of "ap_db s" userId i] assms by (intro sparing_delete_triggers) (auto simp: coherent_def)
    then show "sparing v (ap_db s) d" using d by (auto simp: trigger_delete_def sparing_def split: if_splits)
  qed auto
  show "spares v (ClearTriggersHandler env userId) s" unfolding ClearTriggersHandler_def
    using assms by (intro spares.r_executes) (auto simp: deleteAllForUser_def intro!: sparing_delete_triggers)
  show "spares v (GetTriggerHandler env userId i) s" unfolding GetTriggerHandler_def by (intro spares_findOwned) auto
  show "spares v (ListTriggersHandler env userId pg) s" unfolding ListTriggersHandler_def Let_def
    by (rule spares.r_after_read) (auto split: prod.splits)
qed

lemma spares_publish_test: "spares v (publish_test pub k cs ev) s"
  using publish_test_db [of pub k cs ev s "fst (publish_test pub k cs ev s)" "snd (publish_test pub k cs ev s)"] by (simp add: obeys_def)

lemma spares_test: "spares v (SendTestNotificationHandler R pub env userId i) s"
  unfolding SendTestNotificationHandler_def Let_def
  by (intro spares_findOwned spares.r_andThen spares_publish_test) (auto intro!: spares.r_andThen spares_publish_test split: sum.splits)

lemma spares_history:
  assumes "userId \<noteq> v"
  shows "spares v (findAll env userId pg) s" and "spares v (clear env userId) s" and "spares v (remove_notification env userId i) s"
proof -
  show "spares v (findAll env userId pg) s" unfolding findAll_def by (rule spares.r_after_read) auto
  show "spares v (clear env userId) s" unfolding clear_def
    using assms by (intro spares.r_executes) (auto intro: sparing_delete_notifications)
  show "spares v (remove_notification env userId i) s" unfolding remove_notification_def
    using assms by (intro spares.r_andThen spares.r_executes) (auto intro: sparing_delete_notifications)
qed

lemma spares_pinned:
  assumes "userId \<noteq> v"
  shows "spares v (pinned_findAll env userId) s" and "spares v (pinned_create env userId dto) s" and "spares v (pinned_remove env userId i) s"
proof -
  show "spares v (pinned_findAll env userId) s" unfolding pinned_findAll_def by simp
  show "spares v (pinned_create env userId dto) s" unfolding pinned_create_def
    using assms by (intro spares.r_after_read spares.r_if spares.r_andThen spares.r_query)
      (auto elim!: sparing_pinned_insert split: sum.splits db_error.splits)
  show "spares v (pinned_remove env userId i) s" unfolding pinned_remove_def
    using assms by (intro spares.r_andThen spares.r_executes) (auto intro!: sparing_pinned_delete)
qed

section \<open>Sessions\<close>

lemma spares_issueTokens: "userId \<noteq> v \<Longrightarrow> spares v (issueTokens C J a env n k userId email) s"
  unfolding issueTokens_def Let_def
  by (intro spares.r_after_read spares.r_andThen spares.r_executes) (auto intro: sparing_create_refresh)

lemma spares_sendDetached: "spares v (sendDetached a to subject html) s"
  by (simp add: obeys_def sendDetached_def)

lemma spares_sendVerificationEmail: "userId \<noteq> v \<Longrightarrow> spares v (sendVerificationEmail C a env n k userId email) s"
  unfolding sendVerificationEmail_def Let_def by (rule spares_user_write) (auto intro: spares_sendDetached)

lemma spares_register: "rq_uuid env 1 \<noteq> v \<Longrightarrow> spares v (register C J a env email password) s"
  unfolding register_def Let_def
proof (intro spares.r_after_read spares.r_if spares.r_andThen spares.r_executes)
  fix u t
  assume "rq_uuid env 1 \<noteq> v" "executes (rq_sql env 1) (users_create (rq_uuid env 1) (rq_now env) email (cr_bcrypt C (rq_uuid env 0) password)) s = (Inr u, t)"
  then have "u_id u \<noteq> v" by (auto simp: executes_Inr users_create_def Let_def new_user_def split: if_splits)
  then show "spares v (sendVerificationEmail C a env 2 2 (u_id u) (u_email u)) t"
    and "spares v (issueTokens C J a env 3 3 (u_id u) (u_email u)) t'" for t'
    by (auto intro: spares_sendVerificationEmail spares_issueTokens)
qed (auto intro: sparing_users_create)

definition by_email :: "string \<Rightarrow> db \<Rightarrow> ident set" where
  "by_email email d = set (map u_id (find_many (\<lambda>u. u_email u = email) (users d)))"

definition by_verification :: "crypto \<Rightarrow> string \<Rightarrow> db \<Rightarrow> ident set" where
  "by_verification C token d = set (map u_id (find_many (\<lambda>u. u_emailVerificationTokenHash u = Some (hashToken C token)) (users d)))"

definition by_reset :: "crypto \<Rightarrow> string \<Rightarrow> db \<Rightarrow> ident set" where
  "by_reset C token d = set (map u_id (find_many (\<lambda>u. u_passwordResetTokenHash u = Some (hashToken C token)) (users d)))"

text \<open>The users a refresh token speaks for: its subject, and the owner of its row.\<close>

definition row_owner :: "ident \<Rightarrow> db \<Rightarrow> ident set" where
  "row_owner jti d = set (map rt_userId (find_many (\<lambda>r. rt_id r = jti) (refreshTokens d)))"

definition by_cookie :: "jwt \<Rightarrow> auth_service \<Rightarrow> instant \<Rightarrow> (string \<Rightarrow> string option) \<Rightarrow> db \<Rightarrow> ident set" where
  "by_cookie J a now cookies d =
     (case readRefreshCookie cookies of
        None \<Rightarrow> {}
      | Some token \<Rightarrow> (case jw_verify J (as_refreshSecret a) now token of
          None \<Rightarrow> {}
        | Some p \<Rightarrow> insert (rp_sub p) (row_owner (rp_jti p) d)))"

lemma spares_login: "v \<notin> by_email email (ap_db s) \<Longrightarrow> spares v (login R C J a env email password) s"
  unfolding login_def Let_def findByEmail_def
  by (intro spares.r_after_asks spares.r_if spares.r_after_read spares.r_option spares_issueTokens)
    (auto simp: by_email_def find_many_def dest!: find_unique_Some)

lemma spares_verifyEmail: "v \<notin> by_verification C token (ap_db s) \<Longrightarrow> spares v (verifyEmail C env token) s"
  unfolding verifyEmail_def
  by (intro spares.r_after_read spares.r_option spares.r_if spares_user_write)
    (auto simp: by_verification_def find_many_def dest!: find_unique_Some)

lemma spares_resendVerification: "userId \<noteq> v \<Longrightarrow> spares v (resendVerification C a env userId) s"
  unfolding resendVerification_def
  by (intro spares.r_after_read spares.r_option spares.r_if spares.r_andThen spares_sendVerificationEmail)
    (auto dest!: find_user_Some)

lemma spares_forgotPassword: "v \<notin> by_email email (ap_db s) \<Longrightarrow> spares v (forgotPassword C a env email) s"
  unfolding forgotPassword_def Let_def findByEmail_def
  by (intro spares.r_after_read spares.r_option spares_user_write spares.r_andThen spares_sendDetached)
    (auto simp: by_email_def find_many_def dest!: find_unique_Some)

lemma sparing_reset:
  assumes "reset_transaction i h d = Inr (x, d')" and "i \<noteq> v" shows "sparing v d d'"
proof -
  obtain e where e: "update_user i (\<lambda>v. v\<lparr>u_passwordHash := h, u_passwordResetTokenHash := None,
             u_passwordResetTokenExpiresAt := None, u_emailVerified := True\<rparr>) d = Inr ((), e)"
    and d': "d' = snd (revoke_where (\<lambda>r. rt_userId r = i) e)"
    using assms(1) by (auto simp: reset_transaction_def split: sum.splits)
  have "sparing v e d'" unfolding d' using assms(2) by (intro sparing_revoke_where [OF prod.collapse [symmetric]]) auto
  then show ?thesis using sparing_update_user [OF e assms(2)] sparing_trans by auto
qed

lemma spares_resetPassword: "v \<notin> by_reset C token (ap_db s) \<Longrightarrow> spares v (resetPassword C env token password) s"
  unfolding resetPassword_def
  by (intro spares.r_after_read spares.r_option spares.r_if spares.r_andThen spares.r_executes)
    (auto simp: by_reset_def find_many_def elim!: sparing_reset dest!: find_unique_Some)

lemma spares_revokeFamily: "i \<noteq> v \<Longrightarrow> spares v (revokeFamily f i) s"
  unfolding revokeFamily_def by (intro spares.r_executes) (auto elim!: sparing_revoke_where)

text \<open>The row a token names is its owner's alone, so revoking it by id touches nobody else.\<close>

lemma spares_revoke_row:
  assumes "v \<notin> row_owner jti (ap_db s)"
  shows "spares v (executes f (\<lambda>d. Inr (revoke_where (\<lambda>x. rt_id x = jti) d))) s"
    and "spares v (query f (\<lambda>d. Inr (revoke_where (\<lambda>x. rt_id x = jti) d))) s"
  using assms by (auto simp: row_owner_def find_many_def intro!: spares.r_executes spares.r_query elim!: sparing_revoke_where)

lemma spares_refresh:
  assumes "jw_verify J (as_refreshSecret a) (rq_now env) token = Some p" and "rp_sub p \<noteq> v" and "v \<notin> row_owner (rp_jti p) (ap_db s)"
  shows "spares v (refresh C J a env token) s"
proof -
  have row: "rt_id r = rp_jti p \<and> rt_userId r \<noteq> v" if "find_unique (\<lambda>r. rt_id r = rp_jti p) (refreshTokens (ap_db s)) = Some r" for r
    using find_unique_Some [OF that] assms(3) by (auto simp: row_owner_def find_many_def)
  show ?thesis unfolding refresh_def assms(1) option.case
    by (intro spares.r_after_read spares.r_option spares.r_if spares.r_andThen spares_revoke_row spares_revokeFamily spares_issueTokens)
      (use assms(2,3) in \<open>auto dest!: row\<close>)
qed

lemma spares_logout:
  assumes "\<And>p. jw_verify J (as_refreshSecret a) (rq_now env) token = Some p \<Longrightarrow> v \<notin> row_owner (rp_jti p) (ap_db s)"
  shows "spares v (logout J a env token) s"
  unfolding logout_def by (intro spares.r_option spares.r_andThen spares_revoke_row) (use assms in auto)

section \<open>Administration\<close>

lemma spares_getUser: "spares v (getUser f i) s"
  unfolding getUser_def by (intro spares.r_after_read spares.r_option) auto

lemma spares_assertExists: "spares v (assertExists f i) s"
  unfolding assertExists_def by (intro spares.r_after_read spares.r_option) auto

lemma spares_assertNotTheLastAdmin: "spares v (assertNotTheLastAdmin f i) s"
  unfolding assertNotTheLastAdmin_def by (intro spares.r_after_read spares.r_if) auto

lemma spares_updateUser: "i \<noteq> v \<Longrightarrow> spares v (updateUser R ttl env i dto) s"
  unfolding updateUser_def
  by (rule spares.r_andThen [OF spares_assertExists], rule spares.r_andThen)
    (auto intro!: spares_assertNotTheLastAdmin spares_update_user spares.r_andThen spares_getUser simp: admin_patch_def)

lemma spares_deleteUser: "i \<noteq> v \<Longrightarrow> spares v (deleteUser R ttl env acting i) s"
  unfolding deleteUser_def
  by (intro spares.r_if spares.r_andThen spares_assertExists spares.r_executes)
    (auto simp: delete_user_row_def intro: sparing_delete_user spares_assertNotTheLastAdmin split: if_splits)

definition owner_of :: "ident \<Rightarrow> db \<Rightarrow> ident set" where
  "owner_of i d = set (map tr_userId (find_many (\<lambda>t. tr_id t = i) (triggers d)))"

lemma spares_admin_deleteTrigger: "v \<notin> owner_of i (ap_db s) \<Longrightarrow> spares v (admin_deleteTrigger env i) s"
  unfolding admin_deleteTrigger_def
  by (intro spares.r_andThen spares.r_executes) (auto simp: owner_of_def find_many_def intro!: sparing_delete_triggers)

section \<open>The authority of a request\<close>

fun auth_authority :: "'r app \<Rightarrow> fates \<Rightarrow> (string \<Rightarrow> string option) \<Rightarrow> AuthUser \<Rightarrow> auth_route \<Rightarrow> db \<Rightarrow> ident set" where
  "auth_authority A f cookies user (PostRegister _ _) d = {rq_uuid (ft_env f) 1}"
| "auth_authority A f cookies user (PostLogin email _) d = by_email email d"
| "auth_authority A f cookies user PostRefresh d = by_cookie (app_jwt A) (app_auth A) (rq_now (ft_env f)) cookies d"
| "auth_authority A f cookies user PostLogout d = by_cookie (app_jwt A) (app_auth A) (rq_now (ft_env f)) cookies d"
| "auth_authority A f cookies user GetAuthMe d = {}"
| "auth_authority A f cookies user (PostVerifyEmail token) d = by_verification (app_crypto A) token d"
| "auth_authority A f cookies user (PostForgotPassword email) d = by_email email d"
| "auth_authority A f cookies user (PostResetPassword token _) d = by_reset (app_crypto A) token d"
| "auth_authority A f cookies user PostResendVerification d = {au_userId user}"

fun admin_authority :: "admin_route \<Rightarrow> db \<Rightarrow> ident set" where
  "admin_authority (PatchUser i _) d = {i}"
| "admin_authority (DeleteUser i) d = {i}"
| "admin_authority (DeleteAnyTrigger i) d = owner_of i d"
| "admin_authority _ d = {}"

fun handler_authority :: "'r app \<Rightarrow> fates \<Rightarrow> (string \<Rightarrow> string option) \<Rightarrow> AuthUser \<Rightarrow> endpoint \<Rightarrow> db \<Rightarrow> ident set" where
  "handler_authority A f cookies user (AuthRoute r) d = auth_authority A f cookies user r d"
| "handler_authority A f cookies user (UsersRoute _) d = {au_userId user}"
| "handler_authority A f cookies user (TriggersRoute _) d = {au_userId user}"
| "handler_authority A f cookies user (NotificationsRoute _) d = {au_userId user}"
| "handler_authority A f cookies user (PinnedRoute _) d = {au_userId user}"
| "handler_authority A f cookies user (AdminRoute r) d = admin_authority r d"
| "handler_authority A f cookies user _ d = {}"

text \<open>A request that is not admitted has none.\<close>

definition authority :: "'r app \<Rightarrow> fates \<times> http_request \<Rightarrow> 'r api \<Rightarrow> ident set" where
  "authority A fq s =
     (case fq of (f, q) \<Rightarrow>
        (case admit A f q (ap_redis s) of
           (Inl _, _) \<Rightarrow> {}
         | (Inr user, _) \<Rightarrow> handler_authority A f (hr_cookies q) user (hr_endpoint q) (ap_db s)))"

definition requested :: "'r app \<Rightarrow> fates \<times> http_request \<Rightarrow> 'r api \<Rightarrow> 'r api" where
  "requested A fq s = (case fq of (f, q) \<Rightarrow> snd (snd (serve A f q s)))"

section \<open>Handlers\<close>

definition route_spares :: "ident \<Rightarrow> ('r, 'a) route \<Rightarrow> 'r api \<Rightarrow> bool" where
  "route_spares v m s \<longleftrightarrow> sparing v (ap_db s) (ap_db (snd (snd (m s))))"

lemma route_answers: "route_spares v (answers b m) s \<longleftrightarrow> spares v m s"
  by (simp add: route_spares_def obeys_def answers_def split: prod.splits)

lemma route_replies: "route_spares v (replies b m) s \<longleftrightarrow> route_spares v m s"
  by (simp add: route_spares_def replies_def split: prod.splits)

lemma route_tokens: "route_spares v (with_tokens a b m) s \<longleftrightarrow> spares v m s"
  by (auto simp: route_spares_def obeys_def with_tokens_def split: prod.splits sum.splits)

lemma route_delete_me: "route_spares v (delete_me R C ttl base env userId p) s \<longleftrightarrow> spares v (deleteAccount R C ttl env userId p) s"
  by (auto simp: route_spares_def obeys_def delete_me_def split: prod.splits sum.splits)

lemma route_cookie:
  assumes "v \<notin> by_cookie J a (rq_now env) cookies (ap_db s)"
  shows "route_spares v (post_refresh C J a base env cookies) s" and "route_spares v (post_logout J a base env cookies) s"
proof -
  have t: "spares v (refresh C J a env token) s" "spares v (logout J a env token) s" if tok: "readRefreshCookie cookies = Some token" for token
  proof -
    have v: "rp_sub p \<noteq> v" "v \<notin> row_owner (rp_jti p) (ap_db s)" if "jw_verify J (as_refreshSecret a) (rq_now env) token = Some p" for p
      using assms tok that by (auto simp: by_cookie_def)
    show "spares v (logout J a env token) s" by (rule spares_logout) (rule v(2))
    show "spares v (refresh C J a env token) s"
    proof (cases "jw_verify J (as_refreshSecret a) (rq_now env) token")
      case None
      then show ?thesis by (simp add: refresh_def)
    next
      case (Some p)
      then show ?thesis using spares_refresh v by blast
    qed
  qed
  show "route_spares v (post_refresh C J a base env cookies) s"
    using t route_tokens [of v a base "refresh C J a env token" s for token]
    by (auto simp: post_refresh_def route_spares_def obeys_def split: option.splits list.splits)
  show "route_spares v (post_logout J a base env cookies) s"
    using t by (auto simp: post_logout_def route_spares_def obeys_def split: option.splits list.splits prod.splits)
qed

lemmas route_simps = route_answers route_replies route_tokens route_delete_me post_register_def post_login_def

lemma AuthController_spares: "v \<notin> auth_authority A f cookies user r (ap_db s) \<Longrightarrow> route_spares v (AuthController A f cookies user r) s"
  by (cases r)
    (auto simp: route_simps intro!: route_cookie spares_register spares_login spares_verifyEmail spares_forgotPassword
      spares_resetPassword spares_resendVerification)

lemma UsersController_spares: "au_userId user \<noteq> v \<Longrightarrow> route_spares v (UsersController A f user r) s"
  by (cases r)
    (auto simp: route_simps intro!: spares_getProfile spares_updateProfile spares_deleteAccount spares_createTelegramLink
      spares_unlinkTelegram spares_listPush spares_addPush spares_removePush)

lemma TriggersController_spares: "au_userId user \<noteq> v \<Longrightarrow> route_spares v (TriggersController A f user r) s"
  by (cases r) (auto simp: route_simps intro!: spares_triggers spares_test)

lemma NotificationsController_spares: "au_userId user \<noteq> v \<Longrightarrow> route_spares v (NotificationsController f user r) s"
  by (cases r) (auto simp: route_simps intro!: spares_history)

lemma PinnedCitiesController_spares: "au_userId user \<noteq> v \<Longrightarrow> route_spares v (PinnedCitiesController f user r) s"
  by (cases r) (auto simp: route_simps intro!: spares_pinned)

lemma AdminController_spares: "v \<notin> admin_authority r (ap_db s) \<Longrightarrow> route_spares v (AdminController A f user r) s"
  by (cases r) (auto simp: route_simps intro!: spares_getUser spares_updateUser spares_deleteUser spares_admin_deleteTrigger)

lemma weather_spares: "route_spares v (ForecastController A f lat lon) s" "route_spares v (GeocodeController A f q) s"
  by (auto simp: ForecastController_def GeocodeController_def route_simps obeys_def forecast_get_def geocode_search_def Let_def
      split: sum.splits option.splits prod.splits)

lemma handler_spares:
  "v \<notin> handler_authority A f cookies user e (ap_db s) \<Longrightarrow> route_spares v (handler A f cookies user e) s"
  by (cases e)
    (auto simp: route_answers intro: AuthController_spares UsersController_spares TriggersController_spares NotificationsController_spares
      PinnedCitiesController_spares AdminController_spares weather_spares)

section \<open>Systems that keep to a policy\<close>

text \<open>A system of requests with an invariant, and one whose requests change only what they have authority over.\<close>

locale invariant_system =
  fixes step :: "'q \<Rightarrow> 's \<Rightarrow> 's" and inv :: "'s \<Rightarrow> bool"
  assumes step_inv: "inv s \<Longrightarrow> inv (step q s)"
begin

lemma run_inv: "inv s \<Longrightarrow> inv (fold step qs s)"
  by (induction qs arbitrary: s) (auto intro: step_inv)

end

text \<open>No request of the sequence has authority over \<open>v\<close> when its turn comes.\<close>

primrec never :: "('q \<Rightarrow> 's \<Rightarrow> 's) \<Rightarrow> ('q \<Rightarrow> 's \<Rightarrow> 'v set) \<Rightarrow> 'v \<Rightarrow> 'q list \<Rightarrow> 's \<Rightarrow> bool" where
  "never step auth v [] s = True"
| "never step auth v (q # qs) s = (v \<notin> auth q s \<and> never step auth v qs (step q s))"

locale policed_system = invariant_system step inv
  for step :: "'q \<Rightarrow> 's \<Rightarrow> 's" and inv :: "'s \<Rightarrow> bool" +
  fixes auth :: "'q \<Rightarrow> 's \<Rightarrow> 'v set" and share :: "'v \<Rightarrow> 's \<Rightarrow> 'w"
  assumes step_shares: "inv s \<Longrightarrow> v \<notin> auth q s \<Longrightarrow> share v (step q s) = share v s"
begin

lemma run_shares: "inv s \<Longrightarrow> never step auth v qs s \<Longrightarrow> share v (fold step qs s) = share v s"
proof (induction qs arbitrary: s)
  case (Cons q qs)
  then show ?case using step_inv [of s q] step_shares [of s v q] by simp
qed simp

end

text \<open>An access token speaks for its own user, and on the administration routes only when it is an administrator's.\<close>

lemma authority_token:
  assumes "\<not> public (hr_endpoint q)"
  shows "authority A (f, q) s \<subseteq>
    (case passport A (rq_now (ft_env f)) q of
       None \<Rightarrow> {}
     | Some u \<Rightarrow> if is_admin_route (hr_endpoint q) then (if au_role u = ADMIN then UNIV else {}) else {au_userId u})"
proof (cases "admit A f q (ap_redis s)")
  case (Pair y r)
  show ?thesis
  proof (cases y)
    case (Inl e)
    then show ?thesis by (simp add: authority_def Pair)
  next
    case (Inr u)
    have "handler_authority A f (hr_cookies q) u (hr_endpoint q) (ap_db s) \<subseteq> (if is_admin_route (hr_endpoint q) then UNIV else {au_userId u})"
    proof (cases "hr_endpoint q")
      case (AuthRoute r')
      then show ?thesis using assms by (cases r') auto
    qed (auto simp: is_admin_route_def)
    then show ?thesis using admit_Inr [of A f q "ap_redis s" u r] Pair Inr assms by (auto simp: authority_def caller_def split: if_splits)
  qed
qed

lemma finite_authority: "finite (handler_authority A f cookies user e d)"
proof -
  have "finite (auth_authority A f cookies user r d)" for r
    by (cases r) (auto simp: by_email_def find_many_def by_verification_def by_reset_def by_cookie_def row_owner_def split: option.splits)
  moreover have "finite (admin_authority r d)" for r by (cases r) (auto simp: owner_of_def find_many_def)
  ultimately show ?thesis by (cases e) auto
qed

lemma requested_sparing:
  assumes "v \<notin> authority A fq s" shows "sparing v (ap_db s) (ap_db (requested A fq s))"
proof -
  obtain f q where fq: "fq = (f, q)" by force
  obtain y r where y: "admit A f q (ap_redis s) = (y, r)" by force
  show ?thesis
  proof (cases y)
    case (Inl e)
    then show ?thesis using y by (simp add: fq requested_def serve_refused)
  next
    case (Inr u)
    then have "route_spares v (handler A f (hr_cookies q) u (hr_endpoint q)) (s\<lparr>ap_redis := r\<rparr>)"
      using assms y by (intro handler_spares) (simp add: fq authority_def)
    then show ?thesis using y Inr by (simp add: fq requested_def serve_admitted route_spares_def)
  qed
qed

lemma requested_coherent: assumes "coherent (ap_db s)" shows "coherent (ap_db (requested A fq s))"
proof -
  have "finite (authority A fq s)" by (auto simp: authority_def finite_authority split: prod.splits sum.splits)
  then obtain v where "v \<notin> authority A fq s" using ex_new_if_finite [OF infinite_UNIV_listI] by blast
  then show ?thesis using requested_sparing assms unfolding sparing_def by blast
qed

interpretation api: policed_system "requested A" "\<lambda>s. coherent (ap_db s)" "authority A" "\<lambda>v s. account_of v (ap_db s)"
proof unfold_locales
  show "coherent (ap_db (requested A fq s))" if "coherent (ap_db s)" for fq s
    using that by (rule requested_coherent)
  show "account_of v (ap_db (requested A fq s)) = account_of v (ap_db s)" if "coherent (ap_db s)" "v \<notin> authority A fq s" for s v fq
    using that requested_sparing sparing_def by blast
qed

text \<open>
  C9: nobody's data changes but through a request with authority over it. Whatever sequence of requests
  reaches the API, with whatever arguments, tokens and failing statements, everything stored of a user (the
  account, the triggers with their conditions, the history, the push subscriptions, the sessions and the
  pinned cities) is exactly what it was, as long as no request was admitted that acts for that user: by its
  own access token, by its refresh cookie, by a one-time token mailed to it, by its address on the sign-in and
  recovery routes, or by an administrator naming it or its trigger.
\<close>

theorem policy_respected:
  assumes "coherent (ap_db s)" and "never (requested A) (authority A) v requests s"
  shows "account_of v (ap_db (fold (requested A) requests s)) = account_of v (ap_db s)"
  using assms by (rule api.run_shares)

section \<open>What a user is shown\<close>

text \<open>The routes that show callers what is stored of them, as functions of the account.\<close>

lemma map_sort_key: "map f (sort_key (\<lambda>x. g (f x)) xs) = sort_key g (map f xs)"
proof -
  have "map f (insort_key (\<lambda>x. g (f x)) x ys) = insort_key g (f x) (map f ys)" for x ys
    by (induction ys) auto
  then show ?thesis by (induction xs) auto
qed

lemma find_unique_filter: "(\<And>x. p x \<Longrightarrow> q x) \<Longrightarrow> find_unique p (filter q xs) = find_unique p xs"
  by (induction xs) (auto simp: find_unique_def)

lemma find_unique_conj: "find_unique (\<lambda>x. p x \<and> q x) xs = find_unique p (filter q xs)"
  by (induction xs) (auto simp: find_unique_def)

lemma find_unique_map: "find_unique p (map f xs) = map_option f (find_unique (\<lambda>x. p (f x)) xs)"
  by (induction xs) (auto simp: find_unique_def)

lemma shown_user: "find_user v d = find_unique (\<lambda>u. u_id u = v) (ac_user (account_of v d))"
  by (simp add: find_user_def account_of_def find_unique_filter)

lemma shown_trigger: "owned v i d = find_unique (\<lambda>r. tr_id (trow_trigger r) = i) (ac_triggers (account_of v d))"
  by (simp add: owned_def account_of_def find_unique_conj find_unique_map include_conditions_def)

lemma shown_page:
  "page v skip n d = (take n (drop skip (sort_key (\<lambda>r. - tr_createdAt (trow_trigger r)) (ac_triggers (account_of v d)))), length (ac_triggers (account_of v d)))"
proof -
  have "map (include_conditions d) (sort_key (\<lambda>t. - tr_createdAt t) ts) = sort_key (\<lambda>r. - tr_createdAt (trow_trigger r)) (map (include_conditions d) ts)" for ts
    using map_sort_key [of "include_conditions d" "\<lambda>r. - tr_createdAt (trow_trigger r)" ts] by (simp add: include_conditions_def)
  then show ?thesis by (simp add: page_def account_of_def take_map [symmetric] drop_map [symmetric] find_many_def count_where_def)
qed

lemma shown_history:
  "paginate n_createdAt (\<lambda>n. n_userId n = v) dto (notifications d) = paginate n_createdAt (\<lambda>_. True) dto (ac_notifications (account_of v d))"
  by (simp add: paginate_def account_of_def Let_def count_where_def)

lemma shown_lists:
  "find_many (\<lambda>s. ps_userId s = v) (pushSubs d) = ac_push (account_of v d)"
  "find_many (\<lambda>c. pc_userId c = v) (pinnedCities d) = ac_pinned (account_of v d)"
  by (simp_all add: find_many_def account_of_def)

fun own_read :: "endpoint \<Rightarrow> bool" where
  "own_read (AuthRoute r) = (r = GetAuthMe)"
| "own_read (UsersRoute r) = (r = GetMe \<or> r = GetPush)"
| "own_read (TriggersRoute r) = (case r of GetTriggers _ \<Rightarrow> True | GetTrigger _ \<Rightarrow> True | _ \<Rightarrow> False)"
| "own_read (NotificationsRoute r) = (case r of GetNotifications _ \<Rightarrow> True | _ \<Rightarrow> False)"
| "own_read (PinnedRoute r) = (r = GetPinned)"
| "own_read _ = False"

lemmas read_simps = answers_def act_simps getProfile_def listPushSubscriptions_def ListTriggersHandler_def GetTriggerHandler_def findOwned_def
  findAll_def pinned_findAll_def shown_user shown_trigger shown_page shown_history shown_lists Let_def

lemma read_isolated:
  assumes "own_read e" and "account_of (au_userId user) (ap_db s) = account_of (au_userId user) (ap_db s')"
  shows "fst (handler A f cookies user e s) = fst (handler A f cookies user e s') \<and> snd (snd (handler A f cookies user e s)) = s"
  using assms(1)
proof (cases e)
  case (AuthRoute r) then show ?thesis using assms by (simp add: read_simps)
next
  case (UsersRoute r) then show ?thesis using assms by (cases r) (auto simp: read_simps split: option.splits)
next
  case (TriggersRoute r) then show ?thesis using assms by (cases r) (auto simp: read_simps split: option.splits)
next
  case (NotificationsRoute r) then show ?thesis using assms by (cases r) (auto simp: read_simps)
next
  case (PinnedRoute r) then show ?thesis using assms by (cases r) (auto simp: read_simps)
qed simp_all

text \<open>
  C27: nobody is shown anything of anybody else. The answer to a request for one's profile, subscriptions,
  triggers, history or pinned cities is a function of what is stored of the caller alone: two databases that
  agree on the caller's account give the same answer, errors included, whatever they hold of others. The
  request itself stores nothing.
\<close>

theorem answers_isolated:
  assumes "own_read (hr_endpoint q)" and "ap_redis s = ap_redis s'"
    and "\<And>u. passport A (rq_now (ft_env f)) q = Some u \<Longrightarrow> account_of (au_userId u) (ap_db s) = account_of (au_userId u) (ap_db s')"
  shows "fst (serve A f q s) = fst (serve A f q s') \<and> ap_db (snd (snd (serve A f q s))) = ap_db s"
proof -
  obtain y r where y: "admit A f q (ap_redis s) = (y, r)" by force
  show ?thesis
  proof (cases y)
    case (Inl e)
    then show ?thesis using y assms(2) by (simp add: serve_def)
  next
    case (Inr u)
    have "\<not> public (hr_endpoint q)" using assms(1) by (cases "hr_endpoint q") auto
    then have "account_of (au_userId u) (ap_db s) = account_of (au_userId u) (ap_db s')"
      using admit_Inr [of A f q "ap_redis s" u r] y Inr assms(3) by (auto simp: caller_def)
    then show ?thesis using y Inr assms(2) read_isolated [OF assms(1), of u "s\<lparr>ap_redis := r\<rparr>" "s'\<lparr>ap_redis := r\<rparr>" A f "hr_cookies q"]
      by (simp add: serve_def)
  qed
qed

section \<open>Concrete requests\<close>

definition bobs :: "(fates \<times> http_request) list" where
  "bobs = [(fates0 2000, asking (Some ''bob'') (TriggersRoute (DeleteTrigger ''t1''))),
     (fates0 3000, asking (Some ''bob'') (AdminRoute (DeleteUser ''u1''))), (fates0 4000, asking None (TriggersRoute DeleteTriggers))]"

lemma api1_coherent: "coherent (ap_db api1)"
  by (simp add: coherent_def trigger_samples)

lemma bob_is_not_alice:
  assumes "\<not> public e" and "t = None \<or> t = Some ''bob''" shows "''u1'' \<notin> authority app0 (fates0 n, asking t e) s"
  using authority_token [of "asking t e" app0 "fates0 n" s] assms by (auto simp: passport0 split: if_splits)

theorem policy_respected_witness:
  "account_of ''u1'' (ap_db (fold (requested app0) bobs api1)) = account_of ''u1'' (ap_db api1) \<and> length (ac_triggers (account_of ''u1'' (ap_db api1))) = 1"
proof -
  have "never (requested app0) (authority app0) ''u1'' bobs api1" 
    by (simp add: bobs_def bob_is_not_alice)
  moreover have "length (ac_triggers (account_of ''u1'' (ap_db api1))) = 1" by (simp add: account_of_def trigger_samples)
  ultimately show ?thesis using policy_respected [OF api1_coherent] by blast
qed

definition crowded :: "(string \<Rightarrow> entry option) api" where
  "crowded = api1\<lparr>ap_db := (ap_db api1)\<lparr>users := users (ap_db api1) @ [boss], triggers := heat\<lparr>tr_id := ''t2'', tr_userId := ''b1''\<rparr> # triggers (ap_db api1)\<rparr>\<rparr>"

theorem answers_isolated_witness:
  "fst (serve app0 (fates0 2000) (asking (Some ''alice'') (TriggersRoute (GetTriggers \<lparr>dto_page = None, dto_limit = None\<rparr>))) api1) =
   fst (serve app0 (fates0 2000) (asking (Some ''alice'') (TriggersRoute (GetTriggers \<lparr>dto_page = None, dto_limit = None\<rparr>))) crowded)"
proof -
  have "account_of ''u1'' (ap_db api1) = account_of ''u1'' (ap_db crowded)"
    by (simp add: account_of_def crowded_def boss_def include_conditions_def trigger_samples)
  then show ?thesis
    using answers_isolated [of "asking (Some ''alice'') (TriggersRoute (GetTriggers \<lparr>dto_page = None, dto_limit = None\<rparr>))" api1 crowded app0 "fates0 2000"]
    by (simp add: passport0 crowded_def)
qed

end
