(* ===== verification/Statements.thy ===== *)
theory Statements
  imports Policy
begin

text \<open>
  The API as the statements it issues. The checks of the validation pipe become a typing of the rows; a
  locale lists every writing statement of the API, with what its arguments are known to satisfy when it is
  issued; and every handler is shown, once, to relate the databases before and after it by any preorder
  those statements belong to.
\<close>

section \<open>The typing of rows\<close>

definition sized :: "(string \<Rightarrow> nat) \<Rightarrow> nat \<Rightarrow> string \<Rightarrow> bool" where
  "sized len n s \<longleftrightarrow> 1 \<le> len s \<and> len s \<le> n"

definition in_range :: "rat \<Rightarrow> rat \<Rightarrow> bool" where
  "in_range latitude longitude \<longleftrightarrow> -90 \<le> latitude \<and> latitude \<le> 90 \<and> -180 \<le> longitude \<and> longitude \<le> 180"

definition typed_user :: "validators \<Rightarrow> User \<Rightarrow> bool" where
  "typed_user V u \<longleftrightarrow> optional HHMM (u_quietHoursStart u) \<and> optional HHMM (u_quietHoursEnd u) \<and>
     optional (\<lambda>z. z \<in> set (va_timezones V)) (u_timezone u)"

definition typed_push :: "crypto \<Rightarrow> validators \<Rightarrow> PushSubscription \<Rightarrow> bool" where
  "typed_push C V p \<longleftrightarrow> va_isHttpsUrl V (ps_endpoint p) \<and> isKnownPushHost C (va_hostname V) (ps_endpoint p)"

definition typed_pin :: "validators \<Rightarrow> PinnedCity \<Rightarrow> bool" where
  "typed_pin V c \<longleftrightarrow> sized (va_len V) 120 (pc_name c) \<and> optional (sized (va_len V) 120) (pc_country c) \<and>
     optional (sized (va_len V) 120) (pc_admin1 c) \<and> in_range (pc_latitude c) (pc_longitude c)"

definition typed_trigger :: "validators \<Rightarrow> Trigger \<Rightarrow> bool" where
  "typed_trigger V t \<longleftrightarrow> sized (va_len V) 80 (tr_name t) \<and> sized (va_len V) 120 (tr_city t) \<and> in_range (tr_latitude t) (tr_longitude t) \<and>
     tr_channels t \<noteq> [] \<and> distinct (tr_channels t) \<and> length (tr_channels t) \<le> 3 \<and> 10 \<le> tr_cooldownMin t \<and> tr_cooldownMin t \<le> 1440 \<and>
     tr_locationBucket t < LOCATION_BUCKETS"

text \<open>A write of an account that keeps its key and its typing.\<close>

definition benign :: "validators \<Rightarrow> (User \<Rightarrow> User) \<Rightarrow> bool" where
  "benign V g \<longleftrightarrow> (\<forall>u. u_id (g u) = u_id u \<and> (typed_user V u \<longrightarrow> typed_user V (g u)))"

section \<open>Routes\<close>

definition route_obeys :: "(db \<Rightarrow> db \<Rightarrow> bool) \<Rightarrow> ('r, 'a) route \<Rightarrow> 'r api \<Rightarrow> bool" where
  "route_obeys rel m s \<longleftrightarrow> rel (ap_db s) (ap_db (snd (snd (m s))))"

lemma route_obeys_simps:
  "route_obeys rel (answers b m) s \<longleftrightarrow> obeys rel m s"
  "route_obeys rel (replies b n) s \<longleftrightarrow> route_obeys rel n s"
  "route_obeys rel (with_tokens a base t) s \<longleftrightarrow> obeys rel t s"
  "route_obeys rel (delete_me R K ttl base env userId p) s \<longleftrightarrow> obeys rel (deleteAccount R K ttl env userId p) s"
  by (auto simp: route_obeys_def obeys_def answers_def replies_def with_tokens_def delete_me_def split: prod.splits sum.splits)

section \<open>The statements of the API\<close>

locale api_statements = db_preorder rel for rel :: "db \<Rightarrow> db \<Rightarrow> bool" +
  fixes C :: crypto and V :: validators
  assumes s_account_write: "update_user i g d = Inr (x, d') \<Longrightarrow> benign V g \<Longrightarrow> rel d d'"
    and s_account_insert: "users_create i now email h d = Inr (u, d') \<Longrightarrow> rel d d'"
    and s_account_delete: "rel d (delete_user i d)"
    and s_reset: "reset_transaction i h d = Inr (x, d') \<Longrightarrow> rel d d'"
    and s_token_insert: "create_refresh r d = Inr (y, d') \<Longrightarrow> rel d d'"
    and s_token_revoke: "revoke_where p d = (n, d') \<Longrightarrow> rel d d'"
    and s_token_sweep: "prune_expired now d = (n, d') \<Longrightarrow> rel d d'"
    and s_history_delete: "delete_notifications q d = (n, d') \<Longrightarrow> rel d d'"
    and s_push_upsert: "upsert_push i now userId dto d = Inr (z, d') \<Longrightarrow> valid_push C V dto \<Longrightarrow> rel d d'"
    and s_push_delete: "rel d (d\<lparr>pushSubs := delete_many pp (pushSubs d)\<rparr>)"
    and s_pin_insert: "pinned_insert c d = Inr (pc, d') \<Longrightarrow> typed_pin V c \<Longrightarrow>
      count_where (\<lambda>x. pc_userId x = pc_userId c) (pinnedCities d) < maxPinnedCities API_LIMITS \<Longrightarrow> rel d d'"
    and s_pin_delete: "rel d (d\<lparr>pinnedCities := delete_many pq (pinnedCities d)\<rparr>)"
    and s_trigger_insert: "trigger_create i ids now userId cdto l d = Inr (tr, d') \<Longrightarrow> valid_create (va_len V) cdto \<Longrightarrow>
      countForUser userId d < maxTriggersPerUser API_LIMITS \<Longrightarrow> rel d d'"
    and s_trigger_write: "trigger_update ids i udto d = Inr (tr, d') \<Longrightarrow> valid_update (va_len V) udto \<Longrightarrow> rel d d'"
    and s_trigger_delete: "rel d (delete_triggers pt d)"
begin

lemmas s_rows = s_token_insert s_token_revoke s_token_sweep s_history_delete

declare r_pure [simp]

lemma keeps_user_write:
  "(\<And>u. typed_user V u \<Longrightarrow> typed_user V (g u)) \<Longrightarrow> (\<And>u. u_id (g u) = u_id u) \<Longrightarrow> (\<And>x t. obeys rel (k x) t) \<Longrightarrow>
   obeys rel (andThen (executes f (update_user i g)) k) s"
  by (intro r_andThen r_executes) (auto elim!: s_account_write simp: benign_def)

text \<open>A write that leaves the window and the zone alone.\<close>

lemma keeps_other_write:
  "(\<And>u. u_quietHoursStart (g u) = u_quietHoursStart u \<and> u_quietHoursEnd (g u) = u_quietHoursEnd u \<and> u_timezone (g u) = u_timezone u \<and> u_id (g u) = u_id u) \<Longrightarrow>
   (\<And>x t. obeys rel (k x) t) \<Longrightarrow> obeys rel (andThen (executes f (update_user i g)) k) s"
  by (rule keeps_user_write) (auto simp: typed_user_def)

lemma keeps_getProfile: "obeys rel (getProfile f userId) s"
  unfolding getProfile_def by (intro r_after_read r_option) auto

lemma keeps_updateProfile: "valid_profile V dto \<Longrightarrow> obeys rel (updateProfile env userId dto) s"
  unfolding updateProfile_def
  by (rule keeps_user_write)
    (auto simp: keeps_getProfile valid_profile_def nullable_def optional_def typed_user_def patched_def split: option.splits)

lemma keeps_users:
  "obeys rel (createTelegramLink K env userId b) s" "obeys rel (unlinkTelegram env userId) s"
  "obeys rel (listPushSubscriptions env userId) s" "obeys rel (user_removePushSubscription env userId e) s"
  "obeys rel (deleteAccount R K ttl env userId p) s"
proof -
  show "obeys rel (createTelegramLink K env userId b) s" unfolding createTelegramLink_def Let_def by (rule keeps_other_write) auto
  show "obeys rel (unlinkTelegram env userId) s" unfolding unlinkTelegram_def by (rule keeps_other_write) auto
  show "obeys rel (listPushSubscriptions env userId) s" unfolding listPushSubscriptions_def by (intro r_after_read) auto
  show "obeys rel (user_removePushSubscription env userId e) s" unfolding user_removePushSubscription_def
    by (rule r_andThen [OF r_executes]) (auto intro!: s_push_delete)
  show "obeys rel (deleteAccount R K ttl env userId p) s" unfolding deleteAccount_def
    by (intro r_after_read r_option r_if r_andThen r_executes)
      (auto simp: delete_user_row_def intro: s_account_delete split: if_splits)
qed

lemma keeps_addPush: "valid_push C V dto \<Longrightarrow> obeys rel (addPushSubscription env userId dto) s"
  unfolding addPushSubscription_def
  by (intro r_after_read r_if r_andThen r_executes) (auto elim: s_push_upsert)

lemma keeps_findOwned: "(\<And>row. obeys rel (k row) s) \<Longrightarrow> obeys rel (andThen (findOwned f userId i) k) s"
proof (rule r_andThen)
  show "obeys rel (findOwned f userId i) s" unfolding findOwned_def by (intro r_after_read r_option) auto
  show "obeys rel (k x) t" if "\<And>row. obeys rel (k row) s" "findOwned f userId i s = (Inr x, t)" for x t
    using that(1) findOwned_cases [OF that(2)] by simp
qed

lemma keeps_createTrigger:
  assumes "valid_create (va_len V) dto" shows "obeys rel (CreateTriggerHandler env userId dto) s"
  unfolding CreateTriggerHandler_def
proof (intro r_after_read r_if r_andThen r_executes)
  fix x d
  assume "\<not> maxTriggersPerUser API_LIMITS \<le> countForUser userId (ap_db s)"
    and c: "trigger_create (rq_uuid env 0) (\<lambda>k. rq_uuid env (Suc k)) (rq_now env) userId dto
      (case ct_conditionLogic dto of None \<Rightarrow> LogicAND | Some l \<Rightarrow> l) (ap_db s) = Inr (x, d)"
  then show "rel (ap_db s) d" by (intro s_trigger_insert [OF c assms]) simp
qed auto

lemma keeps_updateTrigger:
  assumes "valid_update (va_len V) dto" shows "obeys rel (UpdateTriggerHandler env userId i dto) s"
  unfolding UpdateTriggerHandler_def
proof (intro keeps_findOwned r_andThen r_executes)
  show "rel (ap_db s) d" if "trigger_update (rq_uuid env) i dto (ap_db s) = Inr (x, d)" for x d
    using that assms by (rule s_trigger_write)
qed auto

lemma keeps_triggers:
  "obeys rel (DeleteTriggerHandler env userId i) s" "obeys rel (ClearTriggersHandler env userId) s"
  "obeys rel (GetTriggerHandler env userId i) s" "obeys rel (ListTriggersHandler env userId pg) s"
  "obeys rel (SendTestNotificationHandler R pub env userId i) s"
proof -
  show "obeys rel (DeleteTriggerHandler env userId i) s" unfolding DeleteTriggerHandler_def
    by (intro keeps_findOwned r_andThen r_executes)
      (auto simp: trigger_delete_def intro: s_trigger_delete split: if_splits)
  show "obeys rel (ClearTriggersHandler env userId) s" unfolding ClearTriggersHandler_def
    by (intro r_executes) (auto simp: deleteAllForUser_def intro!: s_trigger_delete)
  show "obeys rel (GetTriggerHandler env userId i) s" unfolding GetTriggerHandler_def by (intro keeps_findOwned) auto
  show "obeys rel (ListTriggersHandler env userId pg) s" unfolding ListTriggersHandler_def Let_def
    by (rule r_after_read) (auto split: prod.splits)
  have pub: "obeys rel (publish_test pub k cs ev) s" for k cs ev s
    using publish_test_db [of pub k cs ev s "fst (publish_test pub k cs ev s)" "snd (publish_test pub k cs ev s)"]
    by (simp add: obeys_def rel_refl)
  show "obeys rel (SendTestNotificationHandler R pub env userId i) s" unfolding SendTestNotificationHandler_def Let_def
    by (intro keeps_findOwned r_andThen pub) (auto intro!: r_andThen pub split: sum.splits)
qed

lemma keeps_history:
  "obeys rel (findAll env userId pg) s" "obeys rel (clear env userId) s" "obeys rel (remove_notification env userId i) s"
proof -
  show "obeys rel (findAll env userId pg) s" unfolding findAll_def by (rule r_after_read) auto
  show "obeys rel (clear env userId) s" unfolding clear_def by (intro r_executes) (auto elim: s_rows)
  show "obeys rel (remove_notification env userId i) s" unfolding remove_notification_def
    by (intro r_andThen r_executes) (auto elim: s_rows)
qed

lemma keeps_pinned:
  "obeys rel (pinned_findAll env userId) s" "valid_pinned (va_len V) dto \<Longrightarrow> obeys rel (pinned_create env userId dto) s"
  "obeys rel (pinned_remove env userId i) s"
proof -
  show "obeys rel (pinned_findAll env userId) s" unfolding pinned_findAll_def by simp
  show "obeys rel (pinned_create env userId dto) s" if "valid_pinned (va_len V) dto" unfolding pinned_create_def
    by (intro r_after_read r_if r_andThen r_query)
      (use that in \<open>auto elim!: s_pin_insert simp: typed_pin_def valid_pinned_def sized_def in_range_def optional_def API_LIMITS_def
         split: sum.splits db_error.splits option.splits\<close>)
  show "obeys rel (pinned_remove env userId i) s" unfolding pinned_remove_def
    by (intro r_andThen r_executes) (auto intro!: s_pin_delete)
qed

lemma keeps_issueTokens: "obeys rel (issueTokens K J a env n k userId email) s"
  unfolding issueTokens_def Let_def
  by (intro r_after_read r_andThen r_executes) (auto elim: s_rows)

lemma keeps_sendDetached: "obeys rel (sendDetached a to subject html) s"
  by (simp add: obeys_def sendDetached_def rel_refl)

lemma keeps_sendVerificationEmail: "obeys rel (sendVerificationEmail K a env n k userId email) s"
  unfolding sendVerificationEmail_def Let_def by (rule keeps_other_write) (auto intro: keeps_sendDetached)

lemma keeps_revokeFamily: "obeys rel (revokeFamily f i) s"
  unfolding revokeFamily_def by (intro r_executes) (auto elim: s_rows)

lemma keeps_auth:
  "obeys rel (register K J a env email password) s" "obeys rel (login R K J a env email password) s"
  "obeys rel (verifyEmail K env token) s" "obeys rel (resendVerification K a env userId) s"
  "obeys rel (forgotPassword K a env email) s" "obeys rel (resetPassword K env token password) s"
  "obeys rel (refresh K J a env token) s" "obeys rel (logout J a env token) s"
proof -
  show "obeys rel (register K J a env email password) s" unfolding register_def Let_def
    by (intro r_after_read r_if r_andThen r_executes keeps_sendVerificationEmail keeps_issueTokens)
      (auto elim: s_account_insert)
  show "obeys rel (login R K J a env email password) s" unfolding login_def Let_def
    by (intro r_after_asks r_if r_after_read r_option keeps_issueTokens) auto
  show "obeys rel (verifyEmail K env token) s" unfolding verifyEmail_def
    by (intro r_after_read r_option r_if keeps_other_write) auto
  show "obeys rel (resendVerification K a env userId) s" unfolding resendVerification_def
    by (intro r_after_read r_option r_if r_andThen keeps_sendVerificationEmail) auto
  show "obeys rel (forgotPassword K a env email) s" unfolding forgotPassword_def Let_def
    by (intro r_after_read r_option keeps_other_write r_andThen keeps_sendDetached) auto
  show "obeys rel (resetPassword K env token password) s" unfolding resetPassword_def
    by (intro r_after_read r_option r_if r_andThen r_executes) (auto elim: s_reset)
  show "obeys rel (refresh K J a env token) s" unfolding refresh_def
    by (intro r_option r_after_read r_if r_andThen r_executes keeps_revokeFamily keeps_issueTokens)
      (auto elim: s_rows)
  show "obeys rel (logout J a env token) s" unfolding logout_def
    by (intro r_option r_andThen r_query) (auto elim: s_rows)
qed

lemma keeps_admin:
  "obeys rel (getUser f i) s" "obeys rel (updateUser R ttl env i dto) s" "obeys rel (deleteUser R ttl env acting i) s"
  "obeys rel (admin_deleteTrigger env i) s"
proof -
  have get: "obeys rel (getUser f i) s" for f s unfolding getUser_def by (intro r_after_read r_option) auto
  then show "obeys rel (getUser f i) s" .
  have ex: "obeys rel (assertExists f i) s" for f s unfolding assertExists_def by (intro r_after_read r_option) auto
  have last: "obeys rel (assertNotTheLastAdmin f i) s" for f s
    unfolding assertNotTheLastAdmin_def by (intro r_after_read r_if) auto
  have patch: "obeys rel (executes f (update_user i (admin_patch dto))) s" for f s
    by (intro r_executes) (auto elim!: s_account_write simp: benign_def typed_user_def admin_patch_def)
  show "obeys rel (updateUser R ttl env i dto) s" unfolding updateUser_def
    by (rule r_andThen [OF ex], rule r_andThen) (auto intro!: last patch r_andThen get)
  show "obeys rel (deleteUser R ttl env acting i) s" unfolding deleteUser_def
    by (intro r_if r_andThen ex r_executes)
      (auto simp: delete_user_row_def intro: s_account_delete last split: if_splits)
  show "obeys rel (admin_deleteTrigger env i) s" unfolding admin_deleteTrigger_def
    by (intro r_andThen r_executes) (auto intro!: s_trigger_delete)
qed

text \<open>Requests.\<close>

lemma cookie_obeys:
  "route_obeys rel (post_refresh K J a base env cookies) s" "route_obeys rel (post_logout J a base env cookies) s"
proof -
  show "route_obeys rel (post_refresh K J a base env cookies) s"
    using keeps_auth(7) route_obeys_simps(3) [of rel a base "refresh K J a env token" s for token]
    by (auto simp: post_refresh_def route_obeys_def rel_refl split: option.splits list.splits)
  show "route_obeys rel (post_logout J a base env cookies) s"
    using keeps_auth(8) [of J a env "the (readRefreshCookie cookies)" s]
    by (auto simp: post_logout_def route_obeys_def obeys_def rel_refl split: option.splits list.splits prod.splits)
qed

lemma handler_obeys:
  assumes "valid C V e" shows "route_obeys rel (handler A f cookies user e) s"
proof (cases e)
  case (AuthRoute r)
  then show ?thesis by (cases r) (simp_all add: route_obeys_simps cookie_obeys post_register_def post_login_def keeps_auth)
next
  case (UsersRoute r)
  then show ?thesis using assms by (cases r) (simp_all add: route_obeys_simps keeps_users keeps_getProfile keeps_updateProfile keeps_addPush)
next
  case (TriggersRoute r)
  then show ?thesis using assms by (cases r) (simp_all add: route_obeys_simps keeps_createTrigger keeps_updateTrigger keeps_triggers)
next
  case (NotificationsRoute r)
  then show ?thesis by (cases r) (simp_all add: route_obeys_simps keeps_history)
next
  case (PinnedRoute r)
  then show ?thesis using assms by (cases r) (simp_all add: route_obeys_simps keeps_pinned)
next
  case (AdminRoute r)
  then show ?thesis by (cases r) (simp_all add: route_obeys_simps keeps_admin)
next
  case (GetWeather x y)
  then show ?thesis
    by (auto simp: ForecastController_def route_obeys_simps obeys_def forecast_get_def Let_def rel_refl split: sum.splits option.splits prod.splits)
next
  case (GetGeocode q)
  then show ?thesis
    by (auto simp: GeocodeController_def route_obeys_simps obeys_def geocode_search_def Let_def rel_refl split: sum.splits option.splits prod.splits)
qed (simp_all add: route_obeys_simps)

lemma requested_obeys:
  assumes "app_crypto A = C" and "app_validators A = V"
  shows "rel (ap_db s) (ap_db (requested A fq s))"
proof -
  obtain f q where fq: "fq = (f, q)" by force
  obtain y r where y: "admit A f q (ap_redis s) = (y, r)" by force
  show ?thesis
  proof (cases y)
    case (Inl e)
    then show ?thesis using y by (simp add: fq requested_def serve_refused rel_refl)
  next
    case (Inr u)
    then have "valid C V (hr_endpoint q)" using admit_Inr [of A f q "ap_redis s" u r] y assms by simp
    from handler_obeys [OF this, of A f "hr_cookies q" u "s\<lparr>ap_redis := r\<rparr>"] show ?thesis
      using y Inr by (simp add: fq requested_def serve_admitted route_obeys_def)
  qed
qed

text \<open>The bot and the nightly sweep of the tokens.\<close>

lemma keeps_bindTelegram: "obeys rel (bindTelegram K env token chatId) s"
  unfolding bindTelegram_def by (intro r_after_read r_option r_if keeps_other_write) auto

lemma keeps_asksE: "obeys rel (asksE c) s"
  unfolding asksE_def by (rule r_after_asks) (simp split: sum.splits)

lemma keeps_rethrow: "obeys rel (rethrow x) s"
  by (cases x) (simp_all add: rethrow_def)

lemma keeps_pruneStaleTokens: "obeys rel (pruneStaleTokens R env) s"
  unfolding pruneStaleTokens_def
  by (intro r_andThen r_option r_query keeps_asksE keeps_rethrow) (auto elim: s_rows)

end

end
