(* ===== verification/Stored.thy ===== *)
theory Stored
  imports Statements
begin

text \<open>
  What the API stores is well-formed. The validation pipe checks the arguments of a request, the handlers
  check limits, and together they keep a typing of the tables that the watcher and the notifier rely on: windows
  of quiet hours that parse, known time zones, endpoints at known push services, coordinates in range, cooldowns
  and channels within their limits, between one and five conditions for each trigger.
\<close>

section \<open>The typing\<close>

definition conditions_of :: "db \<Rightarrow> ident \<Rightarrow> nat" where
  "conditions_of d i = count_where (\<lambda>c. tc_triggerId c = i) (conditions d)"

definition shaped_triggers :: "validators \<Rightarrow> db \<Rightarrow> bool" where
  "shaped_triggers V d \<longleftrightarrow> list_all (typed_trigger V) (triggers d) \<and> distinct (map tr_id (triggers d)) \<and>
     (\<forall>t \<in> set (triggers d). 1 \<le> conditions_of d (tr_id t) \<and> conditions_of d (tr_id t) \<le> 5) \<and>
     (\<forall>c \<in> set (conditions d). tc_triggerId c \<in> tr_id ` set (triggers d)) \<and>
     (\<forall>t \<in> set (triggers d). tr_userId t \<in> u_id ` set (users d))"

text \<open>The limit per user is the one part that a read checks and no statement enforces.\<close>

definition typed_triggers :: "validators \<Rightarrow> db \<Rightarrow> bool" where
  "typed_triggers V d \<longleftrightarrow> shaped_triggers V d \<and> (\<forall>u. countForUser u d \<le> 10)"

definition stored :: "crypto \<Rightarrow> validators \<Rightarrow> db \<Rightarrow> bool" where
  "stored C V d \<longleftrightarrow> list_all (typed_user V) (users d) \<and> list_all (typed_push C V) (pushSubs d) \<and>
     list_all (typed_pin V) (pinnedCities d) \<and> pins_ok d \<and> typed_triggers V d"

section \<open>Statements keep it\<close>

abbreviation stores :: "crypto \<Rightarrow> validators \<Rightarrow> db \<Rightarrow> db \<Rightarrow> bool" where
  "stores C V \<equiv> preserving (stored C V)"

lemma stores_same:
  assumes "users d' = users d" "pushSubs d' = pushSubs d" "pinnedCities d' = pinnedCities d" "triggers d' = triggers d" "conditions d' = conditions d"
  shows "stores C V d d'"
  using assms by (simp add: preserving_def stored_def pins_ok_def typed_triggers_def shaped_triggers_def conditions_of_def countForUser_def)

lemma stores_update_user:
  assumes "update_user i g d = Inr (x, d')" and "\<And>u. typed_user V u \<Longrightarrow> typed_user V (g u)" and "\<And>u. u_id (g u) = u_id u"
  shows "stores C V d d'"
proof -
  have "map u_id (users d') = map u_id (users d)" using assms(1,3) by (auto simp: update_user_Inr map_update_many)
  then have "u_id ` set (users d') = u_id ` set (users d)" by (metis list.set_map)
  then show ?thesis using assms(1,2)
    by (auto simp: preserving_def update_user_Inr stored_def pins_ok_def typed_triggers_def shaped_triggers_def conditions_of_def countForUser_def
        list_all_iff set_update_many)
qed

lemma stores_users_create:
  assumes "users_create i now email h d = Inr (u, d')" shows "stores C V d d'"
  using assms
  by (auto simp: preserving_def users_create_def Let_def stored_def pins_ok_def typed_triggers_def shaped_triggers_def conditions_of_def countForUser_def
      typed_user_def optional_def new_user_def split: if_splits)

lemma stores_tokens:
  "create_refresh r d = Inr (x, d') \<Longrightarrow> stores C V d d'" "revoke_where p d = (n, d') \<Longrightarrow> stores C V d d'"
  "prune_expired t d = (n, d') \<Longrightarrow> stores C V d d'" "delete_notifications q d = (n, d') \<Longrightarrow> stores C V d d'"
  by (auto simp: create_refresh_def revoke_where_def prune_expired_def delete_notifications_def intro!: stores_same split: if_splits)

lemma stores_upsert_push:
  assumes "upsert_push i now userId dto d = Inr (x, d')" and "valid_push C V dto" shows "stores C V d d'"
  using assms
  by (auto simp: preserving_def upsert_push_def Let_def stored_def pins_ok_def typed_triggers_def shaped_triggers_def conditions_of_def countForUser_def
      list_all_iff set_update_many valid_push_def typed_push_def split: if_splits option.splits)

lemma stores_push_delete: "stores C V d (d\<lparr>pushSubs := delete_many p (pushSubs d)\<rparr>)"
  by (auto simp: preserving_def stored_def pins_ok_def typed_triggers_def shaped_triggers_def conditions_of_def countForUser_def list_all_iff)

lemma stores_pinned_insert:
  assumes "pinned_insert c d = Inr (x, d')" and "typed_pin V c" and "count_where (\<lambda>x. pc_userId x = pc_userId c) (pinnedCities d) < 12"
  shows "stores C V d d'"
  using assms
  by (force simp: preserving_def pinned_insert_def stored_def pins_ok_def typed_triggers_def shaped_triggers_def conditions_of_def countForUser_def count_where_def
      API_LIMITS_def split: if_splits)

lemma stores_pinned_delete: "stores C V d (d\<lparr>pinnedCities := delete_many p (pinnedCities d)\<rparr>)"
  by (auto simp: preserving_def stored_def pins_ok_def typed_triggers_def shaped_triggers_def conditions_of_def countForUser_def list_all_iff
      intro: order_trans [OF count_where_delete_many_le])

lemma length_conditionRows [simp]: "length (conditionRows ids i cs) = length cs"
  by (simp add: conditionRows_def)

lemma count_conditionRows: "count_where (\<lambda>c. tc_triggerId c = j) (conditionRows ids i cs) = (if i = j then length cs else 0)"
proof (cases "i = j")
  case True
  have "filter (\<lambda>c. tc_triggerId c = j) (conditionRows ids i cs) = conditionRows ids i cs"
    using True conditionRows_trigger [of _ ids i cs] by (auto simp: filter_id_conv)
  then show ?thesis using True by (simp add: count_where_def)
qed (simp add: count_where_def filter_conditionRows)

lemma stores_triggers:
  assumes "users d' = users d" "pushSubs d' = pushSubs d" "pinnedCities d' = pinnedCities d" "stored C V d \<Longrightarrow> typed_triggers V d'"
  shows "stores C V d d'"
  using assms by (simp add: preserving_def stored_def pins_ok_def)

lemma shaped_trigger_create:
  assumes "trigger_create i ids now userId dto l d = Inr (y, d')" and "valid_create (va_len V) dto" and typed: "shaped_triggers V d"
  shows "shaped_triggers V d'"
proof -
  obtain t where t: "tr_id t = i" "tr_userId t = userId" "typed_trigger V t" and tr: "triggers d' = triggers d @ [t]"
    and cs: "conditions d' = conditions d @ conditionRows ids i (ct_conditions dto)" and new: "\<forall>x \<in> set (triggers d). tr_id x \<noteq> i"
    using assms(1,2)
    by (force simp: trigger_create_def Let_def valid_create_def typed_trigger_def sized_def in_range_def API_LIMITS_def find_unique_None
        locationBucket_less split: if_splits option.splits)
  have owner: "userId \<in> u_id ` set (users d)" "users d' = users d"
    using assms(1) by (auto simp: trigger_create_def Let_def dest!: find_user_Some split: if_splits)
  have n: "1 \<le> length (ct_conditions dto)" "length (ct_conditions dto) \<le> 5"
    using assms(2) by (auto simp: valid_create_def API_LIMITS_def Suc_le_eq)
  have "i \<notin> tr_id ` set (triggers d)" using new by blast
  then have "conditions_of d i = 0" using typed by (auto simp: conditions_of_def count_where_0_iff typed_triggers_def shaped_triggers_def)
  then have count: "conditions_of d' j = (if j = i then length (ct_conditions dto) else conditions_of d j)" for j
    by (simp add: conditions_of_def cs count_where_append count_conditionRows)
  have "\<forall>c \<in> set (conditions d'). tc_triggerId c \<in> tr_id ` set (triggers d')"
    using typed t(1) conditionRows_trigger by (auto simp: cs tr typed_triggers_def shaped_triggers_def)
  moreover have "\<forall>x \<in> set (triggers d'). 1 \<le> conditions_of d' (tr_id x) \<and> conditions_of d' (tr_id x) \<le> 5"
    using typed t(1) new n by (auto simp: tr count typed_triggers_def shaped_triggers_def)
  ultimately show ?thesis using typed t new owner by (auto simp: typed_triggers_def shaped_triggers_def tr)
qed

lemma typed_trigger_create:
  assumes "trigger_create i ids now userId dto l d = Inr (y, d')" and "valid_create (va_len V) dto" and "countForUser userId d < 10"
    and "typed_triggers V d"
  shows "typed_triggers V d'"
proof -
  obtain t where "tr_userId t = userId" and tr: "triggers d' = triggers d @ [t]"
    using assms(1) by (force simp: trigger_create_def Let_def split: if_splits)
  then have "countForUser u d' \<le> 10" for u
    using assms(3,4) by (auto simp: countForUser_def tr count_where_append count_where_def typed_triggers_def Suc_le_eq)
  then show ?thesis using shaped_trigger_create [OF assms(1,2)] assms(4) by (simp add: typed_triggers_def)
qed

lemma bucketPatch_less: "bucketPatch dto = Some b \<Longrightarrow> b < LOCATION_BUCKETS"
  by (auto simp: bucketPatch_def locationBucket_less split: option.splits)

lemma typed_patch: "valid_update (va_len V) dto \<Longrightarrow> typed_trigger V t \<Longrightarrow> typed_trigger V (patch_trigger dto t)"
  by (auto simp: valid_update_def typed_trigger_def patch_trigger_def or_old_def optional_def sized_def in_range_def API_LIMITS_def
      dest: bucketPatch_less split: option.splits)

lemma shaped_trigger_update:
  assumes "trigger_update ids i dto d = Inr (y, d')" and "valid_update (va_len V) dto" and typed: "shaped_triggers V d"
  shows "shaped_triggers V d'"
proof -
  have tr: "triggers d' = update_many (\<lambda>t. tr_id t = i) (patch_trigger dto) (triggers d)"
    and cs: "conditions d' = (case ut_conditions dto of None \<Rightarrow> conditions d
       | Some new \<Rightarrow> delete_many (\<lambda>c. tc_triggerId c = i) (conditions d) @ conditionRows ids i new)"
    and old: "i \<in> tr_id ` set (triggers d)"
    using assms(1) by (auto simp: trigger_update_def Let_def split: option.splits if_splits dest!: find_unique_Some)
  have ids: "map tr_id (triggers d') = map tr_id (triggers d)" by (simp add: tr map_update_many patch_trigger_def)
  have set_ids: "tr_id ` set (triggers d') = tr_id ` set (triggers d)" using arg_cong [OF ids, of set] by simp
  have count: "conditions_of d' j = (case ut_conditions dto of Some new \<Rightarrow> if j = i then length new else conditions_of d j | None \<Rightarrow> conditions_of d j)" for j
    by (auto simp: conditions_of_def cs count_where_append count_conditionRows count_where_0_iff split: option.splits)
      (auto simp: count_where_def delete_many_def intro!: arg_cong [where f = length] filter_cong)
  have "1 \<le> conditions_of d' j \<and> conditions_of d' j \<le> 5" if "j \<in> tr_id ` set (triggers d')" for j
    using that typed assms(2) unfolding set_ids
    by (auto simp: count typed_triggers_def shaped_triggers_def valid_update_def optional_def API_LIMITS_def Suc_le_eq split: option.splits)
  moreover have "list_all (typed_trigger V) (triggers d')"
    using typed typed_patch [OF assms(2)] by (auto simp: tr list_all_iff set_update_many typed_triggers_def shaped_triggers_def)
  moreover have "\<forall>c \<in> set (conditions d'). tc_triggerId c \<in> tr_id ` set (triggers d')"
    using typed old conditionRows_trigger unfolding set_ids by (auto simp: cs typed_triggers_def shaped_triggers_def split: option.splits)
  moreover have "users d' = users d" using assms(1) by (auto simp: trigger_update_def Let_def split: option.splits if_splits)
  then have "\<forall>t \<in> set (triggers d'). tr_userId t \<in> u_id ` set (users d')"
    using typed by (auto simp: tr set_update_many patch_trigger_def typed_triggers_def shaped_triggers_def)
  ultimately show ?thesis using typed by (simp add: typed_triggers_def shaped_triggers_def ids)
qed

lemma typed_trigger_update:
  assumes "trigger_update ids i dto d = Inr (y, d')" and "valid_update (va_len V) dto" and "typed_triggers V d"
  shows "typed_triggers V d'"
proof -
  have "triggers d' = update_many (\<lambda>t. tr_id t = i) (patch_trigger dto) (triggers d)"
    using assms(1) by (auto simp: trigger_update_def Let_def split: option.splits if_splits)
  then have "countForUser u d' = countForUser u d" for u by (simp add: countForUser_def count_where_update_many patch_trigger_def)
  then show ?thesis using shaped_trigger_update [OF assms(1,2)] assms(3) by (simp add: typed_triggers_def)
qed

lemma shaped_delete_triggers:
  assumes "shaped_triggers V d" shows "shaped_triggers V (delete_triggers p d)"
proof -
  let ?d = "delete_triggers p d"
  have keep: "conditions_of ?d (tr_id t) = conditions_of d (tr_id t)" if "t \<in> set (triggers d)" "\<not> p t" for t
  proof -
    have "tr_id t \<notin> tr_id ` set (find_many p (triggers d))"
      using that assms by (auto simp: typed_triggers_def shaped_triggers_def find_many_def distinct_map inj_on_def)
    then show ?thesis
      by (simp add: conditions_of_def count_where_def delete_triggers_def Let_def delete_many_def) (metis (mono_tags, lifting) filter_cong)
  qed
  have "\<forall>c \<in> set (conditions ?d). tc_triggerId c \<in> tr_id ` set (triggers ?d)"
    using assms by (fastforce simp: typed_triggers_def shaped_triggers_def delete_triggers_def Let_def find_many_def image_iff)
  moreover have "set (triggers ?d) = {t \<in> set (triggers d). \<not> p t}" "distinct (map tr_id (triggers ?d))"
    using assms by (auto simp: delete_triggers_def Let_def typed_triggers_def shaped_triggers_def delete_many_def distinct_map_filter)
  moreover have "users ?d = users d" by (simp add: delete_triggers_def Let_def)
  ultimately show ?thesis using assms keep by (auto simp: typed_triggers_def shaped_triggers_def list_all_iff)
qed

lemma typed_delete_triggers:
  assumes "typed_triggers V d" shows "typed_triggers V (delete_triggers p d)"
proof -
  have "countForUser u (delete_triggers p d) \<le> 10" for u
    using assms by (auto simp: countForUser_def delete_triggers_def Let_def typed_triggers_def intro: order_trans [OF count_where_delete_many_le])
  then show ?thesis using shaped_delete_triggers assms by (simp add: typed_triggers_def)
qed

lemma stores_delete_triggers: "stores C V d (delete_triggers p d)"
proof (rule stores_triggers)
  show "typed_triggers V (delete_triggers p d)" if "stored C V d" using that by (simp add: stored_def typed_delete_triggers)
qed (simp_all add: delete_triggers_def Let_def)

lemma stores_delete_user: "stores C V d (delete_user i d)"
proof -
  let ?d = "delete_triggers (\<lambda>t. tr_userId t = i) d"
  have "stored C V ?d \<Longrightarrow> \<forall>t \<in> set (triggers ?d). tr_userId t \<in> u_id ` {u \<in> set (users ?d). u_id u \<noteq> i}"
    by (force simp: stored_def typed_triggers_def shaped_triggers_def delete_triggers_def Let_def)
  then have "stores C V ?d (delete_user i d)"
    unfolding delete_user_def Let_def
    by (auto simp: preserving_def stored_def pins_ok_def typed_triggers_def shaped_triggers_def conditions_of_def countForUser_def list_all_iff
        intro: order_trans [OF count_where_delete_many_le])
  then show ?thesis using stores_delete_triggers kept.rel_trans by blast
qed

lemma stores_reset: "reset_transaction i h d = Inr (x, d') \<Longrightarrow> stores C V d d'"
proof -
  assume "reset_transaction i h d = Inr (x, d')"
  then obtain e where e: "update_user i (\<lambda>v. v\<lparr>u_passwordHash := h, u_passwordResetTokenHash := None,
             u_passwordResetTokenExpiresAt := None, u_emailVerified := True\<rparr>) d = Inr ((), e)"
    and d': "d' = snd (revoke_where (\<lambda>r. rt_userId r = i) e)"
    by (auto simp: reset_transaction_def split: sum.splits)
  have "stores C V d e" by (rule stores_update_user [OF e]) (simp_all add: typed_user_def)
  moreover have "stores C V e d'" unfolding d' by (rule stores_tokens(2) [OF prod.collapse [symmetric]])
  ultimately show ?thesis by (rule kept.rel_trans)
qed

lemma stores_trigger_create:
  assumes "trigger_create i ids now userId dto l d = Inr (x, d')" and "valid_create (va_len V) dto"
    and "countForUser userId d < maxTriggersPerUser API_LIMITS"
  shows "stores C V d d'"
proof (rule stores_triggers)
  show "typed_triggers V d'" if "stored C V d"
    using typed_trigger_create [OF assms(1,2)] assms(3) that by (simp add: stored_def API_LIMITS_def)
qed (use assms(1) in \<open>auto simp: trigger_create_def Let_def split: if_splits\<close>)

lemma stores_trigger_update:
  assumes "trigger_update ids i dto d = Inr (x, d')" and "valid_update (va_len V) dto" shows "stores C V d d'"
proof (rule stores_triggers)
  show "typed_triggers V d'" if "stored C V d" using typed_trigger_update [OF assms] that by (simp add: stored_def)
qed (use assms(1) in \<open>auto simp: trigger_update_def Let_def split: if_splits option.splits\<close>)

section \<open>Requests keep it\<close>

interpretation storing: api_statements "stores C V" C V
proof unfold_locales
  show "stores C V d d'" if "update_user i g d = Inr (x, d')" "benign V g" for i g d x d'
    using that(2) by (intro stores_update_user [OF that(1)]) (simp_all add: benign_def)
  show "stores C V d d'" if "pinned_insert c d = Inr (pc, d')" "typed_pin V c"
      "count_where (\<lambda>x. pc_userId x = pc_userId c) (pinnedCities d) < maxPinnedCities API_LIMITS" for c d pc d'
    using that by (intro stores_pinned_insert) (auto simp: API_LIMITS_def)
qed (auto elim: stores_users_create stores_tokens stores_reset stores_upsert_push stores_trigger_create stores_trigger_update
    intro: stores_delete_user stores_push_delete stores_pinned_delete stores_delete_triggers)

lemma requested_stored:
  assumes "stored (app_crypto A) (app_validators A) (ap_db s)"
  shows "stored (app_crypto A) (app_validators A) (ap_db (requested A fq s))"
  using storing.requested_obeys [OF refl refl, where A = A and s = s and fq = fq] assms by (simp add: preserving_def)

interpretation typed: invariant_system "requested A" "\<lambda>s. stored (app_crypto A) (app_validators A) (ap_db s)"
  by unfold_locales (rule requested_stored)

text \<open>
  C12: what the API stores is well-typed, whatever is asked of it. Through any sequence of requests, by
  anyone, with any arguments and any statements failing, every stored window of quiet hours is one the watcher
  can parse and every zone one it knows; every push endpoint is an https URL at a known push service; names and
  coordinates are in bounds; a trigger has one to three distinct channels, one to five conditions of its
  own, a cooldown between ten minutes and a day, a bucket some shard selects and an owner; and nobody has more than ten triggers or twelve
  pinned cities, none of them twice. Requests are taken one at a time.
\<close>

theorem stored_well_typed:
  assumes "stored (app_crypto A) (app_validators A) (ap_db s)"
  shows "stored (app_crypto A) (app_validators A) (ap_db (fold (requested A) requests s))"
  using assms by (rule typed.run_inv)

lemma api1_stored: "stored (app_crypto app0) (app_validators app0) (ap_db api1)"
  by (simp add: stored_def app0_def validators0_def typed_user_def optional_def pins_ok_def typed_triggers_def shaped_triggers_def typed_trigger_def sized_def
      in_range_def conditions_of_def countForUser_def count_where_def API_LIMITS_def locationBucket_less trigger_samples)

theorem stored_well_typed_witness:
  "stored (app_crypto app0) (app_validators app0) (ap_db (fold (requested app0)
     [(fates0 2000, asking (Some ''alice'') (TriggersRoute (PatchTrigger ''t1'' (no_patch\<lparr>ut_cooldownMin := Some 30\<rparr>))))] api1))"
  using api1_stored by (rule stored_well_typed)

end
