(* ===== verification/WatchedTriggers.thy ===== *)
theory WatchedTriggers
  imports Schema Location
begin

text \<open>
  \<open>apps/watcher/src/ports/watched-trigger.repository.ts\<close> and its adapter
  \<open>persistence/prisma-watched-trigger.repository.ts\<close>: the projection of a trigger the poll cycle works
  with, and the two transactions a cycle may write.
\<close>

section \<open>The port\<close>

record WatchedCondition = ConditionSpec +
  wc_id :: ident

text \<open>The trigger is passed to \<open>decide\<close> as it is, so the projection extends the decision's input.\<close>

record WatchedTrigger = TriggerStateInput +
  w_id :: ident
  w_userId :: ident
  w_name :: string
  w_city :: string
  w_latitude :: rat
  w_longitude :: rat
  w_conditionLogic :: ConditionLogic
  w_conditions :: "WatchedCondition list"
  w_channels :: "Channel list"
  w_quietHours :: "QuietHours option"

record ConditionObservation =
  o_id :: ident
  o_observedValue :: rat
  o_matched :: bool

record TriggerStatePatch =
  patch_lastEvaluatedAt :: instant
  patch_state :: "TriggerState option"
  patch_lastFiredAt :: "instant option"

record OutboxMessage =
  m_eventId :: ident
  m_routingKey :: string
  m_event :: TriggerFiredEvent

section \<open>The adapter\<close>

definition watched_condition :: "TriggerCondition \<Rightarrow> WatchedCondition" where
  "watched_condition c =
     \<lparr>metric = tc_metric c, operator = tc_operator c, threshold = tc_threshold c, wc_id = tc_id c\<rparr>"

definition watched_trigger :: "db \<Rightarrow> Trigger \<Rightarrow> User \<Rightarrow> WatchedTrigger" where
  "watched_trigger d row u =
     \<lparr>state = tr_state row, lastFiredAt = tr_lastFiredAt row, cooldownMin = tr_cooldownMin row,
      w_id = tr_id row, w_userId = tr_userId row, w_name = tr_name row, w_city = tr_city row,
      w_latitude = tr_latitude row, w_longitude = tr_longitude row,
      w_conditionLogic = tr_conditionLogic row,
      w_conditions = map watched_condition (sort_key tc_order (find_many (\<lambda>c. tc_triggerId c = tr_id row) (conditions d))),
      w_channels = tr_channels row,
      w_quietHours = Some \<lparr>qh_start = u_quietHoursStart u, qh_end = u_quietHoursEnd u, qh_timezone = u_timezone u\<rparr>\<rparr>"

text \<open>\<open>include: user\<close> joins the owner, which the foreign key provides.\<close>

definition findActive :: "db \<Rightarrow> nat list option \<Rightarrow> WatchedTrigger list" where
  "findActive d buckets =
     List.map_filter (\<lambda>row. map_option (watched_trigger d row) (find_unique (\<lambda>u. u_id u = tr_userId row) (users d)))
       (find_many (\<lambda>t. tr_isActive t \<and> (case buckets of Some bs \<Rightarrow> tr_locationBucket t \<in> set bs | None \<Rightarrow> True))
          (triggers d))"

text \<open>An absent field of the patch leaves its column alone.\<close>

definition apply_patch :: "TriggerStatePatch \<Rightarrow> Trigger \<Rightarrow> Trigger" where
  "apply_patch patch t =
     t\<lparr>tr_lastEvaluatedAt := Some (patch_lastEvaluatedAt patch),
       tr_state := (case patch_state patch of Some s \<Rightarrow> s | None \<Rightarrow> tr_state t),
       tr_lastFiredAt := (case patch_lastFiredAt patch of Some x \<Rightarrow> Some x | None \<Rightarrow> tr_lastFiredAt t)\<rparr>"

fun write_observations :: "ConditionObservation list \<Rightarrow> TriggerCondition list \<Rightarrow> (db_error, TriggerCondition list) result" where
  "write_observations [] cs = Inr cs"
| "write_observations (ob # obs) cs =
     (case update_one (\<lambda>c. tc_id c = o_id ob)
             (\<lambda>c. c\<lparr>tc_lastObservedValue := Some (o_observedValue ob), tc_lastMatched := Some (o_matched ob)\<rparr>) cs of
        Inl e \<Rightarrow> Inl e
      | Inr cs' \<Rightarrow> write_observations obs cs')"

definition writes :: "ident \<Rightarrow> ConditionObservation list \<Rightarrow> TriggerStatePatch \<Rightarrow> db \<Rightarrow> (db_error, db) result" where
  "writes triggerId observations patch d =
     (case write_observations observations (conditions d) of
        Inl e \<Rightarrow> Inl e
      | Inr cs \<Rightarrow>
          (case update_one (\<lambda>t. tr_id t = triggerId) (apply_patch patch) (triggers d) of
             Inl e \<Rightarrow> Inl e
           | Inr ts \<Rightarrow> Inr (d\<lparr>conditions := cs, triggers := ts\<rparr>)))"

definition recordObservation ::
  "commit \<Rightarrow> ident \<Rightarrow> ConditionObservation list \<Rightarrow> TriggerStatePatch \<Rightarrow> db \<Rightarrow> (db_error, unit) result \<times> db" where
  "recordObservation c triggerId observations patch d =
     transact c d (map_sum id (\<lambda>d'. ((), d')) (writes triggerId observations patch d))"

text \<open>\<open>createMany\<close> with \<open>skipDuplicates\<close>: a row that collides with the unique index is left out.\<close>

fun create_outbox :: "(ident \<times> OutboxMessage) list \<Rightarrow> instant \<Rightarrow> OutboxEvent list \<Rightarrow> OutboxEvent list" where
  "create_outbox [] now rows = rows"
| "create_outbox ((i, m) # ms) now rows =
     create_outbox ms now
       (if find_unique (\<lambda>e. ob_eventId e = m_eventId m \<and> ob_routingKey e = m_routingKey m) rows \<noteq> None then rows
        else rows @ [\<lparr>ob_id = i, ob_eventId = m_eventId m, ob_routingKey = m_routingKey m, ob_payload = m_event m,
                      ob_createdAt = now, ob_publishedAt = None\<rparr>])"

text \<open>\<open>ids\<close> are the row ids the database draws, \<open>now\<close> its clock at the start of the transaction.\<close>

definition commitFire ::
  "commit \<Rightarrow> ident list \<Rightarrow> instant \<Rightarrow> ident \<Rightarrow> ConditionObservation list \<Rightarrow> TriggerStatePatch \<Rightarrow> OutboxMessage list \<Rightarrow>
   db \<Rightarrow> (db_error, unit) result \<times> db" where
  "commitFire c ids now triggerId observations patch messages d =
     transact c d
       (map_sum id (\<lambda>d'. ((), d'\<lparr>outbox := create_outbox (zip ids messages) now (outbox d')\<rparr>))
          (writes triggerId observations patch d))"

section \<open>Lemmas\<close>

definition msg_of :: "OutboxEvent \<Rightarrow> OutboxMessage" where
  "msg_of e = \<lparr>m_eventId = ob_eventId e, m_routingKey = ob_routingKey e, m_event = ob_payload e\<rparr>"

definition ob_key :: "OutboxEvent \<Rightarrow> ident \<times> string" where
  "ob_key e = (ob_eventId e, ob_routingKey e)"

definition m_key :: "OutboxMessage \<Rightarrow> ident \<times> string" where
  "m_key m = (m_eventId m, m_routingKey m)"

lemma m_key_msg_of [simp]: "m_key (msg_of e) = ob_key e"
  by (simp add: m_key_def msg_of_def ob_key_def)

lemma outbox_dup_iff:
  "find_unique (\<lambda>e. ob_eventId e = m_eventId m \<and> ob_routingKey e = m_routingKey m) rows = None \<longleftrightarrow>
   m_key m \<notin> ob_key ` set rows"
  by (auto simp: find_unique_None ob_key_def m_key_def image_iff)

lemma create_outbox_extends: "\<exists>new. create_outbox ims now rows = rows @ new \<and>
   (\<forall>e \<in> set new. ob_publishedAt e = None \<and> ob_createdAt e = now \<and> msg_of e \<in> snd ` set ims \<and> ob_id e \<in> fst ` set ims)"
proof (induction ims now rows rule: create_outbox.induct)
  case (2 i m ms now rows)
  show ?case
  proof (cases "m_key m \<in> ob_key ` set rows")
    case True
    with 2 show ?thesis by (auto simp: outbox_dup_iff)
  next
    case False
    define e where "e = \<lparr>ob_id = i, ob_eventId = m_eventId m, ob_routingKey = m_routingKey m, ob_payload = m_event m,
                      ob_createdAt = now, ob_publishedAt = None\<rparr>"
    have e: "ob_publishedAt e = None \<and> ob_createdAt e = now \<and> msg_of e = m \<and> ob_id e = i"
      by (simp add: e_def msg_of_def)
    have "create_outbox ((i, m) # ms) now rows = create_outbox ms now (rows @ [e])"
      using False by (simp add: outbox_dup_iff e_def del: not_None_eq)
    moreover obtain new where "create_outbox ms now (rows @ [e]) = (rows @ [e]) @ new"
      "\<forall>e \<in> set new. ob_publishedAt e = None \<and> ob_createdAt e = now \<and> msg_of e \<in> snd ` set ms \<and> ob_id e \<in> fst ` set ms"
      using 2 False unfolding e_def by (auto simp: outbox_dup_iff simp del: not_None_eq)
    ultimately show ?thesis using e by (intro exI [of _ "e # new"]) auto
  qed
qed simp

lemma create_outbox_keys:
  "distinct (map ob_key rows) \<Longrightarrow>
   distinct (map ob_key (create_outbox ims now rows)) \<and>
   ob_key ` set (create_outbox ims now rows) = ob_key ` set rows \<union> m_key ` snd ` set ims"
proof (induction ims now rows rule: create_outbox.induct)
  case (2 i m ms now rows)
  then show ?case
    by (cases "m_key m \<in> ob_key ` set rows")
      (auto simp: outbox_dup_iff ob_key_def m_key_def simp del: not_None_eq)
qed simp

text \<open>A commit whose answer was lost stages nothing new when it is repeated.\<close>

lemma create_outbox_idle:
  "(\<And>m. m \<in> snd ` set ims \<Longrightarrow> m_key m \<in> ob_key ` set rows) \<Longrightarrow> create_outbox ims now rows = rows"
  by (induction ims now rows rule: create_outbox.induct) (auto simp: outbox_dup_iff simp del: not_None_eq)

lemma writes_outbox: "writes tid obs patch d = Inr d' \<Longrightarrow> outbox d' = outbox d"
  by (auto simp: writes_def split: sum.splits)

lemma writes_triggers:
  "writes tid obs patch d = Inr d' \<Longrightarrow> triggers d' = update_many (\<lambda>t. tr_id t = tid) (apply_patch patch) (triggers d)"
  by (auto simp: writes_def update_one_Inr split: sum.splits)

lemma writes_users: "writes tid obs patch d = Inr d' \<Longrightarrow> users d' = users d"
  by (auto simp: writes_def split: sum.splits)

lemma findActive_iff:
  "w \<in> set (findActive d buckets) \<longleftrightarrow>
    (\<exists>t \<in> set (triggers d). \<exists>u. find_unique (\<lambda>u. u_id u = tr_userId t) (users d) = Some u \<and> w = watched_trigger d t u \<and>
       tr_isActive t \<and> selects buckets (tr_locationBucket t))"
  by (auto simp: findActive_def List.map_filter_def find_many_def selects_def split: option.splits) force+

section \<open>Properties\<close>

text \<open>
  A firing is all or nothing. Whatever happens to the commit, either the database is unchanged,
  or the trigger is FIRED with its firing instant and every delivery of the event is staged: each
  message's (event, routing key) is in the outbox, and nothing that was staged before is lost.
\<close>

theorem commitFire_atomic:
  assumes "db_keys d" and "length ids = length messages"
    and "commitFire c ids now tid obs \<lparr>patch_lastEvaluatedAt = ev, patch_state = Some FIRED, patch_lastFiredAt = Some f\<rparr> messages d = (r, d')"
    (is "commitFire c ids now tid obs ?patch messages d = _")
  shows "d' = d \<or>
    ((\<exists>t \<in> set (triggers d). tr_id t = tid) \<and>
     (\<forall>t \<in> set (triggers d'). tr_id t = tid \<longrightarrow> tr_state t = FIRED \<and> tr_lastFiredAt t = Some f) \<and>
     (\<forall>m \<in> set messages. m_key m \<in> ob_key ` set (outbox d')) \<and>
     (\<exists>new. outbox d' = outbox d @ new \<and> (\<forall>e \<in> set new. ob_publishedAt e = None \<and> msg_of e \<in> set messages)))"
proof (cases "writes tid obs ?patch d")
  case (Inl e)
  with assms(3) show ?thesis by (cases c) (auto simp: commitFire_def)
next
  case (Inr d1)
  let ?o = "create_outbox (zip ids messages) now (outbox d)"
  have d': "d' = d \<or> d' = d1\<lparr>outbox := ?o\<rparr>"
    using assms(3) Inr writes_outbox [OF Inr] by (cases c) (auto simp: commitFire_def)
  have snd: "snd ` set (zip ids messages) = set messages"
    using assms(2) by (metis list.set_map map_snd_zip)
  have "distinct (map ob_key (outbox d))" using assms(1) by (simp add: db_keys_def ob_key_def [abs_def])
  from create_outbox_keys [OF this, of "zip ids messages" now]
  have "\<forall>m \<in> set messages. m_key m \<in> ob_key ` set ?o" by (simp add: snd)
  moreover have "\<exists>t \<in> set (triggers d). tr_id t = tid"
    using Inr by (auto simp: writes_def update_one_Inr split: sum.splits)
  moreover have "\<forall>t \<in> set (triggers d1). tr_id t = tid \<longrightarrow> tr_state t = FIRED \<and> tr_lastFiredAt t = Some f"
  proof (intro ballI impI)
    fix t assume "t \<in> set (triggers d1)" and t: "tr_id t = tid"
    then have "t \<in> set (update_many (\<lambda>t. tr_id t = tid) (apply_patch ?patch) (triggers d))"
      by (simp only: writes_triggers [OF Inr])
    then show "tr_state t = FIRED \<and> tr_lastFiredAt t = Some f"
      by (cases rule: update_manyE) (simp_all add: apply_patch_def t)
  qed
  moreover obtain new where "?o = outbox d @ new" "\<forall>e \<in> set new. ob_publishedAt e = None \<and> msg_of e \<in> set messages"
    using create_outbox_extends [of "zip ids messages" now "outbox d"] snd by blast
  ultimately show ?thesis using d' by (cases "d' = d") simp_all
qed

definition heat_mail :: OutboxMessage where
  "heat_mail = \<lparr>m_eventId = ''e1'', m_routingKey = routingKeyFor EMAIL, m_event = heat_event\<rparr>"

definition heat_fire :: TriggerStatePatch where
  "heat_fire = \<lparr>patch_lastEvaluatedAt = 900, patch_state = Some FIRED, patch_lastFiredAt = Some 950\<rparr>"

theorem commitFire_atomic_witness:
  "m_key heat_mail \<in> ob_key ` set (outbox (snd (commitFire AnswerLost [''o1''] 1000 ''t1'' [] heat_fire [heat_mail] small_db)))"
proof -
  define d' where "d' = snd (commitFire AnswerLost [''o1''] 1000 ''t1'' [] heat_fire [heat_mail] small_db)"
  have "outbox d' \<noteq> []"
    by (simp add: d'_def commitFire_def writes_def update_one_def find_unique_def small_db_defs)
  then have "d' \<noteq> small_db" by (auto simp: small_db_defs)
  with commitFire_atomic [OF small_db_keys, of "[''o1'']" "[heat_mail]" AnswerLost 1000 "''t1''" "[]" 900 950 _ d']
  show ?thesis by (simp add: heat_fire_def d'_def prod_eq_iff)
qed

end
