(* ===== verification/Outbox.thy ===== *)
theory Outbox
  imports WatchedTriggers RedisStore
begin

text \<open>
  The transactional outbox: \<open>persistence/prisma-outbox.repository.ts\<close> and the relay that drains it,
  \<open>outbox/outbox-relay.service.ts\<close>, publishing through the port of
  \<open>libs/contracts/src/event-publisher.port.ts\<close>. The broker is the sequence of messages it accepted; a
  publish may fail before or after the broker accepted it.
\<close>

section \<open>The repository\<close>

record PendingOutboxEvent =
  pe_id :: ident
  pe_eventId :: ident
  pe_routingKey :: string
  pe_event :: TriggerFiredEvent

definition pending_event :: "OutboxEvent \<Rightarrow> PendingOutboxEvent" where
  "pending_event row =
     \<lparr>pe_id = ob_id row, pe_eventId = ob_eventId row, pe_routingKey = ob_routingKey row, pe_event = ob_payload row\<rparr>"

text \<open>\<open>take\<close>: a negative count takes from the end; anything but an integer is rejected.\<close>

fun take_rows :: "jsnum \<Rightarrow> 'r list \<Rightarrow> (db_error, 'r list) result" where
  "take_rows (Fin n) rows =
     (if n \<noteq> of_int \<lfloor>n\<rfloor> then Inl InvalidQuery
      else if 0 \<le> n then Inr (take (nat \<lfloor>n\<rfloor>) rows)
      else Inr (drop (length rows - nat (- \<lfloor>n\<rfloor>)) rows))"
| "take_rows _ rows = Inl InvalidQuery"

definition findPending :: "jsnum \<Rightarrow> OutboxEvent list \<Rightarrow> (db_error, PendingOutboxEvent list) result" where
  "findPending limit rows =
     map_sum id (map pending_event)
       (take_rows limit (sort_key ob_createdAt (find_many (\<lambda>e. ob_publishedAt e = None) rows)))"

definition countPending :: "OutboxEvent list \<Rightarrow> nat" where
  "countPending rows = count_where (\<lambda>e. ob_publishedAt e = None) rows"

definition markPublished :: "instant \<Rightarrow> ident list \<Rightarrow> OutboxEvent list \<Rightarrow> OutboxEvent list" where
  "markPublished now ids rows =
     (if ids = [] then rows
      else update_many (\<lambda>e. ob_id e \<in> set ids) (\<lambda>e. e\<lparr>ob_publishedAt := Some now\<rparr>) rows)"

definition prunePublished :: "instant \<Rightarrow> OutboxEvent list \<Rightarrow> nat \<times> OutboxEvent list" where
  "prunePublished before rows =
     (let old = (\<lambda>e. case ob_publishedAt e of Some t \<Rightarrow> t < before | None \<Rightarrow> False)
      in (count_where old rows, delete_many old rows))"

section \<open>The relay\<close>

definition RELAY_LOCK_KEY :: string where
  "RELAY_LOCK_KEY = ''watcher:outbox:lock''"

definition RELAY_LOCK_TTL_SEC :: int where
  "RELAY_LOCK_TTL_SEC = 60"

definition DEFAULT_BATCH :: rat where
  "DEFAULT_BATCH = 200"

definition RETENTION_HOURS :: int where
  "RETENTION_HOURS = 24"

text \<open>\<open>Number(config.get('OUTBOX_BATCH_SIZE') ?? String(DEFAULT_BATCH))\<close>\<close>

definition batchSize :: "cfg \<Rightarrow> jsnum" where
  "batchSize configured = js_Number (case configured of Undef \<Rightarrow> Str (js_show DEFAULT_BATCH) | _ \<Rightarrow> configured)"

type_synonym broker = "(string \<times> TriggerFiredEvent) list"

text \<open>The publishing loop: the ids the broker acknowledged, up to the first failure.\<close>

fun publish_loop :: "(ident \<Rightarrow> io) \<Rightarrow> PendingOutboxEvent list \<Rightarrow> broker \<Rightarrow> ident list \<times> broker" where
  "publish_loop fate [] b = ([], b)"
| "publish_loop fate (row # rows) b =
     (case fate (pe_id row) of
        Replied \<Rightarrow> (let (published, b') = publish_loop fate rows (b @ [(pe_routingKey row, pe_event row)])
                    in (pe_id row # published, b'))
      | LostBefore \<Rightarrow> ([], b)
      | LostAfter \<Rightarrow> ([], b @ [(pe_routingKey row, pe_event row)]))"

text \<open>The fates of the calls of one pass and the instants they were made at.\<close>

record pass =
  pa_token :: string
  pa_acquiredAt :: instant
  pa_acquire :: io
  pa_find :: bool
  pa_publish :: "ident \<Rightarrow> io"
  pa_markedAt :: instant
  pa_mark :: commit
  pa_releasedAt :: instant
  pa_release :: io

datatype relay_error = RelayRedis redis_error | RelayDb db_error

definition publishPending ::
  "jsnum \<Rightarrow> pass \<Rightarrow> OutboxEvent list \<Rightarrow> broker \<Rightarrow> (relay_error, nat) result \<times> OutboxEvent list \<times> broker" where
  "publishPending batch p rows b =
     (if \<not> pa_find p then (Inl (RelayDb DbDown), rows, b)
      else case findPending batch rows of
        Inl e \<Rightarrow> (Inl (RelayDb e), rows, b)
      | Inr pending \<Rightarrow>
          if pending = [] then (Inr 0, rows, b)
          else let (published, b') = publish_loop (pa_publish p) pending b
               in if published = [] then (Inr 0, rows, b')
                  else case transact (pa_mark p) rows (Inr ((), markPublished (pa_markedAt p) published rows)) of
                         (Inl e, rows') \<Rightarrow> (Inl (RelayDb e), rows', b')
                       | (Inr _, rows') \<Rightarrow> (Inr (length published), rows', b'))"

record 's relay_world =
  rl_outbox :: "OutboxEvent list"
  rl_redis :: 's
  rl_broker :: broker

text \<open>A failing release replaces the answer, as a throw in \<open>finally\<close> does.\<close>

definition flush :: "'s redis \<Rightarrow> jsnum \<Rightarrow> pass \<Rightarrow> 's relay_world \<Rightarrow> (relay_error, nat) result \<times> 's relay_world" where
  "flush R batch p w =
     (case acquireLock R (pa_acquire p) (rl_redis w) (pa_acquiredAt p) (pa_token p) RELAY_LOCK_KEY RELAY_LOCK_TTL_SEC of
        (Inl e, s) \<Rightarrow> (Inl (RelayRedis e), w\<lparr>rl_redis := s\<rparr>)
      | (Inr None, s) \<Rightarrow> (Inr 0, w\<lparr>rl_redis := s\<rparr>)
      | (Inr (Some token), s) \<Rightarrow>
          (let (r, rows, b) = publishPending batch p (rl_outbox w) (rl_broker w);
               (rel, s') = releaseLock R (pa_release p) s (pa_releasedAt p) RELAY_LOCK_KEY token
           in (case rel of Inl e \<Rightarrow> Inl (RelayRedis e) | Inr _ \<Rightarrow> r,
               w\<lparr>rl_outbox := rows, rl_redis := s', rl_broker := b\<rparr>)))"

text \<open>The cron swallows every error; the next tick retries.\<close>

definition runRelay :: "'s redis \<Rightarrow> jsnum \<Rightarrow> pass \<Rightarrow> 's relay_world \<Rightarrow> 's relay_world" where
  "runRelay R batch p w = snd (flush R batch p w)"

definition pruneRelayed :: "instant \<Rightarrow> OutboxEvent list \<Rightarrow> OutboxEvent list" where
  "pruneRelayed now rows = snd (prunePublished (now - RETENTION_HOURS * 3600000) rows)"

section \<open>Relays and commits interleaved\<close>

text \<open>
  The same work one call at a time, so that any number of relays (the lock may have expired under a
  slow one), commits and sweeps interleave, and a relay may die between any two calls. \<open>sys_staged\<close>
  collects every message a commit ever staged and \<open>sys_ids\<close> the row ids the database has drawn.
\<close>

record relay_sys =
  sys_outbox :: "OutboxEvent list"
  sys_broker :: broker
  sys_staged :: "OutboxMessage set"
  sys_ids :: "ident set"
  sys_relay :: "nat \<Rightarrow> (PendingOutboxEvent list \<times> ident list) option"

inductive relay_step :: "jsnum \<Rightarrow> relay_sys \<Rightarrow> relay_sys \<Rightarrow> bool" for batch where
  rs_commit: "distinct ids \<Longrightarrow> set ids \<inter> sys_ids w = {} \<Longrightarrow> rows = create_outbox (zip ids ms) now (sys_outbox w) \<Longrightarrow>
    relay_step batch w (w\<lparr>sys_outbox := rows, sys_ids := sys_ids w \<union> set ids,
      sys_staged := sys_staged w \<union> {msg_of e |e. e \<in> set rows \<and> e \<notin> set (sys_outbox w)}\<rparr>)"
| rs_find: "findPending batch (sys_outbox w) = Inr pending \<Longrightarrow>
    relay_step batch w (w\<lparr>sys_relay := (sys_relay w)(i \<mapsto> (pending, []))\<rparr>)"
| rs_publish: "sys_relay w i = Some (row # rows, published) \<Longrightarrow>
    relay_step batch w (w\<lparr>sys_relay := (sys_relay w)(i \<mapsto> (rows, published @ [pe_id row])),
      sys_broker := sys_broker w @ [(pe_routingKey row, pe_event row)]\<rparr>)"
| rs_refused: "sys_relay w i = Some (row # rows, published) \<Longrightarrow>
    relay_step batch w (w\<lparr>sys_relay := (sys_relay w)(i \<mapsto> ([], published))\<rparr>)"
| rs_unconfirmed: "sys_relay w i = Some (row # rows, published) \<Longrightarrow>
    relay_step batch w (w\<lparr>sys_relay := (sys_relay w)(i \<mapsto> ([], published)),
      sys_broker := sys_broker w @ [(pe_routingKey row, pe_event row)]\<rparr>)"
| rs_mark: "sys_relay w i = Some ([], published) \<Longrightarrow>
    relay_step batch w (w\<lparr>sys_relay := (sys_relay w)(i := None),
      sys_outbox := markPublished now published (sys_outbox w)\<rparr>)"
| rs_die: "relay_step batch w (w\<lparr>sys_relay := (sys_relay w)(i := None)\<rparr>)"
| rs_prune: "relay_step batch w (w\<lparr>sys_outbox := pruneRelayed now (sys_outbox w)\<rparr>)"

inductive_cases relay_stepE: "relay_step batch w w'"

definition sent :: "relay_sys \<Rightarrow> OutboxEvent \<Rightarrow> bool" where
  "sent w e \<longleftrightarrow> (ob_routingKey e, ob_payload e) \<in> set (sys_broker w)"

text \<open>Row ids are drawn once, and a relay's rows are the rows of the table.\<close>

definition ids_inv :: "relay_sys \<Rightarrow> bool" where
  "ids_inv w \<longleftrightarrow> (\<forall>e \<in> set (sys_outbox w). ob_id e \<in> sys_ids w) \<and> distinct (map ob_id (sys_outbox w)) \<and>
     (\<forall>i rows published. sys_relay w i = Some (rows, published) \<longrightarrow>
        (\<forall>p \<in> set rows. pe_id p \<in> sys_ids w) \<and> (\<forall>x \<in> set published. x \<in> sys_ids w))"

definition sent_inv :: "relay_sys \<Rightarrow> bool" where
  "sent_inv w \<longleftrightarrow> (\<forall>e \<in> set (sys_outbox w). ob_publishedAt e \<noteq> None \<longrightarrow> sent w e)"

definition staged_inv :: "relay_sys \<Rightarrow> bool" where
  "staged_inv w \<longleftrightarrow> (\<forall>m \<in> sys_staged w. (m_routingKey m, m_event m) \<in> set (sys_broker w) \<or>
        (\<exists>e \<in> set (sys_outbox w). msg_of e = m \<and> ob_publishedAt e = None))"

definition procs_inv :: "relay_sys \<Rightarrow> bool" where
  "procs_inv w \<longleftrightarrow> (\<forall>i rows published. sys_relay w i = Some (rows, published) \<longrightarrow>
        (\<forall>e \<in> set (sys_outbox w). (\<forall>p \<in> set rows. ob_id e = pe_id p \<longrightarrow> pending_event e = p) \<and>
           (ob_id e \<in> set published \<longrightarrow> sent w e)))"

definition relay_inv :: "relay_sys \<Rightarrow> bool" where
  "relay_inv w \<longleftrightarrow> ids_inv w \<and> sent_inv w \<and> staged_inv w \<and> procs_inv w"

lemmas inv_defs = ids_inv_def sent_inv_def staged_inv_def procs_inv_def sent_def

section \<open>Preservation\<close>

lemma take_rows_subset: "take_rows n rows = Inr rows' \<Longrightarrow> set rows' \<subseteq> set rows"
  by (cases n) (auto split: if_splits dest: in_set_takeD in_set_dropD)

lemma findPending_rows:
  assumes "findPending batch rows = Inr pending" and "p \<in> set pending"
  shows "\<exists>e \<in> set rows. ob_publishedAt e = None \<and> p = pending_event e"
proof -
  obtain rs where r: "take_rows batch (sort_key ob_createdAt (find_many (\<lambda>e. ob_publishedAt e = None) rows)) = Inr rs"
      "pending = map pending_event rs"
    using assms(1) by (auto simp: findPending_def map_sum_def split: sum.splits)
  from take_rows_subset [OF r(1)] r(2) assms(2) show ?thesis by (auto simp: find_many_def)
qed

lemma create_outbox_ids:
  "distinct (map ob_id rows) \<Longrightarrow> distinct (map fst ims) \<Longrightarrow> set (map fst ims) \<inter> ob_id ` set rows = {} \<Longrightarrow>
   distinct (map ob_id (create_outbox ims now rows))"
proof (induction ims now rows rule: create_outbox.induct)
  case (2 i m ms now rows)
  then show ?case by (cases "m_key m \<in> ob_key ` set rows") (auto simp: outbox_dup_iff simp del: not_None_eq)
qed simp

lemma in_markPublished:
  assumes "e \<in> set (markPublished now ids rows)"
  shows "e \<in> set rows \<or> (\<exists>r \<in> set rows. ob_id r \<in> set ids \<and> e = r\<lparr>ob_publishedAt := Some now\<rparr>)"
  using assms by (auto simp: markPublished_def split: if_splits elim!: update_manyE)

lemma markPublished_ids [simp]: "map ob_id (markPublished now ids rows) = map ob_id rows"
  by (simp add: markPublished_def map_update_many)

lemma markPublished_other:
  "e \<in> set rows \<Longrightarrow> ob_id e \<notin> set ids \<Longrightarrow> e \<in> set (markPublished now ids rows)"
  by (auto simp: markPublished_def set_update_many image_iff)

lemma in_pruneRelayed: "e \<in> set (pruneRelayed now rows) \<Longrightarrow> e \<in> set rows"
  by (auto simp: pruneRelayed_def prunePublished_def Let_def)

lemma pruneRelayed_pending: "e \<in> set rows \<Longrightarrow> ob_publishedAt e = None \<Longrightarrow> e \<in> set (pruneRelayed now rows)"
  by (auto simp: pruneRelayed_def prunePublished_def Let_def)

lemma pruneRelayed_distinct: "distinct (map ob_id rows) \<Longrightarrow> distinct (map ob_id (pruneRelayed now rows))"
  by (simp add: pruneRelayed_def prunePublished_def Let_def)

lemma relay_inv_commit:
  assumes "relay_inv w" and "distinct ids" and "set ids \<inter> sys_ids w = {}" and "rows = create_outbox (zip ids ms) now (sys_outbox w)"
  shows "relay_inv (w\<lparr>sys_outbox := rows, sys_ids := sys_ids w \<union> set ids,
      sys_staged := sys_staged w \<union> {msg_of e |e. e \<in> set rows \<and> e \<notin> set (sys_outbox w)}\<rparr>)" (is "relay_inv ?w")
proof -
  obtain new where new: "rows = sys_outbox w @ new"
      "\<And>e. e \<in> set new \<Longrightarrow> ob_publishedAt e = None \<and> ob_id e \<in> set ids"
    using create_outbox_extends [of "zip ids ms" now "sys_outbox w"] assms(4)
    by (force dest: set_zip_leftD)
  have inv: "ids_inv w" "sent_inv w" "staged_inv w" "procs_inv w" using assms(1) by (simp_all add: relay_inv_def)
  have fst: "set (map fst (zip ids ms)) \<subseteq> set ids" "distinct (map fst (zip ids ms))"
    using assms(2) by (auto simp: map_fst_zip_take dest: in_set_takeD)
  have "set (map fst (zip ids ms)) \<inter> ob_id ` set (sys_outbox w) = {}"
    using fst(1) inv(1) assms(3) unfolding ids_inv_def by blast
  then have "distinct (map ob_id rows)"
    using create_outbox_ids [OF _ fst(2)] inv(1) assms(4) by (simp add: ids_inv_def)
  then have "ids_inv ?w" using inv(1) new unfolding ids_inv_def by (simp, blast)
  moreover have "sent_inv ?w" "staged_inv ?w" using inv(2,3) new by (auto simp: inv_defs)
  moreover have "procs_inv ?w"
    using inv(1,4) new assms(3) by (fastforce simp: inv_defs)
  ultimately show ?thesis by (simp add: relay_inv_def)
qed

lemma relay_inv_mark:
  assumes "relay_inv w" and "sys_relay w i = Some ([], published)"
  shows "relay_inv (w\<lparr>sys_relay := (sys_relay w)(i := None), sys_outbox := markPublished now published (sys_outbox w)\<rparr>)"
    (is "relay_inv ?w")
proof -
  have inv: "ids_inv w" "sent_inv w" "staged_inv w" "procs_inv w" using assms(1) by (simp_all add: relay_inv_def)
  have s: "e \<in> set (sys_outbox w) \<Longrightarrow> ob_id e \<in> set published \<Longrightarrow> sent w e" for e
    using inv(4) assms(2) unfolding procs_inv_def by blast
  have row: "\<exists>r \<in> set (sys_outbox w). ob_id r = ob_id e \<and> pending_event r = pending_event e \<and> (sent w e = sent w r) \<and>
      (ob_publishedAt e \<noteq> None \<longrightarrow> ob_publishedAt r \<noteq> None \<or> ob_id r \<in> set published)"
    if "e \<in> set (markPublished now published (sys_outbox w))" for e
    using in_markPublished [OF that] by (auto simp: pending_event_def sent_def)
  have "ids_inv ?w" using inv(1) row unfolding ids_inv_def by (simp, metis)
  moreover have "sent_inv ?w" using inv(2) row s unfolding sent_inv_def by (fastforce simp: sent_def)
  moreover have "staged_inv ?w"
    unfolding staged_inv_def
  proof
    fix m assume "m \<in> sys_staged ?w"
    then have "(m_routingKey m, m_event m) \<in> set (sys_broker w) \<or>
        (\<exists>e \<in> set (sys_outbox w). msg_of e = m \<and> ob_publishedAt e = None)"
      using inv(3) by (simp add: staged_inv_def)
    then show "(m_routingKey m, m_event m) \<in> set (sys_broker ?w) \<or>
        (\<exists>e \<in> set (sys_outbox ?w). msg_of e = m \<and> ob_publishedAt e = None)"
    proof
      assume "\<exists>e \<in> set (sys_outbox w). msg_of e = m \<and> ob_publishedAt e = None"
      then obtain e where e: "e \<in> set (sys_outbox w)" "msg_of e = m" "ob_publishedAt e = None" by blast
      show ?thesis
      proof (cases "ob_id e \<in> set published")
        case True
        then show ?thesis using s [OF e(1)] e(2) by (auto simp: sent_def msg_of_def)
      next
        case False
        then show ?thesis using markPublished_other [OF e(1)] e by auto
      qed
    qed simp
  qed
  moreover have "procs_inv ?w"
    unfolding procs_inv_def
  proof (intro allI impI ballI)
    fix j rows pub e
    assume j: "sys_relay ?w j = Some (rows, pub)" and "e \<in> set (sys_outbox ?w)"
    then obtain r where "r \<in> set (sys_outbox w)" "ob_id r = ob_id e" "pending_event r = pending_event e" "sent w e = sent w r"
      using row by force
    moreover have "sys_relay w j = Some (rows, pub)" using j by (simp split: if_splits)
    ultimately show "(\<forall>p \<in> set rows. ob_id e = pe_id p \<longrightarrow> pending_event e = p) \<and> (ob_id e \<in> set pub \<longrightarrow> sent ?w e)"
      using inv(4) unfolding procs_inv_def by (simp add: sent_def) metis
  qed
  ultimately show ?thesis by (simp add: relay_inv_def)
qed

lemma procs_inv_upd:
  assumes "procs_inv w"
    and "\<And>e p. e \<in> set (sys_outbox w) \<Longrightarrow> p \<in> set rows \<Longrightarrow> ob_id e = pe_id p \<Longrightarrow> pending_event e = p"
    and "\<And>e. e \<in> set (sys_outbox w) \<Longrightarrow> ob_id e \<in> set published \<Longrightarrow>
      (ob_routingKey e, ob_payload e) \<in> set (sys_broker w @ msgs)"
  shows "procs_inv (w\<lparr>sys_relay := (sys_relay w)(i \<mapsto> (rows, published)), sys_broker := sys_broker w @ msgs\<rparr>)"
  using assms unfolding procs_inv_def sent_def by (auto split: if_splits)

lemma relay_inv_step:
  assumes "relay_step batch w w'" and "relay_inv w"
  shows "relay_inv w'"
  using assms(1)
proof (cases rule: relay_step.cases)
  case (rs_commit ids rows ms now)
  then show ?thesis using relay_inv_commit [OF assms(2)] by blast
next
  case (rs_find pending i)
  have inv: "ids_inv w" "sent_inv w" "staged_inv w" "procs_inv w" using assms(2) by (simp_all add: relay_inv_def)
  have rows: "\<exists>e \<in> set (sys_outbox w). p = pending_event e" if "p \<in> set pending" for p
    using findPending_rows [OF rs_find(2) that] by blast
  have uniq: "e = r" if "e \<in> set (sys_outbox w)" "r \<in> set (sys_outbox w)" "ob_id e = ob_id r" for e r
    using inv(1) that unfolding ids_inv_def distinct_map inj_on_def by blast
  have "ids_inv w'" using inv(1) rows rs_find(1) by (fastforce simp: ids_inv_def pending_event_def)
  moreover have "sent_inv w'" "staged_inv w'" using inv(2,3) rs_find(1) by (simp_all add: inv_defs)
  moreover have "pending_event e = p" if e: "e \<in> set (sys_outbox w)" "p \<in> set pending" "ob_id e = pe_id p" for e p
  proof -
    obtain r where "r \<in> set (sys_outbox w)" "p = pending_event r" using rows [OF e(2)] by blast
    then show ?thesis using uniq [OF e(1)] e(3) by (simp add: pending_event_def)
  qed
  then have "procs_inv w'"
    using procs_inv_upd [OF inv(4), where rows = pending and published = "[]" and msgs = "[]" and i = i] rs_find(1) by simp
  ultimately show ?thesis by (simp add: relay_inv_def)
next
  case (rs_publish i row rows published)
  have inv: "ids_inv w" "sent_inv w" "staged_inv w" "procs_inv w" using assms(2) by (simp_all add: relay_inv_def)
  have p: "\<And>e p. e \<in> set (sys_outbox w) \<Longrightarrow> p \<in> set (row # rows) \<Longrightarrow> ob_id e = pe_id p \<Longrightarrow> pending_event e = p"
    and q: "\<And>e. e \<in> set (sys_outbox w) \<Longrightarrow> ob_id e \<in> set published \<Longrightarrow> sent w e"
    using inv(4) rs_publish(2) unfolding procs_inv_def by blast+
  have row: "ob_routingKey e = pe_routingKey row \<and> ob_payload e = pe_event row"
    if "e \<in> set (sys_outbox w)" "ob_id e = pe_id row" for e
    using p [OF that(1) _ that(2)] by (auto simp: pending_event_def)
  have "ids_inv w'" using inv(1) rs_publish by (fastforce simp: ids_inv_def)
  moreover have "sent_inv w'" "staged_inv w'" using inv(2,3) rs_publish(1) by (auto simp: inv_defs)
  moreover have "procs_inv w'"
    unfolding rs_publish(1)
    by (rule procs_inv_upd [OF inv(4)]) (use p q row in \<open>auto simp: sent_def\<close>)
  ultimately show ?thesis by (simp add: relay_inv_def)
next
  case (rs_refused i row rows published)
  then show ?thesis using assms(2) procs_inv_upd [of w "[]" published "[]" i]
    by (fastforce simp: relay_inv_def inv_defs)
next
  case (rs_unconfirmed i row rows published)
  have inv: "ids_inv w" "sent_inv w" "staged_inv w" "procs_inv w" using assms(2) by (simp_all add: relay_inv_def)
  have q: "\<And>e. e \<in> set (sys_outbox w) \<Longrightarrow> ob_id e \<in> set published \<Longrightarrow> sent w e"
    using inv(4) rs_unconfirmed(2) unfolding procs_inv_def by blast
  have "ids_inv w'" using inv(1) rs_unconfirmed by (fastforce simp: ids_inv_def)
  moreover have "sent_inv w'" "staged_inv w'" using inv(2,3) rs_unconfirmed(1) by (auto simp: inv_defs)
  moreover have "procs_inv w'"
    unfolding rs_unconfirmed(1) by (rule procs_inv_upd [OF inv(4)]) (use q in \<open>auto simp: sent_def\<close>)
  ultimately show ?thesis by (simp add: relay_inv_def)
next
  case (rs_mark i published now)
  then show ?thesis using relay_inv_mark [OF assms(2)] by blast
next
  case (rs_die i)
  then show ?thesis using assms(2) by (simp add: relay_inv_def inv_defs)
next
  case (rs_prune now)
  have "ids_inv w'" "sent_inv w'" "procs_inv w'"
    using assms(2) rs_prune in_pruneRelayed pruneRelayed_distinct
    by (auto simp: relay_inv_def inv_defs)
  moreover have "staged_inv w'"
    using assms(2) rs_prune pruneRelayed_pending unfolding relay_inv_def staged_inv_def by fastforce
  ultimately show ?thesis by (simp add: relay_inv_def)
qed

lemma relay_inv_run: "(relay_step batch)\<^sup>*\<^sup>* w w' \<Longrightarrow> relay_inv w \<Longrightarrow> relay_inv w'"
  by (induction rule: rtranclp_induct) (auto intro: relay_inv_step)

section \<open>Draining\<close>

lemma publish_loop_all:
  "(\<And>p. p \<in> set ps \<Longrightarrow> fate (pe_id p) = Replied) \<Longrightarrow>
   publish_loop fate ps b = (map pe_id ps, b @ map (\<lambda>p. (pe_routingKey p, pe_event p)) ps)"
  by (induction ps arbitrary: b) auto

lemma publish_loop_prefix:
  "\<exists>k. fst (publish_loop fate ps b) = map pe_id (take k ps) \<and>
     (\<exists>j. (j = k \<or> j = Suc k) \<and> snd (publish_loop fate ps b) = b @ map (\<lambda>p. (pe_routingKey p, pe_event p)) (take j ps))"
proof (induction ps arbitrary: b)
  case (Cons p ps)
  show ?case
  proof (cases "fate (pe_id p)")
    case Replied
    obtain k j where "fst (publish_loop fate ps (b @ [(pe_routingKey p, pe_event p)])) = map pe_id (take k ps)"
        "j = k \<or> j = Suc k" "snd (publish_loop fate ps (b @ [(pe_routingKey p, pe_event p)])) =
           (b @ [(pe_routingKey p, pe_event p)]) @ map (\<lambda>p. (pe_routingKey p, pe_event p)) (take j ps)"
      using Cons by blast
    then show ?thesis using Replied
      by (intro exI [of _ "Suc k"] conjI exI [of _ "Suc j"]) (auto simp: split_beta Let_def)
  next
    case LostBefore
    then show ?thesis by (intro exI [of _ 0]) auto
  next
    case LostAfter
    then show ?thesis by (intro exI [of _ 0] conjI exI [of _ 1]) auto
  qed
qed auto

definition pending_rows :: "OutboxEvent list \<Rightarrow> OutboxEvent list" where
  "pending_rows rows = sort_key ob_createdAt (find_many (\<lambda>e. ob_publishedAt e = None) rows)"

lemma findPending_nat: "findPending (Fin (of_nat n)) rows = Inr (map pending_event (take n (pending_rows rows)))"
  by (simp add: findPending_def pending_rows_def)

lemma pe_id_pending_event [simp]: "pe_id (pending_event e) = ob_id e"
  by (simp add: pending_event_def)

lemma length_pending_rows: "length (pending_rows rows) = countPending rows"
  by (simp add: pending_rows_def find_many_def countPending_def count_where_def)

text \<open>Marking \<open>k\<close> distinct pending rows takes exactly those out of the backlog.\<close>

lemma countPending_mark:
  assumes "distinct (map ob_id rows)" and "set xs \<subseteq> set rows" and "\<And>e. e \<in> set xs \<Longrightarrow> ob_publishedAt e = None" and "distinct xs"
  shows "countPending (markPublished now (map ob_id xs) rows) = countPending rows - length xs"
proof -
  have mem: "ob_id e \<in> ob_id ` set xs \<longleftrightarrow> e \<in> set xs" if "e \<in> set rows" for e
    using assms(1,2) that unfolding distinct_map inj_on_def by blast
  have "filter (\<lambda>e. ob_publishedAt e = None) (markPublished now (map ob_id xs) rows) =
      filter (\<lambda>e. ob_publishedAt e = None \<and> e \<notin> set xs) rows"
  proof -
    have "filter (\<lambda>e. ob_publishedAt e = None)
        (update_many (\<lambda>e. ob_id e \<in> set (map ob_id xs)) (\<lambda>e. e\<lparr>ob_publishedAt := Some now\<rparr>) rs) =
      filter (\<lambda>e. ob_publishedAt e = None \<and> e \<notin> set xs) rs" if "set rs \<subseteq> set rows" for rs
      using that mem by (induction rs) auto
    then show ?thesis by (cases "xs = []") (simp_all add: markPublished_def)
  qed
  then have "countPending (markPublished now (map ob_id xs) rows) =
      length (filter (\<lambda>e. ob_publishedAt e = None \<and> e \<notin> set xs) rows)"
    by (simp add: countPending_def count_where_def)
  moreover have "length (filter (\<lambda>e. ob_publishedAt e = None \<and> e \<notin> set xs) rows) + length (filter (\<lambda>e. e \<in> set xs) rows) =
      length (filter (\<lambda>e. ob_publishedAt e = None) rows)"
    using assms(3) by (induction rows) auto
  moreover have "length (filter (\<lambda>e. e \<in> set xs) rows) = length xs"
  proof -
    have "distinct rows" using assms(1) by (simp add: distinct_map)
    then have "length (filter (\<lambda>e. e \<in> set xs) rows) = card (set xs \<inter> set rows)"
      by (simp add: distinct_length_filter Int_commute)
    also have "\<dots> = length xs" using assms(2,4) by (simp add: Int_absorb2 distinct_card)
    finally show ?thesis .
  qed
  ultimately show ?thesis by (simp add: countPending_def count_where_def)
qed

section \<open>Properties\<close>

text \<open>
  C5: no delivery is lost. However commits, relays and sweeps interleave, with any number of relays
  at once, publishes refused or accepted without confirmation, and relays dying between any two
  calls: every message a commit ever staged has been accepted by the broker or is still pending in
  the outbox.
\<close>

theorem outbox_no_loss:
  assumes "(relay_step batch)\<^sup>*\<^sup>* \<lparr>sys_outbox = [], sys_broker = [], sys_staged = {}, sys_ids = {}, sys_relay = Map.empty\<rparr> w"
    and "m \<in> sys_staged w"
  shows "(m_routingKey m, m_event m) \<in> set (sys_broker w) \<or>
    (\<exists>e \<in> set (sys_outbox w). msg_of e = m \<and> ob_publishedAt e = None)"
proof -
  have "relay_inv \<lparr>sys_outbox = [], sys_broker = [], sys_staged = {}, sys_ids = {}, sys_relay = Map.empty\<rparr>"
    by (simp add: relay_inv_def inv_defs)
  from relay_inv_run [OF assms(1) this] assms(2) show ?thesis by (simp add: relay_inv_def staged_inv_def)
qed

definition no_relay :: relay_sys where
  "no_relay = \<lparr>sys_outbox = [], sys_broker = [], sys_staged = {}, sys_ids = {}, sys_relay = Map.empty\<rparr>"

definition one_staged :: relay_sys where
  "one_staged = (let rows = create_outbox (zip [''o1''] [heat_mail]) 1000 (sys_outbox no_relay) in
     no_relay\<lparr>sys_outbox := rows, sys_ids := sys_ids no_relay \<union> set [''o1''],
      sys_staged := sys_staged no_relay \<union> {msg_of e |e. e \<in> set rows \<and> e \<notin> set (sys_outbox no_relay)}\<rparr>)"

lemma one_staged_reachable: "(relay_step (Fin 200))\<^sup>*\<^sup>* no_relay one_staged"
  unfolding one_staged_def Let_def
  by (rule r_into_rtranclp, rule rs_commit [where ids = "[''o1'']" and ms = "[heat_mail]" and now = 1000])
    (simp_all add: no_relay_def)

lemma one_staged_mail: "heat_mail \<in> sys_staged one_staged"
  by (simp add: one_staged_def no_relay_def find_unique_def msg_of_def)

theorem outbox_no_loss_witness:
  "heat_mail \<in> sys_staged one_staged \<and>
   ((m_routingKey heat_mail, m_event heat_mail) \<in> set (sys_broker one_staged) \<or>
    (\<exists>e \<in> set (sys_outbox one_staged). msg_of e = heat_mail \<and> ob_publishedAt e = None))"
  using outbox_no_loss [OF one_staged_reachable [unfolded no_relay_def] one_staged_mail] one_staged_mail by blast

lemma publish_steps:
  "(relay_step batch)\<^sup>*\<^sup>* (w\<lparr>sys_relay := (sys_relay w)(i \<mapsto> (rows, published))\<rparr>)
     (w\<lparr>sys_relay := (sys_relay w)(i \<mapsto> ([], published @ fst (publish_loop fate rows (sys_broker w)))),
        sys_broker := snd (publish_loop fate rows (sys_broker w))\<rparr>)"
proof (induction rows arbitrary: w published)
  case (Cons row rows)
  let ?u = "w\<lparr>sys_relay := (sys_relay w)(i \<mapsto> (row # rows, published))\<rparr>"
  let ?b = "sys_broker w @ [(pe_routingKey row, pe_event row)]"
  show ?case
  proof (cases "fate (pe_id row)")
    case Replied
    let ?v = "w\<lparr>sys_broker := ?b\<rparr>"
    have "relay_step batch ?u (?v\<lparr>sys_relay := (sys_relay ?v)(i \<mapsto> (rows, published @ [pe_id row]))\<rparr>)"
      using rs_publish [of ?u i row rows published batch] by (cases w) simp
    also have "(relay_step batch)\<^sup>*\<^sup>* \<dots> (?v\<lparr>sys_relay := (sys_relay ?v)(i \<mapsto> ([], (published @ [pe_id row]) @ fst (publish_loop fate rows ?b))),
        sys_broker := snd (publish_loop fate rows ?b)\<rparr>)"
      using Cons.IH [of ?v "published @ [pe_id row]"] by (simp del: fun_upd_apply)
    finally show ?thesis using Replied by (cases w) (simp add: split_beta Let_def del: fun_upd_apply)
  next
    case LostBefore
    then show ?thesis using rs_refused [of ?u i row rows published batch]
      by (cases w) (auto intro: r_into_rtranclp simp: fun_upd_same simp del: fun_upd_apply)
  next
    case LostAfter
    then show ?thesis using rs_unconfirmed [of ?u i row rows published batch]
      by (cases w) (auto intro: r_into_rtranclp simp: fun_upd_same simp del: fun_upd_apply)
  qed
qed simp

lemma relay_sys_idle: "sys_relay w i = None \<Longrightarrow> w\<lparr>sys_relay := (sys_relay w)(i := None)\<rparr> = w"
  by (simp add: fun_upd_idem)

text \<open>
  C25: one pass of the relay is a run of that system: what \<open>publishPending\<close> does to the outbox and the
  broker, on each of its branches, is what one relay does step by step.
\<close>

theorem publishPending_refines:
  "(relay_step batch)\<^sup>*\<^sup>* (w\<lparr>sys_relay := (sys_relay w)(i := None)\<rparr>)
     (w\<lparr>sys_relay := (sys_relay w)(i := None),
        sys_outbox := fst (snd (publishPending batch p (sys_outbox w) (sys_broker w))),
        sys_broker := snd (snd (publishPending batch p (sys_outbox w) (sys_broker w)))\<rparr>)"
proof (cases "findPending batch (sys_outbox w)")
  case (Inl e)
  then show ?thesis by (simp add: publishPending_def)
next
  case (Inr pending)
  let ?u = "w\<lparr>sys_relay := (sys_relay w)(i := None)\<rparr>"
  let ?pl = "publish_loop (pa_publish p) pending (sys_broker w)"
  let ?v = "w\<lparr>sys_relay := (sys_relay w)(i \<mapsto> ([], fst ?pl)), sys_broker := snd ?pl\<rparr>"
  have "relay_step batch ?u (w\<lparr>sys_relay := (sys_relay w)(i \<mapsto> (pending, []))\<rparr>)"
    using rs_find [of batch ?u pending i] Inr by simp
  also have "(relay_step batch)\<^sup>*\<^sup>* \<dots> ?v"
    using publish_steps [of batch w i pending "[]" "pa_publish p"] by simp
  finally have run: "(relay_step batch)\<^sup>*\<^sup>* ?u ?v" .
  have die: "relay_step batch ?v (w\<lparr>sys_relay := (sys_relay w)(i := None), sys_broker := snd ?pl\<rparr>)"
    using rs_die [of batch ?v i] by (cases w) simp
  have mark: "relay_step batch ?v (w\<lparr>sys_relay := (sys_relay w)(i := None), sys_broker := snd ?pl,
      sys_outbox := markPublished (pa_markedAt p) (fst ?pl) (sys_outbox w)\<rparr>)"
    using rs_mark [of ?v i "fst ?pl" batch "pa_markedAt p"] by (cases w) simp
  show ?thesis
  proof (cases "pa_find p \<and> pending \<noteq> []")
    case False
    then show ?thesis using Inr by (auto simp: publishPending_def)
  next
    case True
    then show ?thesis
      using Inr rtranclp.rtrancl_into_rtrancl [OF run die] rtranclp.rtrancl_into_rtrancl [OF run mark]
      by (cases w; cases "pa_mark p"; cases "fst ?pl = []") (auto simp: publishPending_def split_beta Let_def)
  qed
qed

fun passes :: "jsnum \<Rightarrow> pass list \<Rightarrow> OutboxEvent list \<Rightarrow> broker \<Rightarrow> OutboxEvent list \<times> broker" where
  "passes batch [] rows b = (rows, b)"
| "passes batch (p # ps) rows b = (let (r, rows', b') = publishPending batch p rows b in passes batch ps rows' b')"

definition undisturbed :: "pass \<Rightarrow> bool" where
  "undisturbed p \<longleftrightarrow> pa_find p \<and> pa_publish p = (\<lambda>_. Replied) \<and> pa_mark p = Committed"

lemma pending_rows_props:
  "set (pending_rows rows) \<subseteq> set rows" "e \<in> set (pending_rows rows) \<Longrightarrow> ob_publishedAt e = None"
  "distinct rows \<Longrightarrow> distinct (pending_rows rows)"
  by (auto simp: pending_rows_def find_many_def)

lemma undisturbed_pass:
  assumes "undisturbed p" and "distinct (map ob_id rows)"
  shows "\<exists>rows' b'. publishPending (Fin (of_nat n)) p rows b = (Inr (min n (countPending rows)), rows', b') \<and>
    distinct (map ob_id rows') \<and> countPending rows' = countPending rows - n \<and>
    b' = b @ map (\<lambda>e. (ob_routingKey e, ob_payload e)) (take n (pending_rows rows))"
proof -
  let ?xs = "take n (pending_rows rows)"
  have d: "distinct rows" using assms(2) by (simp add: distinct_map)
  have xs: "set ?xs \<subseteq> set rows" "distinct ?xs" "\<And>e. e \<in> set ?xs \<Longrightarrow> ob_publishedAt e = None"
    using pending_rows_props(1) [of rows] pending_rows_props(2) [of _ rows] pending_rows_props(3) [OF d]
    by (auto dest: in_set_takeD)
  have c: "countPending (markPublished (pa_markedAt p) (map ob_id ?xs) rows) = countPending rows - n"
    using countPending_mark [OF assms(2) xs(1,3,2)] by (simp add: length_pending_rows)
  have l: "publish_loop (\<lambda>_. Replied) (map pending_event ?xs) b =
      (map ob_id ?xs, b @ map (\<lambda>e. (ob_routingKey e, ob_payload e)) ?xs)"
    using publish_loop_all [of "map pending_event ?xs" "\<lambda>_. Replied" b] by (simp add: o_def pending_event_def)
  show ?thesis
  proof (cases "?xs = []")
    case True
    then have "n = 0 \<or> countPending rows = 0" using length_pending_rows [of rows] by auto
    then show ?thesis using True assms by (auto simp: publishPending_def undisturbed_def findPending_nat)
  next
    case False
    then show ?thesis using assms c l
      by (auto simp: publishPending_def undisturbed_def findPending_nat length_pending_rows min.commute)
  qed
qed

text \<open>
  C24: the relay drains. When every call of its passes succeeds, \<open>k\<close> passes with a batch of \<open>n > 0\<close>
  leave at most the backlog less \<open>k n\<close> rows pending, so a backlog of any size is empty after finitely
  many passes.
\<close>

theorem relay_drains:
  assumes "\<And>p. p \<in> set ps \<Longrightarrow> undisturbed p" and "distinct (map ob_id rows)"
  shows "countPending (fst (passes (Fin (of_nat n)) ps rows b)) = countPending rows - length ps * n"
  using assms
proof (induction ps arbitrary: rows b)
  case (Cons p ps)
  obtain rows' b' where "publishPending (Fin (of_nat n)) p rows b = (Inr (min n (countPending rows)), rows', b')"
      "distinct (map ob_id rows')" "countPending rows' = countPending rows - n"
    using undisturbed_pass [of p rows n b] Cons.prems by auto
  then show ?case using Cons.IH [of rows' b'] Cons.prems(1) by simp
qed simp

definition good_pass :: pass where
  "good_pass = \<lparr>pa_token = ''k'', pa_acquiredAt = 0, pa_acquire = Replied, pa_find = True, pa_publish = (\<lambda>_. Replied),
     pa_markedAt = 5, pa_mark = Committed, pa_releasedAt = 9, pa_release = Replied\<rparr>"

theorem relay_drains_witness:
  "countPending (fst (passes (Fin (of_nat 1)) [good_pass]
     (create_outbox [(''o1'', heat_mail), (''o2'', heat_mail\<lparr>m_routingKey := ''x''\<rparr>)] 0 []) [])) = 1"
  using relay_drains [of "[good_pass]" "create_outbox [(''o1'', heat_mail), (''o2'', heat_mail\<lparr>m_routingKey := ''x''\<rparr>)] 0 []" 1 "[]"]
  by (simp add: undisturbed_def good_pass_def find_unique_def heat_mail_def routingKeyFor_def countPending_def count_where_def
      del: passes.simps)

text \<open>
  Deliveries leave in the order they were staged. A pass hands the broker a prefix of the pending
  rows, oldest first, whatever fails; what it does not hand over is at least as new as everything it
  did.
\<close>

theorem pass_publishes_prefix:
  "\<exists>j. snd (snd (publishPending (Fin (of_nat n)) p rows b)) =
     b @ map (\<lambda>e. (ob_routingKey e, ob_payload e)) (take j (pending_rows rows)) \<and>
   sorted (map ob_createdAt (pending_rows rows)) \<and> set (pending_rows rows) = {e \<in> set rows. ob_publishedAt e = None}"
proof -
  let ?f = "\<lambda>e. (ob_routingKey e, ob_payload e)" and ?xs = "take n (pending_rows rows)"
  obtain j where j: "snd (publish_loop (pa_publish p) (map pending_event ?xs) b) = b @ map ?f (take j ?xs)"
    using publish_loop_prefix [of "pa_publish p" "map pending_event ?xs" b]
    by (auto simp: take_map o_def pending_event_def)
  let ?r = "snd (snd (publishPending (Fin (of_nat n)) p rows b))"
  have "?r = b \<or> ?r = snd (publish_loop (pa_publish p) (map pending_event ?xs) b)"
    by (cases "pa_mark p") (auto simp: publishPending_def findPending_nat split_beta Let_def)
  then have "?r = b @ map ?f (take 0 (pending_rows rows)) \<or> ?r = b @ map ?f (take (min j n) (pending_rows rows))"
    using j by simp
  then have "\<exists>j. ?r = b @ map ?f (take j (pending_rows rows))" by blast
  moreover have "sorted (map ob_createdAt (pending_rows rows))" by (simp add: pending_rows_def)
  moreover have "set (pending_rows rows) = {e \<in> set rows. ob_publishedAt e = None}"
    by (auto simp: pending_rows_def find_many_def)
  ultimately show ?thesis by blast
qed

end
