(* ===== verification/Watcher.thy ===== *)
theory Watcher
  imports Outbox WeatherProvider "HOL-Library.Multiset"
begin

text \<open>
  \<open>apps/watcher/src/watcher.service.ts\<close>: one poll cycle. A cycle takes the lock of its shard, reads the
  active triggers of its buckets, groups them by location and walks the groups with a bounded number
  of workers; each group costs one snapshot and one decision per trigger. The clock readings, drawn
  ids and fates of the calls behind one trigger are its environment.
\<close>

section \<open>State and environment\<close>

record 's watch_world =
  ww_db :: db
  ww_redis :: 's
  ww_broker :: broker

datatype watch_error = WatchDb db_error | WatchRelay relay_error

record trigger_env =
  te_eventId :: ident
  te_evaluatedAt :: instant
  te_firedAt :: instant
  te_lastFiredAt :: instant
  te_rowIds :: "ident list"
  te_dbNow :: instant
  te_commit :: commit
  te_pass :: pass

section \<open>One trigger\<close>

definition observation :: "WatchedCondition EvaluatedCondition \<Rightarrow> ConditionObservation" where
  "observation r = \<lparr>o_id = wc_id (ec_cond r), o_observedValue = ec_observedValue r, o_matched = ec_matched r\<rparr>"

definition fired_condition :: "WatchedCondition EvaluatedCondition \<Rightarrow> FiredCondition" where
  "fired_condition r =
     \<lparr>fc_metric = metric (ec_cond r), fc_operator = operator (ec_cond r), fc_threshold = threshold (ec_cond r),
      fc_observedValue = ec_observedValue r\<rparr>"

definition fired_event :: "trigger_env \<Rightarrow> WatchedTrigger \<Rightarrow> WatchedCondition EvaluatedCondition list \<Rightarrow> TriggerFiredEvent" where
  "fired_event env trigger rs =
     \<lparr>ev_eventId = te_eventId env, ev_triggerId = w_id trigger, ev_userId = w_userId trigger,
      ev_triggerName = w_name trigger, ev_city = w_city trigger, ev_conditions = map fired_condition rs,
      ev_conditionLogic = w_conditionLogic trigger, ev_channels = w_channels trigger,
      ev_firedAt = toISOString (te_firedAt env), ev_test = None\<rparr>"

definition fired_messages :: "TriggerFiredEvent \<Rightarrow> Channel list \<Rightarrow> OutboxMessage list" where
  "fired_messages event channels =
     map (\<lambda>channel. \<lparr>m_eventId = ev_eventId event, m_routingKey = routingKeyFor channel, m_event = event\<rparr>) channels"

text \<open>Commit first, then nudge the relay: a failing flush rejects although the firing is committed.\<close>

definition fire ::
  "'s redis \<Rightarrow> jsnum \<Rightarrow> trigger_env \<Rightarrow> WatchedTrigger \<Rightarrow> WatchedCondition EvaluatedCondition list \<Rightarrow> instant \<Rightarrow>
   's watch_world \<Rightarrow> (watch_error, unit) result \<times> 's watch_world" where
  "fire R batch env trigger rs evaluatedAt w =
     (let event = fired_event env trigger rs;
          messages = fired_messages event (w_channels trigger);
          (r, d) = commitFire (te_commit env) (te_rowIds env) (te_dbNow env) (w_id trigger) (map observation rs)
                     \<lparr>patch_lastEvaluatedAt = evaluatedAt, patch_state = Some FIRED,
                      patch_lastFiredAt = Some (te_lastFiredAt env)\<rparr> messages (ww_db w)
      in case r of
           Inl e \<Rightarrow> (Inl (WatchDb e), w\<lparr>ww_db := d\<rparr>)
         | Inr _ \<Rightarrow>
             (let (f, rw) = flush R batch (te_pass env)
                        \<lparr>rl_outbox = outbox d, rl_redis = ww_redis w, rl_broker = ww_broker w\<rparr>;
                  w' = w\<lparr>ww_db := d\<lparr>outbox := rl_outbox rw\<rparr>, ww_redis := rl_redis rw, ww_broker := rl_broker rw\<rparr>
              in case f of Inl e \<Rightarrow> (Inl (WatchRelay e), w') | Inr _ \<Rightarrow> (Inr (), w')))"

definition processTrigger ::
  "intl \<Rightarrow> 's redis \<Rightarrow> jsnum \<Rightarrow> trigger_env \<Rightarrow> WatchedTrigger \<Rightarrow> WeatherSnapshot \<Rightarrow> 's watch_world \<Rightarrow>
   (watch_error, unit) result \<times> 's watch_world" where
  "processTrigger I R batch env trigger snapshot w =
     (let evaluation = evaluateConditions snapshot (w_conditions trigger) (w_conditionLogic trigger);
          evaluatedAt = te_evaluatedAt env;
          decision = decide I trigger (cs_matched evaluation) evaluatedAt (w_quietHours trigger)
      in if decision = FIRE then fire R batch env trigger (results evaluation) evaluatedAt w
         else (let (r, d) = recordObservation (te_commit env) (w_id trigger) (map observation (results evaluation))
                              \<lparr>patch_lastEvaluatedAt = evaluatedAt,
                               patch_state = (if decision = REARM then Some ARMED else None),
                               patch_lastFiredAt = None\<rparr> (ww_db w)
               in (map_sum WatchDb id r, w\<lparr>ww_db := d\<rparr>)))"

section \<open>One location\<close>

text \<open>The triggers of a group in order, up to the first write that fails.\<close>

fun process_group ::
  "intl \<Rightarrow> 's redis \<Rightarrow> jsnum \<Rightarrow> (ident \<Rightarrow> trigger_env) \<Rightarrow> WeatherSnapshot \<Rightarrow> WatchedTrigger list \<Rightarrow> 's watch_world \<Rightarrow>
   (watch_error, unit) result \<times> 's watch_world" where
  "process_group I R batch env snapshot [] w = (Inr (), w)"
| "process_group I R batch env snapshot (t # ts) w =
     (case processTrigger I R batch (env (w_id t)) t snapshot w of
        (Inl e, w') \<Rightarrow> (Inl e, w')
      | (Inr _, w') \<Rightarrow> process_group I R batch env snapshot ts w')"

text \<open>What a cycle is given: formatter, server, codec, configuration, and the environment of each call.\<close>

record 's cycle_env =
  ce_intl :: intl
  ce_R :: "'s redis"
  ce_parse :: "string \<Rightarrow> (redis_error, WeatherSnapshot) result"
  ce_stringify :: "WeatherSnapshot \<Rightarrow> string"
  ce_ttl :: rat
  ce_batch :: jsnum
  ce_snapshot :: "string \<Rightarrow> snapshot_env"
  ce_trigger :: "ident \<Rightarrow> trigger_env"

text \<open>A failed snapshot skips the location; a failed write rejects.\<close>

definition pollLocation :: "'s cycle_env \<Rightarrow> WatchedTrigger list \<Rightarrow> 's watch_world \<Rightarrow> (watch_error, unit) result \<times> 's watch_world" where
  "pollLocation E grp w =
     (let lat = w_latitude (hd grp); lon = w_longitude (hd grp) in
      case getSnapshot (ce_R E) (ce_parse E) (ce_stringify E) (ce_ttl E) (ce_snapshot E (locationKey lat lon)) lat lon (ww_redis w) of
        (Inl e, s) \<Rightarrow> (Inr (), w\<lparr>ww_redis := s\<rparr>)
      | (Inr snapshot, s) \<Rightarrow>
          process_group (ce_intl E) (ce_R E) (ce_batch E) (ce_trigger E) snapshot grp (w\<lparr>ww_redis := s\<rparr>))"

section \<open>Grouping\<close>

text \<open>A \<open>Map\<close> iterates in insertion order: an association list that appends new keys.\<close>

fun group_push :: "string \<Rightarrow> WatchedTrigger \<Rightarrow> (string \<times> WatchedTrigger list) list \<Rightarrow> (string \<times> WatchedTrigger list) list" where
  "group_push k t [] = [(k, [t])]"
| "group_push k t ((k', ts) # m) = (if k' = k then (k', ts @ [t]) # m else (k', ts) # group_push k t m)"

definition trigger_key :: "WatchedTrigger \<Rightarrow> string" where
  "trigger_key t = locationKey (w_latitude t) (w_longitude t)"

definition groupByLocation :: "WatchedTrigger list \<Rightarrow> (string \<times> WatchedTrigger list) list" where
  "groupByLocation ts = foldl (\<lambda>m t. group_push (trigger_key t) t m) [] ts"

section \<open>The workers\<close>

text \<open>
  A worker is at the head of its loop, inside \<open>pollLocation\<close>, or has returned; it may also have
  rejected. The steps of all workers interleave in any order, and the renewal timer may find the lock
  lost at any point.
\<close>

datatype worker = Looping | Polling "WatchedTrigger list" | Returned | Rejected watch_error

record 's poll_state =
  po_queue :: "WatchedTrigger list list"
  po_workers :: "worker list"
  po_held :: bool
  po_done :: "WatchedTrigger list list"
  po_world :: "'s watch_world"

definition advance :: "'s cycle_env \<Rightarrow> nat \<Rightarrow> 's poll_state \<Rightarrow> 's poll_state" where
  "advance E i p =
     (if i < length (po_workers p) then
        case po_workers p ! i of
          Looping \<Rightarrow>
            (if \<not> po_held p then p\<lparr>po_workers := (po_workers p)[i := Returned]\<rparr>
             else case po_queue p of
                    [] \<Rightarrow> p\<lparr>po_workers := (po_workers p)[i := Returned]\<rparr>
                  | g # gs \<Rightarrow> p\<lparr>po_queue := gs, po_workers := (po_workers p)[i := Polling g]\<rparr>)
        | Polling g \<Rightarrow>
            (let (r, w) = pollLocation E g (po_world p) in
             p\<lparr>po_world := w, po_done := po_done p @ [g],
               po_workers := (po_workers p)[i := (case r of Inr _ \<Rightarrow> Looping | Inl e \<Rightarrow> Rejected e)]\<rparr>)
        | _ \<Rightarrow> p
      else p)"

definition DEFAULT_CONCURRENCY :: rat where
  "DEFAULT_CONCURRENCY = 5"

definition watcher_concurrency :: "cfg \<Rightarrow> rat" where
  "watcher_concurrency configured = positive_or DEFAULT_CONCURRENCY (js_Number configured)"

text \<open>\<open>Array.from({ length: Math.min(concurrency, queue.length) }, worker)\<close>\<close>

definition pollLocations :: "rat \<Rightarrow> WatchedTrigger list list \<Rightarrow> 's watch_world \<Rightarrow> 's poll_state" where
  "pollLocations conc groups w =
     \<lparr>po_queue = groups, po_workers = replicate (nat \<lfloor>min conc (of_nat (length groups))\<rfloor>) Looping, po_held = True,
      po_done = [], po_world = w\<rparr>"

definition settled :: "'s poll_state \<Rightarrow> bool" where
  "settled p \<longleftrightarrow> (\<forall>x \<in> set (po_workers p). x = Returned) \<or> (\<exists>e. Rejected e \<in> set (po_workers p))"

section \<open>The cycle\<close>

definition CYCLE_LOCK_TTL_SEC :: int where
  "CYCLE_LOCK_TTL_SEC = 120"

definition cycleLockKey :: "ShardConfig \<Rightarrow> string" where
  "cycleLockKey c = (if sh_count c > 1 then ''watcher:cycle:lock:'' @ js_show (sh_index c) else ''watcher:cycle:lock'')"

text \<open>A failed renewal answers no, like a lost lock.\<close>

definition renewLock :: "'s redis \<Rightarrow> io \<Rightarrow> ShardConfig \<Rightarrow> string \<Rightarrow> instant \<Rightarrow> 's \<Rightarrow> bool \<times> 's" where
  "renewLock R c shard token now s =
     (case extendLock R c s now (cycleLockKey shard) token CYCLE_LOCK_TTL_SEC of
        (Inl _, s') \<Rightarrow> (False, s')
      | (Inr renewed, s') \<Rightarrow> (renewed, s'))"

text \<open>What can happen while a pass runs: a worker takes its next step, or the renewal timer fires.\<close>

datatype event = Advance nat | Renew io instant

fun poll_act :: "'s cycle_env \<Rightarrow> ShardConfig \<Rightarrow> string \<Rightarrow> event \<Rightarrow> 's poll_state \<Rightarrow> 's poll_state" where
  "poll_act E shard token (Advance i) p = advance E i p"
| "poll_act E shard token (Renew c now) p =
     (let (renewed, s) = renewLock (ce_R E) c shard token now (ww_redis (po_world p))
      in p\<lparr>po_held := (po_held p \<and> renewed), po_world := (po_world p)\<lparr>ww_redis := s\<rparr>\<rparr>)"

text \<open>\<open>withLockRenewal\<close> around \<open>pollLocations\<close>, for one interleaving of its events.\<close>

definition withLockRenewal ::
  "'s cycle_env \<Rightarrow> ShardConfig \<Rightarrow> string \<Rightarrow> event list \<Rightarrow> 's poll_state \<Rightarrow> 's poll_state" where
  "withLockRenewal E shard token evs p = fold (poll_act E shard token) evs p"

record run_env =
  re_token :: string
  re_acquire :: io
  re_acquiredAt :: instant
  re_find :: bool
  re_events :: "event list"
  re_release :: io
  re_releasedAt :: instant

datatype cycle_error = CycleRedis redis_error | CycleDb db_error | CycleWorker watch_error

definition first_rejection :: "worker list \<Rightarrow> watch_error option" where
  "first_rejection ws = (case [e. Rejected e \<leftarrow> ws] of [] \<Rightarrow> None | e # _ \<Rightarrow> Some e)"

text \<open>\<open>poll\<close>: \<open>None\<close> when the events given do not yet settle every worker.\<close>

definition poll_cycle ::
  "'s cycle_env \<Rightarrow> ShardConfig \<Rightarrow> rat \<Rightarrow> run_env \<Rightarrow> string \<Rightarrow> 's watch_world \<Rightarrow> ((cycle_error, unit) result \<times> 's watch_world) option" where
  "poll_cycle E shard conc env token w =
     (if \<not> re_find env then Some (Inl (CycleDb DbDown), w)
      else let ts = findActive (ww_db w) (shardBuckets shard) in
           if ts = [] then Some (Inr (), w)
           else let p = withLockRenewal E shard token (re_events env) (pollLocations conc (map snd (groupByLocation ts)) w)
                in if \<not> settled p then None
                   else Some (case first_rejection (po_workers p) of
                                None \<Rightarrow> (Inr (), po_world p)
                              | Some e \<Rightarrow> (Inl (CycleWorker e), po_world p)))"

definition runCycle ::
  "'s cycle_env \<Rightarrow> ShardConfig \<Rightarrow> rat \<Rightarrow> run_env \<Rightarrow> 's watch_world \<Rightarrow> ((cycle_error, unit) result \<times> 's watch_world) option" where
  "runCycle E shard conc env w =
     (case acquireLock (ce_R E) (re_acquire env) (ww_redis w) (re_acquiredAt env) (re_token env) (cycleLockKey shard) CYCLE_LOCK_TTL_SEC of
        (Inl e, s) \<Rightarrow> Some (Inl (CycleRedis e), w\<lparr>ww_redis := s\<rparr>)
      | (Inr None, s) \<Rightarrow> Some (Inr (), w\<lparr>ww_redis := s\<rparr>)
      | (Inr (Some token), s) \<Rightarrow>
          (case poll_cycle E shard conc env token (w\<lparr>ww_redis := s\<rparr>) of
             None \<Rightarrow> None
           | Some (r, w') \<Rightarrow>
               (let (rel, s') = releaseLock (ce_R E) (re_release env) (ww_redis w') (re_releasedAt env) (cycleLockKey shard) token
                in Some (case rel of Inl e \<Rightarrow> Inl (CycleRedis e) | Inr _ \<Rightarrow> r, w'\<lparr>ww_redis := s'\<rparr>))))"

section \<open>Grouping\<close>

lemma map_of_group_push:
  "map_of (group_push k t m) k' =
     (if k' = k then Some ((case map_of m k of None \<Rightarrow> [] | Some ts \<Rightarrow> ts) @ [t]) else map_of m k')"
  by (induction k t m rule: group_push.induct) auto

lemma group_push_keys: "fst ` set (group_push k t m) = insert k (fst ` set m)"
  by (induction k t m rule: group_push.induct) (auto simp: image_iff)

lemma group_push_distinct: "distinct (map fst m) \<Longrightarrow> distinct (map fst (group_push k t m))"
  by (induction k t m rule: group_push.induct) (auto simp: group_push_keys)

lemma groupByLocation_snoc:
  "groupByLocation (ts @ [t]) = group_push (trigger_key t) t (groupByLocation ts)"
  by (simp add: groupByLocation_def)

lemma groupByLocation_lookup:
  "map_of (groupByLocation ts) k =
     (let g = filter (\<lambda>t. trigger_key t = k) ts in if g = [] then None else Some g)"
proof (induction ts rule: rev_induct)
  case (snoc t ts)
  then show ?case by (auto simp: groupByLocation_snoc map_of_group_push Let_def)
qed (simp add: groupByLocation_def)

lemma groupByLocation_distinct: "distinct (map fst (groupByLocation ts))"
  by (induction ts rule: rev_induct)
    (simp_all add: groupByLocation_snoc group_push_distinct, simp add: groupByLocation_def)

section \<open>The workers' invariant\<close>

fun polling :: "worker \<Rightarrow> WatchedTrigger list list" where
  "polling (Polling g) = [g]"
| "polling _ = []"

definition in_flight :: "worker list \<Rightarrow> WatchedTrigger list list" where
  "in_flight ws = concat (map polling ws)"

lemma in_flight_update:
  "i < length ws \<Longrightarrow>
   mset (in_flight (ws[i := x])) + mset (polling (ws ! i)) = mset (in_flight ws) + mset (polling x)"
proof (induction ws arbitrary: i)
  case (Cons y ws)
  then show ?case by (cases i) (auto simp: in_flight_def ac_simps)
qed simp

lemma in_flight_length: "length (in_flight ws) \<le> length ws"
proof (induction ws)
  case (Cons x ws)
  then show ?case by (cases x) (auto simp: in_flight_def)
qed (simp add: in_flight_def)

definition accounted :: "'s poll_state \<Rightarrow> WatchedTrigger list multiset" where
  "accounted p = mset (po_queue p) + mset (in_flight (po_workers p)) + mset (po_done p)"

text \<open>A worker returns while the lock is held only when the queue is empty.\<close>

definition workers_inv :: "'s poll_state \<Rightarrow> bool" where
  "workers_inv p \<longleftrightarrow> (po_held p \<and> Returned \<in> set (po_workers p) \<longrightarrow> po_queue p = [])"

lemma advance_accounted: "accounted (advance E i p) = accounted p"
proof (cases "i < length (po_workers p)")
  case True
  note u = in_flight_update [OF True]
  show ?thesis
  proof (cases "po_workers p ! i")
    case Looping
    then show ?thesis using True u [of Returned] u [of "Polling (hd (po_queue p))"]
      by (cases "po_queue p") (auto simp: advance_def accounted_def)
  next
    case (Polling g)
    then show ?thesis using True u [of Looping] u [of "Rejected e" for e]
      by (auto simp: advance_def accounted_def split_beta Let_def split: sum.splits)
  qed (auto simp: advance_def)
qed (simp add: advance_def)

lemma advance_length [simp]: "length (po_workers (advance E i p)) = length (po_workers p)"
  by (auto simp: advance_def split_beta Let_def split: worker.splits list.splits)

lemma advance_held [simp]: "po_held (advance E i p) = po_held p"
  by (auto simp: advance_def split_beta Let_def split: worker.splits list.splits)

lemma returned_update: "Returned \<in> set (ws[i := x]) \<Longrightarrow> x \<noteq> Returned \<Longrightarrow> Returned \<in> set ws"
  using set_update_subset_insert [of ws i x] by auto

lemma advance_inv: assumes "workers_inv p" shows "workers_inv (advance E i p)"
proof (cases "i < length (po_workers p)")
  case True
  show ?thesis
  proof (cases "po_workers p ! i")
    case Looping
    with True assms show ?thesis
      by (cases "po_queue p") (auto simp: advance_def workers_inv_def dest: returned_update)
  next
    case (Polling g)
    with True assms show ?thesis
      by (auto simp: advance_def workers_inv_def split_beta Let_def dest!: returned_update split: sum.splits)
  qed (use True assms in \<open>auto simp: advance_def\<close>)
qed (use assms in \<open>simp add: advance_def\<close>)

lemma renew_keeps:
  "accounted (poll_act E shard tok (Renew c now) p) = accounted p"
  "workers_inv p \<Longrightarrow> workers_inv (poll_act E shard tok (Renew c now) p)"
  "po_queue (poll_act E shard tok (Renew c now) p) = po_queue p"
  "po_workers (poll_act E shard tok (Renew c now) p) = po_workers p"
  by (auto simp: split_beta Let_def accounted_def workers_inv_def)

lemma withLockRenewal_inv:
  "accounted (withLockRenewal E shard tok evs p) = accounted p \<and>
   length (po_workers (withLockRenewal E shard tok evs p)) = length (po_workers p) \<and>
   (workers_inv p \<longrightarrow> workers_inv (withLockRenewal E shard tok evs p))"
  unfolding withLockRenewal_def
proof (induction evs arbitrary: p)
  case (Cons x evs)
  show ?case
  proof (cases x)
    case (Advance i)
    then show ?thesis using Cons [of "advance E i p"] by (simp add: advance_accounted advance_inv)
  next
    case (Renew c now)
    then show ?thesis
      using Cons [of "poll_act E shard tok (Renew c now) p"] renew_keeps(1,4) [of E shard tok c now p]
        renew_keeps(2) [of p E shard tok c now] by simp
  qed
qed simp

section \<open>What a decision writes\<close>

definition abs_row :: "Trigger \<Rightarrow> TriggerStateInput" where
  "abs_row t = \<lparr>state = tr_state t, lastFiredAt = tr_lastFiredAt t, cooldownMin = tr_cooldownMin t\<rparr>"

definition decision_patch :: "TriggerDecision \<Rightarrow> instant \<Rightarrow> instant \<Rightarrow> TriggerStatePatch" where
  "decision_patch D ev c =
     \<lparr>patch_lastEvaluatedAt = ev,
      patch_state = (case D of FIRE \<Rightarrow> Some FIRED | REARM \<Rightarrow> Some ARMED | _ \<Rightarrow> None),
      patch_lastFiredAt = (if D = FIRE then Some c else None)\<rparr>"

lemma abs_row_patch: "abs_row (apply_patch (decision_patch D ev c) t) = apply_decision D c (abs_row t)"
  by (cases D) (simp_all add: abs_row_def apply_patch_def decision_patch_def)

lemma decide_truncate: "decide I (watched_trigger d t u) m now q = decide I (abs_row t) m now q"
  by (cases "tr_lastFiredAt t") (simp_all add: decide_def watched_trigger_def abs_row_def isCooldownElapsed_def)

lemma flush_outbox:
  "rl_outbox (snd (flush R batch p w)) = rl_outbox w \<or>
   rl_outbox (snd (flush R batch p w)) = fst (snd (publishPending batch p (rl_outbox w) (rl_broker w)))"
  by (auto simp: flush_def split_beta Let_def split: sum.splits option.splits prod.splits)

lemma map_ob_key_markPublished [simp]: "map ob_key (markPublished now ids rows) = map ob_key rows"
  by (simp add: markPublished_def map_update_many ob_key_def)

lemma publishPending_keys: "map ob_key (fst (snd (publishPending batch p rows b))) = map ob_key rows"
  by (cases "pa_mark p") (auto simp: publishPending_def split_beta Let_def split: sum.splits)

lemma flush_keys: "map ob_key (rl_outbox (snd (flush R batch p w))) = map ob_key (rl_outbox w)"
  using flush_outbox [of R batch p w] publishPending_keys [of batch p "rl_outbox w" "rl_broker w"] by metis

text \<open>Both branches of \<open>processTrigger\<close> write the patch of the decision to the one row.\<close>

lemma processTrigger_write:
  assumes "processTrigger I R batch env trigger snapshot w = (Inr (), w')"
    and "D = decide I trigger (cs_matched (evaluateConditions snapshot (w_conditions trigger) (w_conditionLogic trigger)))
              (te_evaluatedAt env) (w_quietHours trigger)"
  shows "triggers (ww_db w') = update_many (\<lambda>t. tr_id t = w_id trigger)
           (apply_patch (decision_patch D (te_evaluatedAt env) (te_lastFiredAt env))) (triggers (ww_db w))"
    and "map ob_key (outbox (ww_db w')) = map ob_key (if D = FIRE
           then create_outbox (zip (te_rowIds env) (fired_messages
                  (fired_event env trigger (results (evaluateConditions snapshot (w_conditions trigger) (w_conditionLogic trigger))))
                  (w_channels trigger))) (te_dbNow env) (outbox (ww_db w))
           else outbox (ww_db w))"
proof -
  let ?ev = "evaluateConditions snapshot (w_conditions trigger) (w_conditionLogic trigger)"
  let ?obs = "map observation (results ?ev)"
  have "triggers (ww_db w') = update_many (\<lambda>t. tr_id t = w_id trigger)
           (apply_patch (decision_patch D (te_evaluatedAt env) (te_lastFiredAt env))) (triggers (ww_db w)) \<and>
     map ob_key (outbox (ww_db w')) = map ob_key (if D = FIRE
           then create_outbox (zip (te_rowIds env) (fired_messages (fired_event env trigger (results ?ev)) (w_channels trigger)))
                  (te_dbNow env) (outbox (ww_db w))
           else outbox (ww_db w))"
  proof (cases "D = FIRE")
    case True
    let ?patch = "\<lparr>patch_lastEvaluatedAt = te_evaluatedAt env, patch_state = Some FIRED, patch_lastFiredAt = Some (te_lastFiredAt env)\<rparr>"
    let ?ms = "fired_messages (fired_event env trigger (results ?ev)) (w_channels trigger)"
    obtain r d where c: "commitFire (te_commit env) (te_rowIds env) (te_dbNow env) (w_id trigger) ?obs ?patch ?ms (ww_db w) = (r, d)"
      by force
    obtain f rw where f: "flush R batch (te_pass env) \<lparr>rl_outbox = outbox d, rl_redis = ww_redis w, rl_broker = ww_broker w\<rparr> = (f, rw)"
      by force
    have r: "r = Inr ()" and w': "ww_db w' = d\<lparr>outbox := rl_outbox rw\<rparr>"
      using assms True c f by (auto simp: processTrigger_def fire_def Let_def split: sum.splits)
    obtain d1 where d1: "writes (w_id trigger) ?obs ?patch (ww_db w) = Inr d1"
        "d = d1\<lparr>outbox := create_outbox (zip (te_rowIds env) ?ms) (te_dbNow env) (outbox d1)\<rparr>"
      using c r by (cases "writes (w_id trigger) ?obs ?patch (ww_db w)"; cases "te_commit env") (auto simp: commitFire_def)
    have "map ob_key (rl_outbox rw) = map ob_key (outbox d)"
      using flush_keys [of R batch "te_pass env" "\<lparr>rl_outbox = outbox d, rl_redis = ww_redis w, rl_broker = ww_broker w\<rparr>"] f by simp
    then show ?thesis
      using True w' d1(2) writes_outbox [OF d1(1)] writes_triggers [OF d1(1)] by (simp add: decision_patch_def)
  next
    case False
    let ?patch = "\<lparr>patch_lastEvaluatedAt = te_evaluatedAt env, patch_state = (if D = REARM then Some ARMED else None), patch_lastFiredAt = None\<rparr>"
    have p: "?patch = decision_patch D (te_evaluatedAt env) (te_lastFiredAt env)"
      using False by (cases D) (simp_all add: decision_patch_def)
    have rec: "recordObservation (te_commit env) (w_id trigger) ?obs ?patch (ww_db w) = (Inr (), ww_db w')"
      using assms False by (auto simp: processTrigger_def Let_def split_beta prod_eq_iff map_sum_def split: sum.splits)
    then have "writes (w_id trigger) ?obs ?patch (ww_db w) = Inr (ww_db w')"
      by (cases "writes (w_id trigger) ?obs ?patch (ww_db w)"; cases "te_commit env") (auto simp: recordObservation_def)
    then show ?thesis using False writes_outbox writes_triggers p by auto
  qed
  then show "triggers (ww_db w') = update_many (\<lambda>t. tr_id t = w_id trigger)
           (apply_patch (decision_patch D (te_evaluatedAt env) (te_lastFiredAt env))) (triggers (ww_db w))"
    and "map ob_key (outbox (ww_db w')) = map ob_key (if D = FIRE
           then create_outbox (zip (te_rowIds env) (fired_messages (fired_event env trigger (results ?ev)) (w_channels trigger)))
                  (te_dbNow env) (outbox (ww_db w))
           else outbox (ww_db w))"
    by simp_all
qed

lemma m_key_fired_messages: "m_key ` set (fired_messages ev cs) = (\<lambda>c. (ev_eventId ev, routingKeyFor c)) ` set cs"
  by (auto simp: fired_messages_def m_key_def image_iff)

section \<open>Properties\<close>

text \<open>
  Grouping neither drops nor repeats a trigger. The group of a location holds exactly the
  triggers with that location key, in the order they were read; locations without triggers have no
  group, and no location has two.
\<close>

theorem groupByLocation_correct:
  "distinct (map fst (groupByLocation ts)) \<and>
   map_of (groupByLocation ts) k =
     (let g = filter (\<lambda>t. locationKey (w_latitude t) (w_longitude t) = k) ts in if g = [] then None else Some g)"
  using groupByLocation_distinct [of ts] groupByLocation_lookup [of ts k] by (simp add: trigger_key_def)

text \<open>
  C33: every location is polled once. However the workers' steps and the lock renewals interleave,
  each group is at every moment waiting, in flight with one worker, or done, never two of these; at
  most \<open>conc\<close> are in flight; and when all workers have returned with the lock still held, every group
  was polled exactly once.
\<close>

theorem locations_polled_once:
  assumes "1 \<le> conc" and "p = withLockRenewal E shard tok evs (pollLocations conc groups w)"
  shows "mset (po_queue p) + mset (in_flight (po_workers p)) + mset (po_done p) = mset groups \<and>
    of_nat (length (in_flight (po_workers p))) \<le> conc \<and>
    (po_held p \<and> (\<forall>x \<in> set (po_workers p). x = Returned) \<longrightarrow> mset (po_done p) = mset groups)"
proof -
  let ?p = "pollLocations conc groups w"
  have init: "accounted ?p = mset groups" "workers_inv ?p"
    by (auto simp: pollLocations_def accounted_def workers_inv_def in_flight_def)
  have inv: "accounted p = mset groups" "workers_inv p" "length (po_workers p) = length (po_workers ?p)"
    using withLockRenewal_inv [of E shard tok evs ?p] init assms(2) by simp_all
  have n: "length (po_workers ?p) = nat \<lfloor>min conc (of_nat (length groups))\<rfloor>" by (simp add: pollLocations_def)
  have "of_nat (length (in_flight (po_workers p))) \<le> (of_nat (length (po_workers p)) :: rat)"
    using in_flight_length [of "po_workers p"] by simp
  also have "\<dots> \<le> conc"
  proof -
    have "rat_of_int \<lfloor>min conc (of_nat (length groups))\<rfloor> \<le> min conc (of_nat (length groups))" by (rule of_int_floor_le)
    then show ?thesis using assms(1) inv(3) n by (simp add: of_nat_nat)
  qed
  finally have flight: "of_nat (length (in_flight (po_workers p))) \<le> conc" .
  have "mset (po_done p) = mset groups" if h: "po_held p" and all: "\<forall>x \<in> set (po_workers p). x = Returned"
  proof (cases "groups = []")
    case True
    then show ?thesis using inv(1) by (simp add: accounted_def)
  next
    case False
    have "1 \<le> min conc (of_nat (length groups))" using False assms(1) by (cases groups) auto
    then have "0 < length (po_workers p)" using inv(3) n by (simp add: le_floor_iff)
    then have "Returned \<in> set (po_workers p)" using all by (cases "po_workers p") auto
    then have "po_queue p = []" using inv(2) h by (simp add: workers_inv_def)
    moreover have "in_flight (po_workers p) = []" using all by (auto simp: in_flight_def)
    ultimately show ?thesis using inv(1) by (simp add: accounted_def)
  qed
  then show ?thesis using inv(1) flight by (simp add: accounted_def)
qed

text \<open>
  Losing the lock stops the pass. From the moment a renewal was refused or failed, whatever the
  workers and the timer do, no further location is taken from the queue.
\<close>

theorem lost_lock_stops:
  assumes "\<not> po_held p"
  shows "po_queue (withLockRenewal E shard tok evs p) = po_queue p \<and> \<not> po_held (withLockRenewal E shard tok evs p)"
  using assms unfolding withLockRenewal_def
proof (induction evs arbitrary: p)
  case (Cons x evs)
  have "po_queue (poll_act E shard tok x p) = po_queue p \<and> \<not> po_held (poll_act E shard tok x p)"
    using Cons.prems by (cases x) (auto simp: advance_def split_beta Let_def split: worker.splits)
  then show ?case using Cons.IH [of "poll_act E shard tok x p"] by simp
qed simp

text \<open>
  C13: the database follows the state machine. Processing a trigger that was read from a row takes
  the row's state, firing instant and cooldown through exactly the transition of the decision, leaves
  every other trigger as it was, and stages a delivery for each of the trigger's channels when the
  decision is FIRE and none otherwise.
\<close>

theorem processTrigger_refines:
  assumes "db_keys (ww_db w)" and "t \<in> set (triggers (ww_db w))" and "trigger = watched_trigger (ww_db w) t u"
    and "processTrigger I R batch env trigger snapshot w = (Inr (), w')"
    and "length (te_rowIds env) = length (tr_channels t)"
    and "D = decide I (abs_row t) (cs_matched (evaluateConditions snapshot (w_conditions trigger) (tr_conditionLogic t)))
           (te_evaluatedAt env) (w_quietHours trigger)"
  shows "(\<exists>t' \<in> set (triggers (ww_db w')). tr_id t' = tr_id t \<and> abs_row t' = apply_decision D (te_lastFiredAt env) (abs_row t)) \<and>
    filter (\<lambda>x. tr_id x \<noteq> tr_id t) (triggers (ww_db w')) = filter (\<lambda>x. tr_id x \<noteq> tr_id t) (triggers (ww_db w)) \<and>
    ob_key ` set (outbox (ww_db w')) = ob_key ` set (outbox (ww_db w)) \<union>
      (if D = FIRE then (\<lambda>c. (te_eventId env, routingKeyFor c)) ` set (tr_channels t) else {})"
proof -
  let ?ev = "evaluateConditions snapshot (w_conditions trigger) (w_conditionLogic trigger)"
  have id: "w_id trigger = tr_id t" and ch: "w_channels trigger = tr_channels t" and lo: "w_conditionLogic trigger = tr_conditionLogic t"
    by (simp_all add: assms(3) watched_trigger_def)
  have D: "D = decide I trigger (cs_matched ?ev) (te_evaluatedAt env) (w_quietHours trigger)"
    by (simp add: assms(6) lo) (simp add: assms(3) decide_truncate)
  note wr = processTrigger_write [OF assms(4) D, unfolded id ch]
  let ?f = "apply_patch (decision_patch D (te_evaluatedAt env) (te_lastFiredAt env))"
  have "?f t \<in> set (triggers (ww_db w'))"
    unfolding wr(1) set_update_many using assms(2) by (intro image_eqI [of _ _ t]) simp_all
  moreover have "tr_id (?f x) = tr_id x" for x by (simp add: apply_patch_def)
  ultimately have 1: "\<exists>t' \<in> set (triggers (ww_db w')). tr_id t' = tr_id t \<and> abs_row t' = apply_decision D (te_lastFiredAt env) (abs_row t)"
    by (intro bexI [of _ "?f t"]) (simp_all add: abs_row_patch)
  have 2: "filter (\<lambda>x. tr_id x \<noteq> tr_id t) (update_many (\<lambda>x. tr_id x = tr_id t) ?f rows) = filter (\<lambda>x. tr_id x \<noteq> tr_id t) rows" for rows
    by (induction rows) (auto simp: apply_patch_def)
  have dk: "distinct (map ob_key (outbox (ww_db w)))" using assms(1) by (simp add: db_keys_def ob_key_def [abs_def])
  let ?ms = "fired_messages (fired_event env trigger (results ?ev)) (tr_channels t)"
  have sz: "snd ` set (zip (te_rowIds env) ?ms) = set ?ms"
    using assms(5) by (metis fired_messages_def length_map list.set_map map_snd_zip)
  have "ob_key ` set (outbox (ww_db w')) = ob_key ` set (outbox (ww_db w)) \<union>
      (if D = FIRE then (\<lambda>c. (te_eventId env, routingKeyFor c)) ` set (tr_channels t) else {})"
    using arg_cong [OF wr(2), of set] create_outbox_keys [OF dk, of "zip (te_rowIds env) ?ms" "te_dbNow env"] sz m_key_fired_messages
    by (auto simp: fired_event_def)
  then show ?thesis using 1 2 unfolding wr(1) by blast
qed

section \<open>Sample runs\<close>

definition hot :: WeatherSnapshot where
  "hot = \<lparr>temperature = 31, apparentTemp = 33, humidity = 40, windSpeed = 5, precipitation = 0, weatherCode = 0\<rparr>"

definition heat_env :: trigger_env where
  "heat_env = \<lparr>te_eventId = ''e1'', te_evaluatedAt = 1000, te_firedAt = 1001, te_lastFiredAt = 1002, te_rowIds = [''o1'', ''o2''],
     te_dbNow = 1003, te_commit = Committed, te_pass = good_pass\<rparr>"

definition heat_world :: "(string \<Rightarrow> entry option) watch_world" where
  "heat_world = \<lparr>ww_db = small_db, ww_redis = Map.empty, ww_broker = []\<rparr>"

definition heat_cycle :: "(string \<Rightarrow> entry option) cycle_env" where
  "heat_cycle = \<lparr>ce_intl = utc_intl, ce_R = mem_redis, ce_parse = (\<lambda>_. Inr hot), ce_stringify = (\<lambda>_. ''hot''), ce_ttl = 240,
     ce_batch = Fin 200, ce_snapshot = (\<lambda>_. \<lparr>se_get = Replied, se_getAt = 0, se_set = Replied, se_setAt = 0, se_http = (\<lambda>_. None)\<rparr>),
     ce_trigger = (\<lambda>_. heat_env)\<rparr>"

theorem locations_polled_once_witness:
  "of_nat (length (in_flight (po_workers (withLockRenewal heat_cycle \<lparr>sh_index = 0, sh_count = 1\<rparr> ''k''
      [Advance 0, Advance 1, Renew LostBefore 40000] (pollLocations 2 [[], [], []] heat_world))))) \<le> (2 :: rat)"
  using locations_polled_once [OF _ refl, where conc = 2 and E = heat_cycle and shard = "\<lparr>sh_index = 0, sh_count = 1\<rparr>"
    and tok = "''k''" and evs = "[Advance 0, Advance 1, Renew LostBefore 40000]" and groups = "[[], [], []]" and w = heat_world]
  by simp

theorem lost_lock_stops_witness:
  "po_queue (withLockRenewal heat_cycle \<lparr>sh_index = 0, sh_count = 1\<rparr> ''k'' [Advance 0, Advance 1]
     ((pollLocations 2 [[], []] heat_world)\<lparr>po_held := False\<rparr>)) = [[], []]"
  using lost_lock_stops [of "(pollLocations 2 [[], []] heat_world)\<lparr>po_held := False\<rparr>"] by (simp add: pollLocations_def)

lemma heat_fires:
  "fst (processTrigger utc_intl mem_redis (Fin 200) heat_env (watched_trigger small_db heat alice) hot heat_world) = Inr ()"
  by code_simp

theorem processTrigger_refines_witness:
  "\<exists>t' \<in> set (triggers (ww_db (snd (processTrigger utc_intl mem_redis (Fin 200) heat_env
      (watched_trigger small_db heat alice) hot heat_world)))). abs_row t' = \<lparr>state = FIRED, lastFiredAt = Some 1002, cooldownMin = 60\<rparr>"
proof -
  define D where "D = decide utc_intl (abs_row heat)
    (cs_matched (evaluateConditions hot (w_conditions (watched_trigger small_db heat alice)) (tr_conditionLogic heat)))
    (te_evaluatedAt heat_env) (w_quietHours (watched_trigger small_db heat alice))"
  have D: "D = FIRE" unfolding D_def by code_simp
  have "processTrigger utc_intl mem_redis (Fin 200) heat_env (watched_trigger small_db heat alice) hot heat_world =
      (Inr (), snd (processTrigger utc_intl mem_redis (Fin 200) heat_env (watched_trigger small_db heat alice) hot heat_world))"
    using heat_fires by (simp add: prod_eq_iff)
  moreover have "ww_db heat_world = small_db" "heat \<in> set (triggers (ww_db heat_world))"
    "watched_trigger small_db heat alice = watched_trigger (ww_db heat_world) heat alice"
    "db_keys (ww_db heat_world)" "length (te_rowIds heat_env) = length (tr_channels heat)"
    using small_db_keys by (simp_all add: heat_world_def small_db_def heat_env_def heat_def)
  ultimately have "\<exists>t' \<in> set (triggers (ww_db (snd (processTrigger utc_intl mem_redis (Fin 200) heat_env
      (watched_trigger small_db heat alice) hot heat_world)))). tr_id t' = tr_id heat \<and>
        abs_row t' = apply_decision D (te_lastFiredAt heat_env) (abs_row heat)"
    using processTrigger_refines [of heat_world heat "watched_trigger small_db heat alice" alice utc_intl mem_redis "Fin 200" heat_env hot
        "snd (processTrigger utc_intl mem_redis (Fin 200) heat_env (watched_trigger small_db heat alice) hot heat_world)" D] D_def
    by blast
  then show ?thesis by (auto simp: D heat_env_def heat_def abs_row_def)
qed

end
