(* ===== verification/DeliveryLog.thy ===== *)
theory DeliveryLog
  imports Schema
begin

text \<open>
  \<open>apps/notifier/src/ports/delivery-log.repository.ts\<close> and its adapter
  \<open>persistence/prisma-delivery-log.repository.ts\<close>: one history row per event and channel, and the lease
  on it that makes at-least-once delivery safe. Each statement is atomic; a claim is up to three of
  them, which the interleaved system at the end executes one at a time.
\<close>

section \<open>The adapter\<close>

datatype ClaimResult = claimed | duplicate | in_flight

text \<open>\<open>id\<close> and \<open>createdAt\<close> are the database's defaults.\<close>

definition rowFor ::
  "ident \<Rightarrow> instant \<Rightarrow> Channel \<Rightarrow> TriggerFiredEvent \<Rightarrow> NotifStatus \<Rightarrow> string option \<Rightarrow> Notification" where
  "rowFor i created channel event status error =
     \<lparr>n_id = i, n_eventId = Some (ev_eventId event), n_triggerId = Some (ev_triggerId event), n_userId = ev_userId event,
      n_channel = channel, n_status = status, n_payload = event, n_error = error, n_claimedAt = None,
      n_deliveredTo = [], n_createdAt = created\<rparr>"

definition is_row :: "Channel \<Rightarrow> ident \<Rightarrow> Notification \<Rightarrow> bool" where
  "is_row channel eventId n \<longleftrightarrow> n_eventId n = Some eventId \<and> n_channel n = channel"

text \<open>An insert checks the unique index first and then the foreign keys.\<close>

definition create_notification :: "Notification \<Rightarrow> db \<Rightarrow> (db_error, db) result" where
  "create_notification n d =
     (if (case n_eventId n of None \<Rightarrow> False | Some e \<Rightarrow> find_unique (is_row (n_channel n) e) (notifications d) \<noteq> None) then Inl UniqueViolation
      else if find_unique (\<lambda>u. u_id u = n_userId n) (users d) = None \<or>
              (case n_triggerId n of None \<Rightarrow> False | Some t \<Rightarrow> find_unique (\<lambda>x. tr_id x = t) (triggers d) = None) then Inl ForeignKeyViolation
      else Inr (d\<lparr>notifications := notifications d @ [n]\<rparr>))"

definition claim_create :: "ident \<Rightarrow> instant \<Rightarrow> Channel \<Rightarrow> TriggerFiredEvent \<Rightarrow> db \<Rightarrow> (db_error, db) result" where
  "claim_create i now channel event d =
     create_notification ((rowFor i now channel event PENDING None)\<lparr>n_claimedAt := Some now\<rparr>) d"

definition claimable :: "Channel \<Rightarrow> ident \<Rightarrow> instant \<Rightarrow> Notification \<Rightarrow> bool" where
  "claimable channel eventId leaseCutoff n \<longleftrightarrow>
     is_row channel eventId n \<and> n_status n \<noteq> SENT \<and>
     (case n_claimedAt n of None \<Rightarrow> True | Some t \<Rightarrow> t < leaseCutoff)"

definition claim_update :: "instant \<Rightarrow> Channel \<Rightarrow> ident \<Rightarrow> instant \<Rightarrow> db \<Rightarrow> nat \<times> db" where
  "claim_update now channel eventId leaseCutoff d =
     (count_where (claimable channel eventId leaseCutoff) (notifications d),
      d\<lparr>notifications := update_many (claimable channel eventId leaseCutoff)
          (\<lambda>n. n\<lparr>n_status := PENDING, n_claimedAt := Some now, n_error := None\<rparr>) (notifications d)\<rparr>)"

definition claim_read :: "Channel \<Rightarrow> ident \<Rightarrow> db \<Rightarrow> ClaimResult" where
  "claim_read channel eventId d =
     (case find_unique (is_row channel eventId) (notifications d) of
        None \<Rightarrow> claimed
      | Some n \<Rightarrow> if n_status n = SENT then duplicate else in_flight)"

text \<open>The fates of the statements of one claim, and the clock and id it draws.\<close>

record claim_env =
  cl_id :: ident
  cl_now :: instant
  cl_create :: commit
  cl_update :: commit
  cl_read :: bool

definition claim ::
  "claim_env \<Rightarrow> Channel \<Rightarrow> TriggerFiredEvent \<Rightarrow> instant \<Rightarrow> db \<Rightarrow> (db_error, ClaimResult) result \<times> db" where
  "claim env channel event leaseCutoff d =
     (case transact (cl_create env) d (map_sum id (Pair ()) (claim_create (cl_id env) (cl_now env) channel event d)) of
        (Inr _, d') \<Rightarrow> (Inr claimed, d')
      | (Inl e, d') \<Rightarrow>
          if e \<noteq> UniqueViolation then (Inl e, d')
          else (case transact (cl_update env) d' (Inr (claim_update (cl_now env) channel (ev_eventId event) leaseCutoff d')) of
                  (Inl e', d'') \<Rightarrow> (Inl e', d'')
                | (Inr count, d'') \<Rightarrow>
                    if count > 0 then (Inr claimed, d'')
                    else if \<not> cl_read env then (Inl DbDown, d'')
                    else (Inr (claim_read channel (ev_eventId event) d''), d'')))"

definition releaseClaim_row :: "Channel \<Rightarrow> ident \<Rightarrow> db \<Rightarrow> db" where
  "releaseClaim_row channel eventId d =
     d\<lparr>notifications := update_many (\<lambda>n. is_row channel eventId n \<and> n_status n = PENDING) (\<lambda>n. n\<lparr>n_claimedAt := None\<rparr>)
         (notifications d)\<rparr>"

definition releaseClaim :: "commit \<Rightarrow> Channel \<Rightarrow> ident \<Rightarrow> db \<Rightarrow> (db_error, unit) result \<times> db" where
  "releaseClaim c channel eventId d = transact c d (Inr ((), releaseClaim_row channel eventId d))"

definition settle_row ::
  "ident \<Rightarrow> instant \<Rightarrow> Channel \<Rightarrow> TriggerFiredEvent \<Rightarrow> NotifStatus \<Rightarrow> string option \<Rightarrow> db \<Rightarrow> (db_error, db) result" where
  "settle_row i now channel event status error d =
     (if find_unique (is_row channel (ev_eventId event)) (notifications d) \<noteq> None
      then Inr (d\<lparr>notifications := update_many (is_row channel (ev_eventId event)) (\<lambda>n. n\<lparr>n_status := status, n_error := error\<rparr>)
                   (notifications d)\<rparr>)
      else create_notification (rowFor i now channel event status error) d)"

definition settle ::
  "commit \<Rightarrow> ident \<Rightarrow> instant \<Rightarrow> Channel \<Rightarrow> TriggerFiredEvent \<Rightarrow> NotifStatus \<Rightarrow> string option \<Rightarrow> db \<Rightarrow> (db_error, unit) result \<times> db" where
  "settle c i now channel event status error d =
     transact c d (map_sum id (Pair ()) (settle_row i now channel event status error d))"

definition deliveredDestinations :: "Channel \<Rightarrow> ident \<Rightarrow> db \<Rightarrow> string list" where
  "deliveredDestinations channel eventId d =
     (case find_unique (is_row channel eventId) (notifications d) of Some n \<Rightarrow> n_deliveredTo n | None \<Rightarrow> [])"

definition markDelivered :: "Channel \<Rightarrow> ident \<Rightarrow> string \<Rightarrow> db \<Rightarrow> db" where
  "markDelivered channel eventId destination d =
     d\<lparr>notifications := update_many (is_row channel eventId) (\<lambda>n. n\<lparr>n_deliveredTo := n_deliveredTo n @ [destination]\<rparr>)
         (notifications d)\<rparr>"

section \<open>The row of an event on a channel\<close>

definition log_keys :: "db \<Rightarrow> bool" where
  "log_keys d \<longleftrightarrow> distinct (map (\<lambda>n. (n_eventId n, n_channel n)) (filter (\<lambda>n. n_eventId n \<noteq> None) (notifications d)))"

definition log_row :: "Channel \<Rightarrow> ident \<Rightarrow> db \<Rightarrow> Notification option" where
  "log_row channel eventId d = find_unique (is_row channel eventId) (notifications d)"

lemma is_row_upd [simp]:
  "is_row c e (n\<lparr>n_status := s\<rparr>) = is_row c e n" "is_row c e (n\<lparr>n_claimedAt := t\<rparr>) = is_row c e n"
  "is_row c e (n\<lparr>n_error := x\<rparr>) = is_row c e n" "is_row c e (n\<lparr>n_deliveredTo := y\<rparr>) = is_row c e n"
  by (simp_all add: is_row_def)

lemma is_row_rowFor [simp]: "is_row c e (rowFor i t c' ev s x) \<longleftrightarrow> e = ev_eventId ev \<and> c = c'"
  by (auto simp: is_row_def rowFor_def)

lemma log_keys_unique:
  assumes "log_keys d" "n \<in> set (notifications d)" "n' \<in> set (notifications d)" "is_row c e n" "is_row c e n'"
  shows "n = n'"
  using assms unfolding log_keys_def distinct_map inj_on_def is_row_def by auto

text \<open>What a client of the log sees of it: the status and the lease of a pair.\<close>

definition lease :: "Channel \<Rightarrow> ident \<Rightarrow> db \<Rightarrow> (NotifStatus \<times> instant option) option" where
  "lease c e d = map_option (\<lambda>n. (n_status n, n_claimedAt n)) (log_row c e d)"

definition free :: "instant \<Rightarrow> (NotifStatus \<times> instant option) option \<Rightarrow> bool" where
  "free lc l \<longleftrightarrow> (case l of None \<Rightarrow> True
     | Some (s, t) \<Rightarrow> s \<noteq> SENT \<and> (case t of None \<Rightarrow> True | Some x \<Rightarrow> x < lc))"

lemma lease_None: "lease c e d = None \<longleftrightarrow> log_row c e d = None"
  by (simp add: lease_def)

lemma claim_create_Inr:
  "claim_create i now c ev d = Inr d' \<Longrightarrow>
   lease c (ev_eventId ev) d = None \<and> lease c (ev_eventId ev) d' = Some (PENDING, Some now)"
  by (auto simp: claim_create_def create_notification_def lease_def log_row_def find_append rowFor_def find_unique_def is_row_def
      split: if_splits)

lemma claim_create_unique:
  "claim_create i now c ev d = Inl UniqueViolation \<longleftrightarrow> lease c (ev_eventId ev) d \<noteq> None"
  by (auto simp: claim_create_def create_notification_def lease_def log_row_def rowFor_def)

lemma claim_update_spec:
  assumes "log_keys d" and "claim_update now c e lc d = (n, d')"
  shows "(0 < n \<longleftrightarrow> lease c e d \<noteq> None \<and> free lc (lease c e d)) \<and>
    (0 < n \<longrightarrow> lease c e d' = Some (PENDING, Some now)) \<and> (n = 0 \<longrightarrow> d' = d)"
proof -
  have n: "0 < n \<longleftrightarrow> (\<exists>r \<in> set (notifications d). claimable c e lc r)"
    using assms(2) count_where_pos_iff by (auto simp: claim_update_def)
  have one: "(\<exists>r \<in> set (notifications d). claimable c e lc r) \<longleftrightarrow> (\<exists>r. log_row c e d = Some r \<and> claimable c e lc r)"
  proof
    assume "\<exists>r \<in> set (notifications d). claimable c e lc r"
    then obtain r where r: "r \<in> set (notifications d)" "claimable c e lc r" by blast
    then obtain r' where r': "log_row c e d = Some r'"
      by (cases "log_row c e d") (auto simp: log_row_def find_unique_None claimable_def)
    then have "r = r'" using log_keys_unique [OF assms(1) r(1)] r(2) find_unique_Some [of "is_row c e" "notifications d" r']
      by (auto simp: log_row_def claimable_def)
    then show "\<exists>r. log_row c e d = Some r \<and> claimable c e lc r" using r r' by blast
  qed (auto simp: log_row_def dest: find_unique_Some)
  have d': "d' = d\<lparr>notifications := update_many (claimable c e lc)
          (\<lambda>n. n\<lparr>n_status := PENDING, n_claimedAt := Some now, n_error := None\<rparr>) (notifications d)\<rparr>"
    using assms(2) by (simp add: claim_update_def)
  have row: "is_row c e r" if "log_row c e d = Some r" for r
    using that find_unique_Some [of "is_row c e"] by (auto simp: log_row_def)
  have l: "lease c e d' = Some (PENDING, Some now)" if "log_row c e d = Some r" "claimable c e lc r" for r
    using that by (simp add: d' lease_def log_row_def find_update_many)
  have z: "n = 0 \<Longrightarrow> d' = d" using n d' update_many_idle [of "notifications d" "claimable c e lc"] by simp
  have f: "(\<exists>r. log_row c e d = Some r \<and> claimable c e lc r) \<longleftrightarrow> lease c e d \<noteq> None \<and> free lc (lease c e d)"
    using row by (cases "log_row c e d") (auto simp: lease_def free_def claimable_def)
  show ?thesis using n one f l z by auto
qed

lemma claim_read_spec:
  "claim_read c e d = (case lease c e d of None \<Rightarrow> claimed | Some (s, t) \<Rightarrow> if s = SENT then duplicate else in_flight)"
  by (simp add: claim_read_def lease_def log_row_def split: option.splits)

lemma releaseClaim_lease:
  "lease c e (releaseClaim_row c e d) = map_option (\<lambda>(s, t). if s = PENDING then (s, None) else (s, t)) (lease c e d)"
proof -
  have "is_row c e r" if "log_row c e d = Some r" for r
    using that find_unique_Some [of "is_row c e"] by (auto simp: log_row_def)
  then show ?thesis
    by (cases "log_row c e d") (auto simp: lease_def releaseClaim_row_def log_row_def find_update_many)
qed

lemma settle_row_lease:
  assumes "settle_row i now c ev s x d = Inr d'"
  shows "lease c (ev_eventId ev) d' = Some (s, case lease c (ev_eventId ev) d of Some (_, t) \<Rightarrow> t | None \<Rightarrow> None)"
proof (cases "log_row c (ev_eventId ev) d")
  case None
  then show ?thesis using assms
    by (auto simp: settle_row_def create_notification_def lease_def log_row_def find_append rowFor_def find_unique_def is_row_def
        split: if_splits)
next
  case (Some r)
  then have "is_row c (ev_eventId ev) r" using find_unique_Some [of "is_row c (ev_eventId ev)"] by (auto simp: log_row_def)
  then show ?thesis using assms Some by (auto simp: settle_row_def lease_def log_row_def find_update_many)
qed

text \<open>Every statement keeps the unique index.\<close>

lemma log_keys_update:
  assumes "log_keys d" and "\<And>n. n_eventId (f n) = n_eventId n \<and> n_channel (f n) = n_channel n"
  shows "log_keys (d\<lparr>notifications := update_many p f (notifications d)\<rparr>)"
proof -
  have "map (\<lambda>n. (n_eventId n, n_channel n)) (filter (\<lambda>n. n_eventId n \<noteq> None) (update_many p f rows)) =
      map (\<lambda>n. (n_eventId n, n_channel n)) (filter (\<lambda>n. n_eventId n \<noteq> None) rows)" for rows
    using assms(2) by (induction rows) auto
  then show ?thesis using assms(1) by (simp add: log_keys_def)
qed

lemma log_keys_create:
  assumes "log_keys d" and "create_notification n d = Inr d'" shows "log_keys d'"
proof (cases "n_eventId n")
  case None
  then show ?thesis using assms by (auto simp: create_notification_def log_keys_def split: if_splits)
next
  case (Some e)
  then have "find_unique (is_row (n_channel n) e) (notifications d) = None" "d' = d\<lparr>notifications := notifications d @ [n]\<rparr>"
    using assms(2) by (auto simp: create_notification_def split: if_splits)
  then show ?thesis using assms(1) Some by (auto simp: log_keys_def find_unique_None is_row_def)
qed

lemma log_keys_claim_create: "log_keys d \<Longrightarrow> claim_create i now c ev d = Inr d' \<Longrightarrow> log_keys d'"
  unfolding claim_create_def by (rule log_keys_create)

lemma log_keys_claim_update: "log_keys d \<Longrightarrow> log_keys (snd (claim_update now c e lc d))"
  by (simp add: claim_update_def log_keys_update)

lemma log_keys_release: "log_keys d \<Longrightarrow> log_keys (releaseClaim_row c e d)"
  by (simp add: releaseClaim_row_def log_keys_update)

lemma log_keys_settle: "log_keys d \<Longrightarrow> settle_row i now c ev s x d = Inr d' \<Longrightarrow> log_keys d'"
  by (auto simp: settle_row_def log_keys_update log_keys_create split: if_splits)

section \<open>The contract of the log\<close>

text \<open>
  What the notifier relies on, for one event on one channel: \<open>look\<close> reads status and lease, the other
  operations are the statements of the adapter. A lease is given out only when it is free.
\<close>

locale lease_log =
  fixes sound :: "'d \<Rightarrow> bool"
    and look :: "'d \<Rightarrow> (NotifStatus \<times> instant option) option"
    and insert_row :: "instant \<Rightarrow> 'd \<Rightarrow> (db_error, 'd) result"
    and take_over :: "instant \<Rightarrow> instant \<Rightarrow> 'd \<Rightarrow> nat \<times> 'd"
    and inspect :: "'d \<Rightarrow> ClaimResult"
    and give_back :: "'d \<Rightarrow> 'd"
    and record_end :: "NotifStatus \<Rightarrow> 'd \<Rightarrow> (db_error, 'd) result"
  assumes insert_takes: "insert_row now d = Inr d' \<Longrightarrow> look d = None \<and> look d' = Some (PENDING, Some now)"
    and insert_refused: "insert_row now d = Inl UniqueViolation \<longleftrightarrow> look d \<noteq> None"
    and insert_sound: "sound d \<Longrightarrow> insert_row now d = Inr d' \<Longrightarrow> sound d'"
    and take_over_iff: "sound d \<Longrightarrow> take_over now lc d = (n, d') \<Longrightarrow> 0 < n \<longleftrightarrow> look d \<noteq> None \<and> free lc (look d)"
    and take_over_takes: "sound d \<Longrightarrow> take_over now lc d = (n, d') \<Longrightarrow> 0 < n \<Longrightarrow> look d' = Some (PENDING, Some now)"
    and take_over_idle: "sound d \<Longrightarrow> take_over now lc d = (0, d') \<Longrightarrow> d' = d"
    and take_over_sound: "sound d \<Longrightarrow> take_over now lc d = (n, d') \<Longrightarrow> sound d'"
    and inspect_eq: "inspect d = (case look d of None \<Rightarrow> claimed | Some (s, t) \<Rightarrow> if s = SENT then duplicate else in_flight)"
    and give_back_look: "look (give_back d) = map_option (\<lambda>(s, t). if s = PENDING then (s, None) else (s, t)) (look d)"
    and give_back_sound: "sound d \<Longrightarrow> sound (give_back d)"
    and record_end_look: "record_end s d = Inr d' \<Longrightarrow>
      look d' = Some (s, case look d of Some (_, t) \<Rightarrow> t | None \<Rightarrow> None)"
    and record_end_sound: "sound d \<Longrightarrow> record_end s d = Inr d' \<Longrightarrow> sound d'"
begin

definition attempt :: "instant \<Rightarrow> instant \<Rightarrow> 'd \<Rightarrow> (db_error, ClaimResult) result \<times> 'd" where
  "attempt now lc d =
     (case insert_row now d of
        Inr d' \<Rightarrow> (Inr claimed, d')
      | Inl e \<Rightarrow> if e \<noteq> UniqueViolation then (Inl e, d)
                 else (case take_over now lc d of (n, d') \<Rightarrow> if 0 < n then (Inr claimed, d') else (Inr (inspect d'), d')))"

lemma attempt_claimed_iff:
  assumes "sound d" and "\<And>e. insert_row now d = Inl e \<Longrightarrow> e = UniqueViolation"
  shows "fst (attempt now lc d) = Inr claimed \<longleftrightarrow> free lc (look d)"
proof (cases "insert_row now d")
  case (Inr d')
  then show ?thesis using insert_takes [OF Inr] by (simp add: attempt_def free_def)
next
  case (Inl e)
  then have some: "look d \<noteq> None" and e: "e = UniqueViolation" using assms(2) insert_refused by auto
  obtain n d' where t: "take_over now lc d = (n, d')" by force
  show ?thesis
  proof (cases "0 < n")
    case True
    then show ?thesis using take_over_iff [OF assms(1) t] by (simp add: attempt_def Inl e t)
  next
    case False
    then have "d' = d" "\<not> free lc (look d)" using take_over_idle [OF assms(1)] take_over_iff [OF assms(1) t] t some by auto
    then show ?thesis using False some by (auto simp: attempt_def Inl e t inspect_eq split: if_splits)
  qed
qed

lemma attempt_takes:
  assumes "sound d" and "attempt now lc d = (Inr claimed, d')"
  shows "sound d' \<and> look d' = Some (PENDING, Some now)"
proof (cases "insert_row now d")
  case (Inr x)
  then show ?thesis using assms insert_takes insert_sound by (auto simp: attempt_def)
next
  case (Inl e)
  then have some: "e = UniqueViolation" "look d \<noteq> None" using assms(2) insert_refused by (auto simp: attempt_def split: if_splits)
  obtain n x where t: "take_over now lc d = (n, x)" by force
  have "0 < n"
  proof (rule ccontr)
    assume "\<not> 0 < n"
    then have "x = d" using take_over_idle [OF assms(1)] t by simp
    then show False using assms(2) some \<open>\<not> 0 < n\<close> by (auto simp: attempt_def Inl t inspect_eq split: if_splits)
  qed
  then show ?thesis using assms t take_over_takes [OF assms(1) t] take_over_sound [OF assms(1) t] some
    by (auto simp: attempt_def Inl)
qed

lemma second_attempt_refused:
  assumes "sound d" and "attempt now lc d = (Inr claimed, d')" and "lc' \<le> now"
  shows "fst (attempt now' lc' d') = Inr in_flight"
proof -
  have d': "sound d'" "look d' = Some (PENDING, Some now)" using attempt_takes assms by auto
  then have ins: "insert_row now' d' = Inl UniqueViolation" using insert_refused by simp
  obtain n x where t: "take_over now' lc' d' = (n, x)" by force
  have "n = 0" using take_over_iff [OF d'(1) t] d'(2) assms(3) by (simp add: free_def)
  with t take_over_idle [OF d'(1), of now' lc' x] have "x = d'" by simp
  then show ?thesis using t \<open>n = 0\<close> d'(2) ins by (simp add: attempt_def inspect_eq)
qed

end

interpretation dlog: lease_log log_keys "lease c (ev_eventId ev)" "\<lambda>now. claim_create i now c ev"
    "\<lambda>now. claim_update now c (ev_eventId ev)" "claim_read c (ev_eventId ev)" "releaseClaim_row c (ev_eventId ev)"
    "\<lambda>s. settle_row j now' c ev s x" for c ev i j now' x
proof unfold_locales
  fix now lc d n d'
  assume k: "log_keys d" and t: "claim_update now c (ev_eventId ev) lc d = (n, d')"
  show "0 < n \<longleftrightarrow> lease c (ev_eventId ev) d \<noteq> None \<and> free lc (lease c (ev_eventId ev) d)"
    and "0 < n \<Longrightarrow> lease c (ev_eventId ev) d' = Some (PENDING, Some now)"
    using claim_update_spec [OF k t] by auto
  show "log_keys d'" using log_keys_claim_update [OF k, of now c "ev_eventId ev" lc] t by simp
next
  fix now lc d d'
  assume "log_keys d" and "claim_update now c (ev_eventId ev) lc d = (0, d')"
  then show "d' = d" using claim_update_spec by blast
qed (fact claim_create_Inr claim_create_unique log_keys_claim_create claim_read_spec releaseClaim_lease log_keys_release
       settle_row_lease log_keys_settle)+

lemma claim_is_attempt:
  assumes "cl_create env = Committed" "cl_update env = Committed" "cl_read env"
  shows "claim env c ev lc d = dlog.attempt (cl_id env) c ev (cl_now env) lc d"
  using assms by (auto simp: claim_def dlog.attempt_def split: sum.splits prod.splits)

end
