(* ===== verification/Channels.thy ===== *)
theory Channels
  imports DeliveryLog QuietHours
begin

text \<open>
  \<open>apps/notifier/src/channels\<close> with \<open>persistence/prisma-recipients.repository.ts\<close> and the shared
  \<open>libs/common/src/mail/mail.service.ts\<close>: the texts of an alert and the three ways it leaves the system.
  What leaves is appended to \<open>nw_out\<close>; the answers of the mail server, of Telegram and of the push
  services are arguments: a message is accepted, or refused, or accepted with the answer lost on the way,
  which the sender sees as an error. Text outside ASCII is the bytes of its UTF-8 encoding.
\<close>

section \<open>Texts (format.ts)\<close>

fun METRIC_LABEL :: "Metric \<Rightarrow> string" where
  "METRIC_LABEL TEMPERATURE = ''Temperature''"
| "METRIC_LABEL APPARENT_TEMP = ''Feels like''"
| "METRIC_LABEL WIND_SPEED = ''Wind speed''"
| "METRIC_LABEL PRECIPITATION = ''Precipitation''"
| "METRIC_LABEL HUMIDITY = ''Humidity''"
| "METRIC_LABEL SEVERE = ''Severe weather''"

fun OPERATOR_LABEL :: "Operator \<Rightarrow> string" where
  "OPERATOR_LABEL GT = ''>''"
| "OPERATOR_LABEL GTE = [CHR 0xE2, CHR 0x89, CHR 0xA5]"
| "OPERATOR_LABEL LT = ''<''"
| "OPERATOR_LABEL LTE = [CHR 0xE2, CHR 0x89, CHR 0xA4]"
| "OPERATOR_LABEL EQ = ''=''"

definition testPrefix :: "TriggerFiredEvent \<Rightarrow> string" where
  "testPrefix event = (if ev_test event = Some True then ''[TEST] '' else '''')"

definition describeCondition :: "FiredCondition \<Rightarrow> string" where
  "describeCondition c =
     (if fc_metric c = SEVERE then ''severe weather (WMO '' @ js_show (fc_observedValue c) @ '')''
      else METRIC_LABEL (fc_metric c) @ '' '' @ js_show (fc_observedValue c) @ '' ('' @
           OPERATOR_LABEL (fc_operator c) @ '' '' @ js_show (fc_threshold c) @ '')'')"

definition alertTitle :: "TriggerFiredEvent \<Rightarrow> string" where
  "alertTitle event = testPrefix event @ ''Weather alert: '' @ ev_triggerName event @ '' ('' @ ev_city event @ '')''"

fun join :: "string \<Rightarrow> string list \<Rightarrow> string" where
  "join sep [] = []"
| "join sep [x] = x"
| "join sep (x # y # r) = x @ sep @ join sep (y # r)"

definition alertText :: "TriggerFiredEvent \<Rightarrow> string" where
  "alertText event =
     (let prefix = testPrefix event;
          joiner = (if ev_conditionLogic event = LogicOR then '' or '' else '' and '');
          parts = join joiner (map describeCondition (ev_conditions event))
      in prefix @ ''In '' @ ev_city event @ '': '' @ parts @ ''.'')"

definition HTML_ESCAPE :: "char \<Rightarrow> string option" where
  "HTML_ESCAPE c =
     (if c = CHR ''&'' then Some ''&amp;'' else if c = CHR ''<'' then Some ''&lt;'' else if c = CHR ''>'' then Some ''&gt;''
      else if c = CHR 0x22 then Some ''&quot;'' else if c = CHR 0x27 then Some ''&#39;'' else None)"

definition escapeHtml :: "string \<Rightarrow> string" where
  "escapeHtml s = concat (map (\<lambda>c. case HTML_ESCAPE c of Some r \<Rightarrow> r | None \<Rightarrow> [c]) s)"

definition alertHtml :: "TriggerFiredEvent \<Rightarrow> string" where
  "alertHtml event = ''<h2>'' @ escapeHtml (alertTitle event) @ ''</h2><p>'' @ escapeHtml (alertText event) @ ''</p>''"

section \<open>Where an alert goes\<close>

datatype outbound =
    MailOut (mo_from: string) (mo_to: string) (mo_subject: string) (mo_html: string)
  | TelegramOut string string string
  | PushOut (po_endpoint: string) (po_payload: string)

record nworld =
  nw_db :: db
  nw_out :: "outbound list"

text \<open>The errors a delivery attempt can end with, and \<open>Error.message\<close> of each.\<close>

datatype failure =
    PermanentNotificationError string
  | DeliveryInFlightError Channel
  | SendError string
  | RepoError db_error

datatype reply = Accepted | Refused string | LostReply string

type_synonym sender = "TriggerFiredEvent \<Rightarrow> nworld \<Rightarrow> (failure, unit) result \<times> nworld"

section \<open>Recipients (prisma-recipients.repository.ts)\<close>

definition telegramChatId :: "ident \<Rightarrow> db \<Rightarrow> string option" where
  "telegramChatId userId d =
     (case find_unique (\<lambda>u. u_id u = userId) (users d) of None \<Rightarrow> None | Some u \<Rightarrow> u_telegramChatId u)"

record EmailRecipient =
  er_email :: string
  er_verified :: bool

definition emailRecipient :: "ident \<Rightarrow> db \<Rightarrow> EmailRecipient option" where
  "emailRecipient userId d =
     map_option (\<lambda>u. \<lparr>er_email = u_email u, er_verified = u_emailVerified u\<rparr>) (find_unique (\<lambda>u. u_id u = userId) (users d))"

definition pushSubscriptions :: "ident \<Rightarrow> db \<Rightarrow> PushSubscription list" where
  "pushSubscriptions userId d = find_many (\<lambda>s. ps_userId s = userId) (pushSubs d)"

definition removePushSubscription :: "ident \<Rightarrow> db \<Rightarrow> (db_error, unit \<times> db) result" where
  "removePushSubscription i d =
     (if find_unique (\<lambda>s. ps_id s = i) (pushSubs d) = None then Inl RecordNotFound
      else Inr ((), d\<lparr>pushSubs := delete_many (\<lambda>s. ps_id s = i) (pushSubs d)\<rparr>))"

section \<open>Mail (mail.service.ts)\<close>

text \<open>\<open>config.get<string>(key) ?? fallback\<close>.\<close>

fun cfg_str :: "string \<Rightarrow> cfg \<Rightarrow> string" where
  "cfg_str dflt (Str s) = s"
| "cfg_str dflt Undef = dflt"
| "cfg_str dflt (Num n) = js_show_num n"

record Transporter =
  tp_host :: string
  tp_port :: jsnum
  tp_secure :: bool
  tp_auth :: "(string \<times> string) option"

record MailService =
  ms_transporter :: "Transporter option"
  ms_from :: string

definition mail_service :: "(string \<Rightarrow> cfg) \<Rightarrow> MailService" where
  "mail_service config =
     (let host = cfg_str '''' (config ''SMTP_HOST''); fr = cfg_str ''alerts@example.com'' (config ''MAIL_FROM'') in
      if host = '''' then \<lparr>ms_transporter = None, ms_from = fr\<rparr>
      else let port = string_to_number (cfg_str ''587'' (config ''SMTP_PORT''));
               user = cfg_str '''' (config ''SMTP_USER''); pass = cfg_str '''' (config ''SMTP_PASS'')
           in \<lparr>ms_transporter = Some \<lparr>tp_host = host, tp_port = port,
                 tp_secure = (config ''SMTP_SECURE'' = Str ''true'' \<or> port = Fin 465),
                 tp_auth = (if user \<noteq> '''' then Some (user, pass) else None)\<rparr>, ms_from = fr\<rparr>)"

definition configured :: "MailService \<Rightarrow> bool" where
  "configured m \<longleftrightarrow> ms_transporter m \<noteq> None"

text \<open>A message handed to the outside: the answer to the sender, and what has left the system.\<close>

fun hand_over :: "reply \<Rightarrow> outbound \<Rightarrow> outbound list \<Rightarrow> (failure, unit) result \<times> outbound list" where
  "hand_over Accepted msg out = (Inr (), out @ [msg])"
| "hand_over (Refused err) msg out = (Inl (SendError err), out)"
| "hand_over (LostReply err) msg out = (Inl (SendError err), out @ [msg])"

text \<open>\<open>smtp\<close> is the answer of the transport.\<close>

definition mail_send ::
  "(outbound \<Rightarrow> reply) \<Rightarrow> MailService \<Rightarrow> string \<Rightarrow> string \<Rightarrow> string \<Rightarrow> outbound list \<Rightarrow> (failure, unit) result \<times> outbound list" where
  "mail_send smtp m to subject html out =
     (if \<not> configured m then (Inl (SendError ''SMTP is not configured (SMTP_HOST is unset)''), out)
      else let msg = MailOut (ms_from m) to subject html in hand_over (smtp msg) msg out)"

section \<open>Email and Telegram\<close>

text \<open>\<open>up\<close>: whether the recipient lookup gets an answer from the database.\<close>

definition email_send :: "MailService \<Rightarrow> (outbound \<Rightarrow> reply) \<Rightarrow> bool \<Rightarrow> sender" where
  "email_send m smtp up event w =
     (if \<not> configured m then (Inl (PermanentNotificationError ''Mailer is not configured''), w)
      else if \<not> up then (Inl (RepoError DbDown), w)
      else case emailRecipient (ev_userId event) (nw_db w) of
        None \<Rightarrow> (Inl (PermanentNotificationError ''User has no email''), w)
      | Some recipient \<Rightarrow>
          if er_email recipient = '''' then (Inl (PermanentNotificationError ''User has no email''), w)
          else if \<not> er_verified recipient then (Inl (PermanentNotificationError ''Email is not verified''), w)
          else case mail_send smtp m (er_email recipient) (alertTitle event) (alertHtml event) (nw_out w) of
                 (r, out) \<Rightarrow> (r, w\<lparr>nw_out := out\<rparr>))"

definition WEATHER_EMOJI :: string where
  "WEATHER_EMOJI = [CHR 0xF0, CHR 0x9F, CHR 0x8C, CHR 0xA6, CHR 0xEF, CHR 0xB8, CHR 0x8F]"

definition telegram_send :: "cfg \<Rightarrow> (outbound \<Rightarrow> reply) \<Rightarrow> bool \<Rightarrow> sender" where
  "telegram_send botToken http up event w =
     (let token = cfg_str '''' botToken in
      if token = '''' then (Inl (PermanentNotificationError ''TELEGRAM_BOT_TOKEN is not set''), w)
      else if \<not> up then (Inl (RepoError DbDown), w)
      else case telegramChatId (ev_userId event) (nw_db w) of
        None \<Rightarrow> (Inl (PermanentNotificationError ''User has no linked Telegram chat''), w)
      | Some chatId \<Rightarrow>
          if chatId = '''' then (Inl (PermanentNotificationError ''User has no linked Telegram chat''), w)
          else let post = TelegramOut (''https://api.telegram.org/bot'' @ token @ ''/sendMessage'') chatId
                            (WEATHER_EMOJI @ '' '' @ alertText event)
               in case hand_over (http post) post (nw_out w) of (r, out) \<Rightarrow> (r, w\<lparr>nw_out := out\<rparr>))"

section \<open>Web push\<close>

text \<open>\<open>PushLost\<close>: the service has the message, and the request ends with an error that carries no status.\<close>

datatype push_reply = PushOk | PushErr "int option" string | PushLost string

text \<open>What the push services answer, and the fate of each write of one attempt.\<close>

record push_env =
  pe_up :: bool
  pe_send :: "PushSubscription \<Rightarrow> push_reply"
  pe_mark :: "string \<Rightarrow> commit"
  pe_prune :: "ident \<Rightarrow> commit"

text \<open>\<open>JSON.stringify\<close> of a string.\<close>

definition hex_digit :: "nat \<Rightarrow> char" where
  "hex_digit n = (if n < 10 then char_of (48 + n) else char_of (87 + n))"

definition json_char :: "char \<Rightarrow> string" where
  "json_char c =
     (let n = (of_char c :: nat) in
      if n = 34 then [CHR 0x5C, c] else if n = 92 then [CHR 0x5C, c]
      else if n = 8 then [CHR 0x5C, CHR ''b''] else if n = 9 then [CHR 0x5C, CHR ''t'']
      else if n = 10 then [CHR 0x5C, CHR ''n''] else if n = 12 then [CHR 0x5C, CHR ''f'']
      else if n = 13 then [CHR 0x5C, CHR ''r'']
      else if n < 32 then [CHR 0x5C, CHR ''u'', CHR ''0'', CHR ''0'', hex_digit (n div 16), hex_digit (n mod 16)]
      else [c])"

definition json_string :: "string \<Rightarrow> string" where
  "json_string s = [CHR 0x22] @ concat (map json_char s) @ [CHR 0x22]"

definition push_payload :: "TriggerFiredEvent \<Rightarrow> string" where
  "push_payload event =
     ''{'' @ json_string ''title'' @ '':'' @ json_string (alertTitle event) @ '','' @
     json_string ''body'' @ '':'' @ json_string (alertText event) @ ''}''"

fun push_loop ::
  "push_env \<Rightarrow> TriggerFiredEvent \<Rightarrow> string \<Rightarrow> PushSubscription list \<Rightarrow> nat \<Rightarrow> failure option \<Rightarrow> nworld \<Rightarrow>
   (failure, nat \<times> failure option) result \<times> nworld" where
  "push_loop env event payload [] delivered lastError w = (Inr (delivered, lastError), w)"
| "push_loop env event payload (sub # rest) delivered lastError w =
     (case pe_send env sub of
        PushOk \<Rightarrow>
          (case transact (pe_mark env (ps_endpoint sub)) (nw_db w)
                  (Inr ((), markDelivered WEB_PUSH (ev_eventId event) (ps_endpoint sub) (nw_db w))) of
             (r, d) \<Rightarrow> push_loop env event payload rest (Suc delivered)
                         (case r of Inr _ \<Rightarrow> lastError | Inl e \<Rightarrow> Some (RepoError e))
                         (w\<lparr>nw_db := d, nw_out := nw_out w @ [PushOut (ps_endpoint sub) payload]\<rparr>))
      | PushErr statusCode msg \<Rightarrow>
          if statusCode = Some 404 \<or> statusCode = Some 410 then
            (case transact (pe_prune env (ps_id sub)) (nw_db w) (removePushSubscription (ps_id sub) (nw_db w)) of
               (Inr _, d) \<Rightarrow> push_loop env event payload rest delivered lastError (w\<lparr>nw_db := d\<rparr>)
             | (Inl e, d) \<Rightarrow> (Inl (RepoError e), w\<lparr>nw_db := d\<rparr>))
          else push_loop env event payload rest delivered (Some (SendError msg)) w
      | PushLost msg \<Rightarrow>
          push_loop env event payload rest delivered (Some (SendError msg)) (w\<lparr>nw_out := nw_out w @ [PushOut (ps_endpoint sub) payload]\<rparr>))"

definition webpush_configured :: "(string \<Rightarrow> cfg) \<Rightarrow> bool" where
  "webpush_configured config \<longleftrightarrow>
     cfg_str '''' (config ''VAPID_PUBLIC_KEY'') \<noteq> '''' \<and> cfg_str '''' (config ''VAPID_PRIVATE_KEY'') \<noteq> ''''"

definition webpush_send :: "bool \<Rightarrow> push_env \<Rightarrow> sender" where
  "webpush_send conf env event w =
     (if \<not> conf then (Inl (PermanentNotificationError ''VAPID keys are not set''), w)
      else if \<not> pe_up env then (Inl (RepoError DbDown), w)
      else let subs = pushSubscriptions (ev_userId event) (nw_db w) in
        if subs = [] then (Inl (PermanentNotificationError ''User has no push subscriptions''), w)
        else let alreadyDelivered = set (deliveredDestinations WEB_PUSH (ev_eventId event) (nw_db w));
                 pending = filter (\<lambda>sub. ps_endpoint sub \<notin> alreadyDelivered) subs
             in if pending = [] then (Inr (), w)
                else case push_loop env event (push_payload event) pending 0 None w of
                  (Inl e, w') \<Rightarrow> (Inl e, w')
                | (Inr (delivered, Some err), w') \<Rightarrow> (Inl err, w')
                | (Inr (delivered, None), w') \<Rightarrow>
                    if delivered = 0 then (Inl (PermanentNotificationError ''All push subscriptions are invalid''), w')
                    else (Inr (), w'))"

section \<open>The registry (channel.registry.ts)\<close>

text \<open>What the implementations are built from, and what the outside world answers on one attempt.\<close>

record outside =
  os_config :: "string \<Rightarrow> cfg"
  os_smtp :: "outbound \<Rightarrow> reply"
  os_telegram :: "outbound \<Rightarrow> reply"
  os_up :: bool
  os_push :: push_env

definition CHANNEL_IMPLEMENTATIONS :: "outside \<Rightarrow> (Channel \<times> sender) list" where
  "CHANNEL_IMPLEMENTATIONS os =
     [(TELEGRAM, telegram_send (os_config os ''TELEGRAM_BOT_TOKEN'') (os_telegram os) (os_up os)),
      (EMAIL, email_send (mail_service (os_config os)) (os_smtp os) (os_up os)),
      (WEB_PUSH, webpush_send (webpush_configured (os_config os)) (os_push os))]"

section \<open>Escaping\<close>

text \<open>A reader of character references, the inverse of \<open>escapeHtml\<close>.\<close>

fun unescapeHtml :: "string \<Rightarrow> string" where
  "unescapeHtml [] = []"
| "unescapeHtml (c # s) =
     (if c \<noteq> CHR ''&'' then c # unescapeHtml s
      else if take 4 s = ''amp;'' then CHR ''&'' # unescapeHtml (drop 4 s)
      else if take 3 s = ''lt;'' then CHR ''<'' # unescapeHtml (drop 3 s)
      else if take 3 s = ''gt;'' then CHR ''>'' # unescapeHtml (drop 3 s)
      else if take 5 s = ''quot;'' then CHR 0x22 # unescapeHtml (drop 5 s)
      else if take 4 s = ''#39;'' then CHR 0x27 # unescapeHtml (drop 4 s)
      else c # unescapeHtml s)"

definition markup :: "char set" where
  "markup = {CHR ''<'', CHR ''>'', CHR 0x22, CHR 0x27}"

lemma escapeHtml_Nil [simp]: "escapeHtml [] = []"
  by (simp add: escapeHtml_def)

lemma escapeHtml_Cons: "escapeHtml (c # s) = (case HTML_ESCAPE c of Some r \<Rightarrow> r | None \<Rightarrow> [c]) @ escapeHtml s"
  by (simp add: escapeHtml_def)

lemma unescape_escape: "unescapeHtml (escapeHtml s) = s"
  by (induction s) (auto simp: escapeHtml_Cons HTML_ESCAPE_def)

lemma escape_no_markup: "set (escapeHtml s) \<inter> markup = {}"
  by (induction s) (auto simp: escapeHtml_Cons HTML_ESCAPE_def markup_def)

text \<open>
  C38: the body of an alert mail is two fixed elements around two texts in which no character can open
  or close markup or an attribute, whatever the user called the trigger and the city; and the reader
  who decodes the character references gets back the title and the text exactly.
\<close>

theorem alertHtml_safe:
  "\<exists>a b. alertHtml event = ''<h2>'' @ a @ ''</h2><p>'' @ b @ ''</p>'' \<and>
     set a \<inter> markup = {} \<and> set b \<inter> markup = {} \<and>
     unescapeHtml a = alertTitle event \<and> unescapeHtml b = alertText event"
  unfolding alertHtml_def using unescape_escape escape_no_markup by blast

section \<open>The fan-out\<close>

definition pushed :: "outbound list \<Rightarrow> string list" where
  "pushed out = map po_endpoint (filter is_PushOut out)"

lemma pushed_simps [simp]: "pushed [] = []" "pushed (x @ y) = pushed x @ pushed y" "pushed [PushOut e p] = [e]"
  by (simp_all add: pushed_def)

lemma pushed_map: "pushed (map (\<lambda>x. PushOut x payload) es) = es"
  by (induction es) (simp_all add: pushed_def)

lemma log_row_markDelivered:
  "log_row c e (markDelivered c e x d) = map_option (\<lambda>n. n\<lparr>n_deliveredTo := n_deliveredTo n @ [x]\<rparr>) (log_row c e d)"
  by (cases "find_unique (is_row c e) (notifications d)")
    (auto simp: log_row_def markDelivered_def find_update_many dest: find_unique_Some)

lemma deliveredDestinations_row:
  "deliveredDestinations c e d = (case log_row c e d of Some n \<Rightarrow> n_deliveredTo n | None \<Rightarrow> [])"
  by (simp add: deliveredDestinations_def log_row_def)

lemma delivered_markDelivered:
  "log_row c e d \<noteq> None \<Longrightarrow> deliveredDestinations c e (markDelivered c e x d) = deliveredDestinations c e d @ [x]"
  by (auto simp: deliveredDestinations_row log_row_markDelivered)

lemma removePushSubscription_keeps:
  assumes "removePushSubscription i d = Inr (u, d')"
  shows "log_row c e d' = log_row c e d" "pushSubs d' = delete_many (\<lambda>s. ps_id s = i) (pushSubs d)"
    "deliveredDestinations c e d' = deliveredDestinations c e d"
  using assms by (auto simp: removePushSubscription_def log_row_def deliveredDestinations_def split: if_splits)

text \<open>
  From \<open>w\<close> to \<open>w'\<close> exactly the endpoints \<open>es\<close> were pushed to, in this order, and \<open>rs\<close> of them recorded on the
  history row; subscriptions were at most removed.
\<close>

definition fan_out :: "ident \<Rightarrow> string \<Rightarrow> nworld \<Rightarrow> string list \<Rightarrow> string list \<Rightarrow> nworld \<Rightarrow> bool" where
  "fan_out e payload w es rs w' \<longleftrightarrow>
     nw_out w' = nw_out w @ map (\<lambda>x. PushOut x payload) es \<and>
     deliveredDestinations WEB_PUSH e (nw_db w') = deliveredDestinations WEB_PUSH e (nw_db w) @ rs \<and>
     (log_row WEB_PUSH e (nw_db w) \<noteq> None \<longrightarrow> log_row WEB_PUSH e (nw_db w') \<noteq> None) \<and>
     (\<exists>p. pushSubs (nw_db w') = delete_many p (pushSubs (nw_db w)))"

lemma delete_many_none: "delete_many (\<lambda>_. False) rows = rows"
  by (simp add: delete_many_def)

lemma delete_many_twice: "delete_many p (delete_many q rows) = delete_many (\<lambda>r. q r \<or> p r) rows"
  by (simp add: delete_many_def conj_commute)

lemma fan_out_trans:
  "fan_out e payload w es rs w' \<Longrightarrow> fan_out e payload w' es' rs' w'' \<Longrightarrow> fan_out e payload w (es @ es') (rs @ rs') w''"
  unfolding fan_out_def using delete_many_twice by fastforce

lemma markDelivered_pushSubs: "pushSubs (markDelivered c e x d) = pushSubs d"
  by (simp add: markDelivered_def)

lemma fan_out_same: "nw_db w' = nw_db w \<Longrightarrow> nw_out w' = nw_out w @ map (\<lambda>x. PushOut x payload) es \<Longrightarrow> fan_out e payload w es [] w'"
  unfolding fan_out_def using delete_many_none [symmetric] by auto

lemma fan_out_refl: "fan_out e payload w [] [] w"
  by (rule fan_out_same) simp_all

lemma fan_out_mark:
  assumes "log_row WEB_PUSH e (nw_db w) \<noteq> None"
    and "transact f (nw_db w) (Inr ((), markDelivered WEB_PUSH e x (nw_db w))) = (r, d)"
  shows "fan_out e payload w [x] (if f = AbortedBefore then [] else [x]) (w\<lparr>nw_db := d, nw_out := nw_out w @ [PushOut x payload]\<rparr>)"
proof (cases "f = AbortedBefore")
  case True
  then show ?thesis using assms(2) by (simp add: fan_out_same)
next
  case False
  then have "d = markDelivered WEB_PUSH e x (nw_db w)" using assms(2) by (cases f) auto
  then show ?thesis using assms(1) False
    by (auto simp: fan_out_def delivered_markDelivered log_row_markDelivered markDelivered_pushSubs
        intro!: exI [of _ "\<lambda>_. False"] simp: delete_many_none)
qed

lemma fan_out_prune:
  assumes "transact c (nw_db w) (removePushSubscription i (nw_db w)) = (r, d)"
  shows "fan_out e payload w [] [] (w\<lparr>nw_db := d\<rparr>)"
proof (cases "d = nw_db w")
  case True
  then show ?thesis by (simp add: fan_out_same)
next
  case False
  then obtain u where "removePushSubscription i (nw_db w) = Inr (u, d)" using transact_cases [OF assms] by auto
  from removePushSubscription_keeps [OF this] show ?thesis by (auto simp: fan_out_def)
qed

text \<open>
  The two ways an attempt can reach an endpoint without a record of it: the answer of the push service is
  lost, or the write that records the destination is.
\<close>

definition slips :: "push_env \<Rightarrow> string \<Rightarrow> bool" where
  "slips env x \<longleftrightarrow> pe_mark env x = AbortedBefore \<or> (\<exists>sub msg. ps_endpoint sub = x \<and> pe_send env sub = PushLost msg)"

text \<open>One attempt: it pushes to pending endpoints only, each at most once, and what it does not record slipped.\<close>

definition one_attempt :: "push_env \<Rightarrow> ident \<Rightarrow> string \<Rightarrow> string set \<Rightarrow> nworld \<Rightarrow> nworld \<Rightarrow> bool" where
  "one_attempt env e payload pending w w' \<longleftrightarrow>
     (\<exists>es rs. fan_out e payload w es rs w' \<and> distinct es \<and> set es \<subseteq> pending \<and> (\<forall>x \<in> set es - set rs. slips env x))"

lemma one_attempt_refl: "one_attempt env e payload pending w w"
  unfolding one_attempt_def using fan_out_refl by fastforce

lemma one_attempt_step:
  assumes "fan_out e payload w es rs w'" and "one_attempt env e payload pending w' w''" and "set es \<inter> pending = {}"
    and "distinct es" and "\<forall>x \<in> set es - set rs. slips env x"
  shows "one_attempt env e payload (set es \<union> pending) w w''"
proof -
  obtain es' rs' where "fan_out e payload w' es' rs' w''" "distinct es'" "set es' \<subseteq> pending" "\<forall>x \<in> set es' - set rs'. slips env x"
    using assms(2) by (auto simp: one_attempt_def)
  then show ?thesis unfolding one_attempt_def using fan_out_trans [OF assms(1)] assms(3-5)
    by (intro exI [of _ "es @ es'"] exI [of _ "rs @ rs'"]) auto
qed

lemma one_attempt_mono: "one_attempt env e payload A w w' \<Longrightarrow> A \<subseteq> B \<Longrightarrow> one_attempt env e payload B w w'"
  unfolding one_attempt_def by blast

lemma push_loop_attempt:
  assumes "log_row WEB_PUSH (ev_eventId event) (nw_db w) \<noteq> None" and "distinct (map ps_endpoint subs)"
    and "push_loop env event payload subs n le w = (r, w')"
  shows "one_attempt env (ev_eventId event) payload (ps_endpoint ` set subs) w w'"
  using assms
proof (induction subs arbitrary: n le w)
  case Nil
  then show ?case by (simp add: one_attempt_refl)
next
  case (Cons sub subs)
  let ?e = "ev_eventId event" and ?x = "ps_endpoint sub"
  have fresh: "?x \<notin> ps_endpoint ` set subs" and dist: "distinct (map ps_endpoint subs)" using Cons.prems(2) by auto
  have go: "one_attempt env ?e payload (ps_endpoint ` set (sub # subs)) w w'"
    if f: "fan_out ?e payload w es rs v" and "set es \<subseteq> {?x}" "distinct es" "\<forall>x \<in> set es - set rs. slips env x"
      and run: "push_loop env event payload subs m le' v = (r, w')" for es rs v m le'
  proof -
    have "log_row WEB_PUSH ?e (nw_db v) \<noteq> None" using f Cons.prems(1) unfolding fan_out_def by blast
    moreover have "set es \<inter> ps_endpoint ` set subs = {}" using that(2) fresh by (metis disjoint_iff singletonD subsetD)
    ultimately have "one_attempt env ?e payload (set es \<union> ps_endpoint ` set subs) w w'"
      using one_attempt_step [OF f Cons.IH [OF _ dist run] _ that(3,4)] by blast
    then show ?thesis by (rule one_attempt_mono) (use that(2) in auto)
  qed
  show ?case
  proof (cases "pe_send env sub")
    case PushOk
    obtain y d where y: "transact (pe_mark env ?x) (nw_db w) (Inr ((), markDelivered WEB_PUSH ?e ?x (nw_db w))) = (y, d)" by force
    show ?thesis by (rule go [OF fan_out_mark [OF Cons.prems(1) y]]) (use Cons.prems(3) PushOk y in \<open>auto simp: slips_def\<close>)
  next
    case (PushLost msg)
    show ?thesis
      by (rule go [of "[?x]" "[]" "w\<lparr>nw_out := nw_out w @ [PushOut ?x payload]\<rparr>"])
        (use Cons.prems(3) PushLost in \<open>auto simp: slips_def fan_out_same\<close>)
  next
    case (PushErr st msg)
    show ?thesis
    proof (cases "st = Some 404 \<or> st = Some 410")
      case False
      then show ?thesis using go [OF fan_out_refl] Cons.prems(3) PushErr by auto
    next
      case True
      obtain y d where y: "transact (pe_prune env (ps_id sub)) (nw_db w) (removePushSubscription (ps_id sub) (nw_db w)) = (y, d)" by force
      have f: "fan_out ?e payload w [] [] (w\<lparr>nw_db := d\<rparr>)" using y by (rule fan_out_prune)
      show ?thesis
      proof (cases y)
        case (Inl err)
        then have "w' = w\<lparr>nw_db := d\<rparr>" using Cons.prems(3) True PushErr y by auto
        then show ?thesis using one_attempt_step [OF f one_attempt_refl [where pending = "{}"]] one_attempt_mono by fastforce
      next
        case (Inr u)
        then show ?thesis using go [OF f] Cons.prems(3) True PushErr y by auto
      qed
    qed
  qed
qed

lemma webpush_attempt:
  assumes "log_row WEB_PUSH (ev_eventId event) (nw_db w) \<noteq> None" and "distinct (map ps_endpoint (pushSubs (nw_db w)))"
    and "webpush_send conf env event w = (r, w')"
  shows "one_attempt env (ev_eventId event) (push_payload event)
    (- set (deliveredDestinations WEB_PUSH (ev_eventId event) (nw_db w))) w w'"
proof (cases "w' = w")
  case True
  then show ?thesis by (simp add: one_attempt_refl)
next
  case False
  let ?p = "filter (\<lambda>sub. ps_endpoint sub \<notin> set (deliveredDestinations WEB_PUSH (ev_eventId event) (nw_db w)))
              (pushSubscriptions (ev_userId event) (nw_db w))"
  obtain q where q: "push_loop env event (push_payload event) ?p 0 None w = (q, w')"
    using assms(3) False by (auto simp: webpush_send_def Let_def split: if_splits prod.splits sum.splits option.splits)
  have "distinct (map ps_endpoint ?p)" using assms(2) by (simp add: pushSubscriptions_def find_many_def distinct_map_filter)
  from push_loop_attempt [OF assms(1) this q] show ?thesis by (rule one_attempt_mono) auto
qed

text \<open>Attempts of one event, each with its own outside world, until the broker stops redelivering.\<close>

definition webpush_attempts :: "bool \<Rightarrow> push_env list \<Rightarrow> TriggerFiredEvent \<Rightarrow> nworld \<Rightarrow> nworld" where
  "webpush_attempts conf envs event w = fold (\<lambda>env w. snd (webpush_send conf env event w)) envs w"

lemma distinct_count: "distinct es \<Longrightarrow> count_list es x = (if x \<in> set es then 1 else 0)"
  by (induction es) auto

text \<open>
  C14: over any number of attempts of one event, whatever the push services answer and whatever fails in the
  database, a device whose delivery is on record is not notified again, and any other is notified at most once,
  plus once for each attempt in which the answer of its push service or the write that records it was lost.
\<close>

theorem webpush_repeats_only_slips:
  assumes "log_row WEB_PUSH (ev_eventId event) (nw_db w) \<noteq> None"
    and "distinct (map ps_endpoint (pushSubs (nw_db w)))"
  shows "count_list (pushed (nw_out (webpush_attempts conf envs event w))) x \<le> count_list (pushed (nw_out w)) x +
    (if x \<in> set (deliveredDestinations WEB_PUSH (ev_eventId event) (nw_db w)) then 0
     else 1 + length (filter (\<lambda>env. slips env x) envs))"
  using assms
proof (induction envs arbitrary: w)
  case Nil
  show ?case by (simp add: webpush_attempts_def)
next
  case (Cons env envs)
  let ?e = "ev_eventId event"
  let ?D = "\<lambda>w. set (deliveredDestinations WEB_PUSH ?e (nw_db w))"
  obtain r w' where run: "webpush_send conf env event w = (r, w')" by force
  obtain es rs where f: "fan_out ?e (push_payload event) w es rs w'" "distinct es" "set es \<subseteq> - ?D w" "\<forall>y \<in> set es - set rs. slips env y"
    using webpush_attempt [OF Cons.prems run] by (auto simp: one_attempt_def)
  have row: "log_row WEB_PUSH ?e (nw_db w') \<noteq> None" using f(1) Cons.prems(1) unfolding fan_out_def by blast
  obtain p where "pushSubs (nw_db w') = delete_many p (pushSubs (nw_db w))" using f(1) unfolding fan_out_def by blast
  then have dist: "distinct (map ps_endpoint (pushSubs (nw_db w')))" using Cons.prems(2) by simp
  have out: "count_list (pushed (nw_out w')) x = count_list (pushed (nw_out w)) x + (if x \<in> set es then 1 else 0)"
    and rec: "?D w' = ?D w \<union> set rs" using f(1,2) by (simp_all add: fan_out_def pushed_map distinct_count)
  have "webpush_attempts conf (env # envs) event w = webpush_attempts conf envs event w'" by (simp add: webpush_attempts_def run)
  then show ?case using Cons.IH [OF row dist] out rec f(3,4) by (auto split: if_splits)
qed

definition two_phones :: nworld where
  "two_phones = \<lparr>nw_db = small_db\<lparr>notifications := [rowFor ''n1'' 0 WEB_PUSH heat_event PENDING None],
      pushSubs := [\<lparr>ps_id = ''s1'', ps_userId = ''u1'', ps_endpoint = ''https://a'', ps_p256dh = ''k'', ps_auth = ''x'', ps_createdAt = 0\<rparr>,
                   \<lparr>ps_id = ''s2'', ps_userId = ''u1'', ps_endpoint = ''https://b'', ps_p256dh = ''k'', ps_auth = ''x'', ps_createdAt = 0\<rparr>]\<rparr>,
    nw_out = []\<rparr>"

definition flaky_push :: "string \<Rightarrow> push_env" where
  "flaky_push bad = \<lparr>pe_up = True, pe_send = (\<lambda>s. if ps_endpoint s = bad then PushErr (Some 503) ''busy'' else PushOk),
     pe_mark = (\<lambda>_. Committed), pe_prune = (\<lambda>_. Committed)\<rparr>"

text \<open>The first attempt reaches the second phone and records it; the second loses the answer of the first one.\<close>

definition lost_push :: push_env where
  "lost_push = (flaky_push [])\<lparr>pe_send := (\<lambda>_. PushLost ''socket hang up'')\<rparr>"

theorem webpush_repeats_only_slips_witness:
  "pushed (nw_out (webpush_attempts True [flaky_push ''https://a'', lost_push, flaky_push []] heat_event two_phones)) =
     [''https://b'', ''https://a'', ''https://a''] \<and>
   count_list (pushed (nw_out (webpush_attempts True [flaky_push ''https://a'', lost_push, flaky_push []] heat_event two_phones))) ''https://a''
     \<le> count_list (pushed (nw_out two_phones)) ''https://a'' +
       (if ''https://a'' \<in> set (deliveredDestinations WEB_PUSH (ev_eventId heat_event) (nw_db two_phones)) then 0
        else 1 + length (filter (\<lambda>env. slips env ''https://a'') [flaky_push ''https://a'', lost_push, flaky_push []]))"
proof
  show "pushed (nw_out (webpush_attempts True [flaky_push ''https://a'', lost_push, flaky_push []] heat_event two_phones)) =
     [''https://b'', ''https://a'', ''https://a'']" by code_simp
qed (rule webpush_repeats_only_slips;
    simp add: two_phones_def log_row_def find_unique_def is_row_def rowFor_def small_db_defs)

end
