(* ===== verification/Notifier.thy ===== *)
theory Notifier
  imports Channels
begin

text \<open>
  \<open>apps/notifier/src/notifier.service.ts\<close>: one attempt to deliver an event on a channel, and the system
  of any number of consumers whose attempts on the same pair interleave statement by statement, may
  lose answers, and may die at any point.
\<close>

section \<open>The service\<close>

definition CLAIM_LEASE_MS :: int where
  "CLAIM_LEASE_MS = 60000"

datatype DispatchOutcome = sent | skipped

fun channel_value :: "Channel \<Rightarrow> string" where
  "channel_value TELEGRAM = ''TELEGRAM''"
| "channel_value EMAIL = ''EMAIL''"
| "channel_value WEB_PUSH = ''WEB_PUSH''"

text \<open>\<open>Error.message\<close>; the texts of the database client's own errors are an argument.\<close>

fun failure_message :: "(db_error \<Rightarrow> string) \<Rightarrow> failure \<Rightarrow> string" where
  "failure_message dbMsg (PermanentNotificationError m) = m"
| "failure_message dbMsg (DeliveryInFlightError channel) = ''Another consumer is already delivering this event on '' @ channel_value channel"
| "failure_message dbMsg (SendError m) = m"
| "failure_message dbMsg (RepoError e) = dbMsg e"

definition registeredChannels :: "(Channel \<times> sender) list \<Rightarrow> Channel list" where
  "registeredChannels senders = map fst senders"

text \<open>The clock readings, generated ids and statement fates of one attempt.\<close>

record dispatch_env =
  de_clock :: instant
  de_claim :: claim_env
  de_release :: commit
  de_settle :: commit
  de_id :: ident
  de_now :: instant

definition notifier_settle ::
  "dispatch_env \<Rightarrow> Channel \<Rightarrow> TriggerFiredEvent \<Rightarrow> NotifStatus \<Rightarrow> string option \<Rightarrow> nworld \<Rightarrow> (failure, unit) result \<times> nworld" where
  "notifier_settle env channel event status error w =
     (case settle (de_settle env) (de_id env) (de_now env) channel event status error (nw_db w) of
        (r, d) \<Rightarrow> (map_sum RepoError id r, w\<lparr>nw_db := d\<rparr>))"

text \<open>Best effort: a failed write is logged and dropped.\<close>

definition notifier_releaseClaim :: "dispatch_env \<Rightarrow> Channel \<Rightarrow> TriggerFiredEvent \<Rightarrow> nworld \<Rightarrow> nworld" where
  "notifier_releaseClaim env channel event w =
     w\<lparr>nw_db := snd (releaseClaim (de_release env) channel (ev_eventId event) (nw_db w))\<rparr>"

definition dispatch ::
  "dispatch_env \<Rightarrow> (Channel \<times> sender) list \<Rightarrow> Channel \<Rightarrow> TriggerFiredEvent \<Rightarrow> nworld \<Rightarrow>
   (failure, DispatchOutcome) result \<times> nworld" where
  "dispatch env senders channel event w =
     (case map_of senders channel of
        None \<Rightarrow> (Inl (PermanentNotificationError (''No implementation registered for channel '' @ channel_value channel)), w)
      | Some send \<Rightarrow>
          (case claim (de_claim env) channel event (de_clock env - CLAIM_LEASE_MS) (nw_db w) of
             (Inl e, d) \<Rightarrow> (Inl (RepoError e), w\<lparr>nw_db := d\<rparr>)
           | (Inr duplicate, d) \<Rightarrow> (Inr skipped, w\<lparr>nw_db := d\<rparr>)
           | (Inr in_flight, d) \<Rightarrow> (Inl (DeliveryInFlightError channel), w\<lparr>nw_db := d\<rparr>)
           | (Inr claimed, d) \<Rightarrow>
               (case send event (w\<lparr>nw_db := d\<rparr>) of
                  (Inl err, w') \<Rightarrow> (Inl err, notifier_releaseClaim env channel event w')
                | (Inr _, w') \<Rightarrow>
                    (case notifier_settle env channel event SENT None w' of
                       (Inl err, w'') \<Rightarrow> (Inl err, w'')
                     | (Inr _, w'') \<Rightarrow> (Inr sent, w'')))))"

section \<open>Interleaved consumers\<close>

text \<open>Where one consumer is inside \<open>dispatch\<close>, with the clock readings it holds on to.\<close>

datatype pc =
    Idle
  | Creating instant instant
  | Updating instant instant
  | Reading instant
  | Sending instant
  | Settling instant
  | Releasing instant

fun started :: "pc \<Rightarrow> instant option" where
  "started Idle = None"
| "started (Creating _ now) = Some now"
| "started (Updating _ now) = Some now"
| "started (Reading now) = Some now"
| "started (Sending now) = Some now"
| "started (Settling now) = Some now"
| "started (Releasing now) = Some now"

fun holds :: "pc \<Rightarrow> instant option" where
  "holds (Sending now) = Some now"
| "holds (Settling now) = Some now"
| "holds (Releasing now) = Some now"
| "holds _ = None"

fun waits :: "pc \<Rightarrow> bool" where
  "waits (Updating _ _) = True"
| "waits (Reading _) = True"
| "waits _ = False"

fun after_create :: "instant \<Rightarrow> instant \<Rightarrow> (db_error, unit) result \<Rightarrow> pc" where
  "after_create t0 now (Inr _) = Sending now"
| "after_create t0 now (Inl e) = (if e = UniqueViolation then Updating t0 now else Idle)"

fun after_update :: "instant \<Rightarrow> (db_error, nat) result \<Rightarrow> pc" where
  "after_update now (Inl _) = Idle"
| "after_update now (Inr n) = (if 0 < n then Sending now else Reading now)"

definition after_read :: "instant \<Rightarrow> bool \<Rightarrow> ClaimResult \<Rightarrow> pc" where
  "after_read now up r = (if up \<and> r = claimed then Sending now else Idle)"

text \<open>
  The shared database, the wall clock, the consumers, and three ghosts: how often a send was answered with success, how
  often a success was not recorded, and how often a recorded success was overwritten with FAILED.
\<close>

record dsys =
  sy_db :: db
  sy_clock :: instant
  sy_pc :: "nat \<Rightarrow> pc"
  sy_delivered :: nat
  sy_orphaned :: nat
  sy_overwritten :: nat

definition is_sent :: "(NotifStatus \<times> instant option) option \<Rightarrow> bool" where
  "is_sent l \<longleftrightarrow> (\<exists>t. l = Some (SENT, t))"

text \<open>
  \<open>other\<close> is any statement that leaves this row's status and lease alone; the row is not deleted, which a user's
  clearing of the history may do at any time (and then the alert may go out again). \<open>tick\<close> carries the timing
  assumption of the service: an attempt ends before its own lease does. \<open>failed\<close> is the settle of a
  message whose attempts are exhausted, whoever holds the row then.
\<close>

inductive dstep :: "Channel \<Rightarrow> TriggerFiredEvent \<Rightarrow> dsys \<Rightarrow> dsys \<Rightarrow> bool" for c ev where
  start: "sy_pc s i = Idle \<Longrightarrow> t0 \<le> sy_clock s \<Longrightarrow>
    dstep c ev s (s\<lparr>sy_pc := (sy_pc s)(i := Creating t0 (sy_clock s))\<rparr>)"
| create: "sy_pc s i = Creating t0 now \<Longrightarrow>
    transact f (sy_db s) (map_sum id (Pair ()) (claim_create n now c ev (sy_db s))) = (r, d) \<Longrightarrow>
    dstep c ev s (s\<lparr>sy_db := d, sy_pc := (sy_pc s)(i := after_create t0 now r)\<rparr>)"
| update: "sy_pc s i = Updating t0 now \<Longrightarrow>
    transact f (sy_db s) (Inr (claim_update now c (ev_eventId ev) (t0 - CLAIM_LEASE_MS) (sy_db s))) = (u, d) \<Longrightarrow>
    dstep c ev s (s\<lparr>sy_db := d, sy_pc := (sy_pc s)(i := after_update now u)\<rparr>)"
| read: "sy_pc s i = Reading now \<Longrightarrow>
    dstep c ev s (s\<lparr>sy_pc := (sy_pc s)(i := after_read now up (claim_read c (ev_eventId ev) (sy_db s)))\<rparr>)"
| send_ok: "sy_pc s i = Sending now \<Longrightarrow>
    dstep c ev s (s\<lparr>sy_pc := (sy_pc s)(i := Settling now), sy_delivered := Suc (sy_delivered s)\<rparr>)"
| send_failed: "sy_pc s i = Sending now \<Longrightarrow> dstep c ev s (s\<lparr>sy_pc := (sy_pc s)(i := Releasing now)\<rparr>)"
| settle: "sy_pc s i = Settling now \<Longrightarrow> settle f n t c ev SENT None (sy_db s) = (x, d) \<Longrightarrow>
    dstep c ev s (s\<lparr>sy_db := d, sy_pc := (sy_pc s)(i := Idle),
      sy_orphaned := sy_orphaned s + (if is_sent (lease c (ev_eventId ev) d) then 0 else 1)\<rparr>)"
| release: "sy_pc s i = Releasing now \<Longrightarrow> releaseClaim f c (ev_eventId ev) (sy_db s) = (x, d) \<Longrightarrow>
    dstep c ev s (s\<lparr>sy_db := d, sy_pc := (sy_pc s)(i := Idle)\<rparr>)"
| failed: "settle f n t c ev FAILED (Some msg) (sy_db s) = (x, d) \<Longrightarrow>
    dstep c ev s (s\<lparr>sy_db := d, sy_overwritten := sy_overwritten s +
      (if is_sent (lease c (ev_eventId ev) (sy_db s)) \<and> \<not> is_sent (lease c (ev_eventId ev) d) then 1 else 0)\<rparr>)"
| die: "dstep c ev s (s\<lparr>sy_pc := (sy_pc s)(i := Idle),
      sy_orphaned := sy_orphaned s + (if \<exists>now. sy_pc s i = Settling now then 1 else 0)\<rparr>)"
| other: "log_keys d \<Longrightarrow> lease c (ev_eventId ev) d = lease c (ev_eventId ev) (sy_db s) \<Longrightarrow> dstep c ev s (s\<lparr>sy_db := d\<rparr>)"
| tick: "sy_clock s \<le> t \<Longrightarrow> \<forall>i now. started (sy_pc s i) = Some now \<longrightarrow> t - CLAIM_LEASE_MS \<le> now \<Longrightarrow>
    dstep c ev s (s\<lparr>sy_clock := t\<rparr>)"

definition dinit :: "db \<Rightarrow> instant \<Rightarrow> dsys" where
  "dinit d t = \<lparr>sy_db = d, sy_clock = t, sy_pc = (\<lambda>_. Idle), sy_delivered = 0, sy_orphaned = 0, sy_overwritten = 0\<rparr>"

abbreviation druns :: "Channel \<Rightarrow> TriggerFiredEvent \<Rightarrow> dsys \<Rightarrow> dsys \<Rightarrow> bool" where
  "druns c ev \<equiv> (dstep c ev)\<^sup>*\<^sup>*"

section \<open>The invariant\<close>

definition timely :: "dsys \<Rightarrow> bool" where
  "timely s \<longleftrightarrow> (\<forall>i now. started (sy_pc s i) = Some now \<longrightarrow> sy_clock s - CLAIM_LEASE_MS \<le> now) \<and>
     (\<forall>i t0 now. sy_pc s i = Creating t0 now \<or> sy_pc s i = Updating t0 now \<longrightarrow> t0 \<le> sy_clock s)"

definition holder_leased :: "(nat \<Rightarrow> pc) \<Rightarrow> (NotifStatus \<times> instant option) option \<Rightarrow> bool" where
  "holder_leased pcs l \<longleftrightarrow>
     (\<forall>i now. holds (pcs i) = Some now \<longrightarrow> (\<exists>st. l = Some (st, Some now) \<and> st \<noteq> SENT)) \<and>
     (\<forall>i j. holds (pcs i) \<noteq> None \<and> holds (pcs j) \<noteq> None \<longrightarrow> i = j) \<and>
     (\<forall>i. waits (pcs i) \<longrightarrow> l \<noteq> None)"

definition settling :: "(nat \<Rightarrow> pc) \<Rightarrow> bool" where
  "settling pcs \<longleftrightarrow> (\<exists>i now. pcs i = Settling now)"

definition accounted :: "dsys \<Rightarrow> (NotifStatus \<times> instant option) option \<Rightarrow> bool" where
  "accounted s l \<longleftrightarrow>
     sy_delivered s \<le> (if is_sent l \<or> settling (sy_pc s) then 1 else 0) + sy_orphaned s + sy_overwritten s"

definition dinv :: "Channel \<Rightarrow> TriggerFiredEvent \<Rightarrow> dsys \<Rightarrow> bool" where
  "dinv c ev s \<longleftrightarrow> log_keys (sy_db s) \<and> timely s \<and> holder_leased (sy_pc s) (lease c (ev_eventId ev) (sy_db s)) \<and>
     accounted s (lease c (ev_eventId ev) (sy_db s))"


lemma dinv_init: "log_keys d \<Longrightarrow> dinv c ev (dinit d t)"
  by (simp add: dinv_def dinit_def timely_def holder_leased_def accounted_def)

text \<open>Whoever finds the lease free at a time it may still be held finds nobody holding it.\<close>

lemma free_no_holder:
  assumes "timely s" and "holder_leased (sy_pc s) l" and "free (t0 - CLAIM_LEASE_MS) l" and "t0 \<le> sy_clock s"
  shows "holds (sy_pc s j) = None"
proof (rule ccontr)
  assume "holds (sy_pc s j) \<noteq> None"
  then obtain now where h: "holds (sy_pc s j) = Some now" by blast
  then have "started (sy_pc s j) = Some now" by (cases "sy_pc s j") auto
  then have "sy_clock s - CLAIM_LEASE_MS \<le> now" using assms(1) by (auto simp: timely_def)
  moreover have "now < t0 - CLAIM_LEASE_MS" using h assms(2,3) by (fastforce simp: holder_leased_def free_def)
  ultimately show False using assms(4) by simp
qed

lemma settling_holds: "settling pcs \<Longrightarrow> \<exists>i. holds (pcs i) \<noteq> None"
  by (auto simp: settling_def) (metis holds.simps(2) option.distinct(1))

lemma holder_not_sent: "holder_leased pcs l \<Longrightarrow> holds (pcs i) \<noteq> None \<Longrightarrow> \<not> is_sent l"
  by (fastforce simp: holder_leased_def is_sent_def)

lemma timely_upd:
  "timely s \<Longrightarrow> (\<And>now. started p = Some now \<Longrightarrow> sy_clock s - CLAIM_LEASE_MS \<le> now) \<Longrightarrow>
   (\<And>t0 now. p = Creating t0 now \<or> p = Updating t0 now \<Longrightarrow> t0 \<le> sy_clock s) \<Longrightarrow>
   sy_clock s' = sy_clock s \<Longrightarrow> sy_pc s' = (sy_pc s)(i := p) \<Longrightarrow> timely s'"
  unfolding timely_def by (auto split: if_splits)

lemma timely_now: "timely s \<Longrightarrow> started (sy_pc s i) = Some now \<Longrightarrow> sy_clock s - CLAIM_LEASE_MS \<le> now"
  by (simp add: timely_def)

text \<open>Taking the lease makes the taker the only holder.\<close>

lemma take_lease:
  assumes "dinv c ev s" and "free (t0 - CLAIM_LEASE_MS) (lease c (ev_eventId ev) (sy_db s))" and "t0 \<le> sy_clock s"
    and "log_keys d" and "lease c (ev_eventId ev) d = Some (PENDING, Some now)"
    and "started (sy_pc s i) = Some now" and "p = Sending now \<or> p = Idle"
  shows "dinv c ev (s\<lparr>sy_db := d, sy_pc := (sy_pc s)(i := p)\<rparr>)"
proof -
  have inv: "timely s" "holder_leased (sy_pc s) (lease c (ev_eventId ev) (sy_db s))"
    "accounted s (lease c (ev_eventId ev) (sy_db s))" using assms(1) by (auto simp: dinv_def)
  have nobody: "holds (sy_pc s j) = None" for j using free_no_holder [OF inv(1,2) assms(2,3)] .
  have "\<not> is_sent (lease c (ev_eventId ev) (sy_db s))" using assms(2) by (auto simp: is_sent_def free_def)
  moreover have "\<not> settling (sy_pc s)" using settling_holds [of "sy_pc s"] nobody by auto
  ultimately have "sy_delivered s \<le> sy_orphaned s + sy_overwritten s" using inv(3) by (simp add: accounted_def)
  moreover have "holder_leased ((sy_pc s)(i := p)) (Some (PENDING, Some now))"
    using nobody assms(7) by (auto simp: holder_leased_def)
  moreover have "timely (s\<lparr>sy_db := d, sy_pc := (sy_pc s)(i := p)\<rparr>)"
    by (rule timely_upd [OF inv(1), of p]) (use assms(6,7) timely_now [OF inv(1)] in auto)
  ultimately show ?thesis using assms(4,5) by (simp add: dinv_def accounted_def)
qed

lemma holder_leased_upd:
  assumes "holder_leased pcs l" and "holds p = None \<or> holds p = holds (pcs i)" and "waits p \<Longrightarrow> l \<noteq> None"
  shows "holder_leased (pcs(i := p)) l"
proof -
  have sub: "holds ((pcs(i := p)) j) = Some now \<Longrightarrow> holds (pcs j) = Some now" for j now using assms(2) by (cases "j = i") auto
  then have "holds ((pcs(i := p)) j) \<noteq> None \<Longrightarrow> holds (pcs j) \<noteq> None" for j by blast
  moreover have "waits ((pcs(i := p)) j) \<Longrightarrow> l \<noteq> None" for j
    using assms(1,3) by (cases "j = i") (auto simp: holder_leased_def)
  ultimately show ?thesis using assms(1) sub unfolding holder_leased_def by meson
qed

text \<open>A consumer that moves on without taking or giving up a lease.\<close>

lemma move_on:
  assumes "dinv c ev s" and "log_keys d" and "lease c (ev_eventId ev) d = lease c (ev_eventId ev) (sy_db s)"
    and "holds p = None \<or> holds p = holds (sy_pc s i)"
    and "\<And>now. started p = Some now \<Longrightarrow> sy_clock s - CLAIM_LEASE_MS \<le> now"
    and "\<And>t0 now. p = Creating t0 now \<or> p = Updating t0 now \<Longrightarrow> t0 \<le> sy_clock s"
    and "waits p \<Longrightarrow> lease c (ev_eventId ev) d \<noteq> None"
    and "k = (if \<exists>now. sy_pc s i = Settling now then 1 else 0)" and "\<nexists>now. p = Settling now"
  shows "dinv c ev (s\<lparr>sy_db := d, sy_pc := (sy_pc s)(i := p), sy_orphaned := sy_orphaned s + k\<rparr>)"
proof -
  have inv: "timely s" "holder_leased (sy_pc s) (lease c (ev_eventId ev) (sy_db s))"
    "accounted s (lease c (ev_eventId ev) (sy_db s))" using assms(1) by (auto simp: dinv_def)
  have "holder_leased ((sy_pc s)(i := p)) (lease c (ev_eventId ev) (sy_db s))"
    using holder_leased_upd [OF inv(2) assms(4)] assms(3,7) by simp
  moreover have "timely (s\<lparr>sy_db := d, sy_pc := (sy_pc s)(i := p), sy_orphaned := sy_orphaned s + k\<rparr>)"
    by (rule timely_upd [OF inv(1), of p]) (use assms(5,6) in auto)
  moreover have "settling ((sy_pc s)(i := p)) \<or> k = 1" if "settling (sy_pc s)"
    using that assms(8) by (auto simp: settling_def)
  then have "accounted (s\<lparr>sy_db := d, sy_pc := (sy_pc s)(i := p), sy_orphaned := sy_orphaned s + k\<rparr>)
      (lease c (ev_eventId ev) (sy_db s))" using inv(3) unfolding accounted_def by (auto split: if_splits)
  ultimately show ?thesis using assms(2,3) by (simp add: dinv_def)
qed

lemma move_on0:
  assumes "dinv c ev s" and "log_keys d" and "lease c (ev_eventId ev) d = lease c (ev_eventId ev) (sy_db s)"
    and "holds p = None \<or> holds p = holds (sy_pc s i)" and "\<nexists>now. sy_pc s i = Settling now" and "\<nexists>now. p = Settling now"
    and "started p = None \<or> started p = started (sy_pc s i)"
    and "\<And>t0 now. p = Creating t0 now \<or> p = Updating t0 now \<Longrightarrow> t0 \<le> sy_clock s"
    and "waits p \<Longrightarrow> lease c (ev_eventId ev) d \<noteq> None"
  shows "dinv c ev (s\<lparr>sy_db := d, sy_pc := (sy_pc s)(i := p)\<rparr>)"
proof -
  have t: "timely s" using assms(1) by (simp add: dinv_def)
  have "dinv c ev (s\<lparr>sy_db := d, sy_pc := (sy_pc s)(i := p), sy_orphaned := sy_orphaned s + 0\<rparr>)"
    by (rule move_on [OF assms(1-4)]) (use assms(5-9) timely_now [OF t, of i] in auto)
  then show ?thesis by (simp add: dinv_def timely_def accounted_def)
qed

lemma dinv_t0: "dinv c ev s \<Longrightarrow> sy_pc s i = Creating t0 now \<or> sy_pc s i = Updating t0 now \<Longrightarrow> t0 \<le> sy_clock s"
  by (auto simp: dinv_def timely_def)

lemma holder_leased_waits: "holder_leased pcs l \<Longrightarrow> waits (pcs i) \<Longrightarrow> l \<noteq> None"
  unfolding holder_leased_def by blast

lemma dinv_create:
  assumes inv: "dinv c ev s" and pc: "sy_pc s i = Creating t0 now"
    and run: "transact f (sy_db s) (map_sum id (Pair ()) (claim_create n now c ev (sy_db s))) = (r, d)"
  shows "dinv c ev (s\<lparr>sy_db := d, sy_pc := (sy_pc s)(i := after_create t0 now r)\<rparr>)"
proof (cases "claim_create n now c ev (sy_db s)")
  case (Inr d')
  have k: "log_keys (sy_db s)" using inv by (simp add: dinv_def)
  from dlog.insert_takes [OF Inr] have free: "free (t0 - CLAIM_LEASE_MS) (lease c (ev_eventId ev) (sy_db s))"
    and l: "lease c (ev_eventId ev) d' = Some (PENDING, Some now)" by (auto simp: free_def)
  show ?thesis
  proof (cases "f = AbortedBefore")
    case True
    then have "d = sy_db s" "after_create t0 now r = Idle" using run Inr by auto
    then show ?thesis using move_on0 [OF inv k refl, of Idle i] pc by simp
  next
    case False
    then have "d = d'" "after_create t0 now r = Sending now \<or> after_create t0 now r = Idle" using run Inr by (cases f; auto)+
    then show ?thesis using take_lease [OF inv free dinv_t0 [OF inv] dlog.insert_sound [OF k Inr] l, of i] pc by auto
  qed
next
  case (Inl e)
  then have "d = sy_db s" "r = Inl e" using run by (cases f; auto)+
  moreover have "log_keys (sy_db s)" using inv by (simp add: dinv_def)
  moreover have "lease c (ev_eventId ev) (sy_db s) \<noteq> None" if "e = UniqueViolation" using Inl that dlog.insert_refused by simp
  ultimately show ?thesis using move_on0 [OF inv _ refl, of "after_create t0 now r" i] pc dinv_t0 [OF inv, of i] by auto
qed

lemma dinv_update:
  assumes inv: "dinv c ev s" and pc: "sy_pc s i = Updating t0 now"
    and run: "transact f (sy_db s) (Inr (claim_update now c (ev_eventId ev) (t0 - CLAIM_LEASE_MS) (sy_db s))) = (u, d)"
  shows "dinv c ev (s\<lparr>sy_db := d, sy_pc := (sy_pc s)(i := after_update now u)\<rparr>)"
proof -
  have k: "log_keys (sy_db s)" using inv by (simp add: dinv_def)
  have some: "lease c (ev_eventId ev) (sy_db s) \<noteq> None" 
    using inv pc holder_leased_waits [of "sy_pc s" _ i] by (simp add: dinv_def)
  obtain n d' where t: "claim_update now c (ev_eventId ev) (t0 - CLAIM_LEASE_MS) (sy_db s) = (n, d')" by force
  show ?thesis
  proof (cases "0 < n \<and> f \<noteq> AbortedBefore")
    case True
    then have "d = d'" "after_update now u = Sending now \<or> after_update now u = Idle" using run t by (cases f; auto)+
    moreover have "free (t0 - CLAIM_LEASE_MS) (lease c (ev_eventId ev) (sy_db s))" "log_keys d'"
      "lease c (ev_eventId ev) d' = Some (PENDING, Some now)"
      using True dlog.take_over_iff [OF k t] dlog.take_over_sound [OF k t] dlog.take_over_takes [OF k t] by auto
    ultimately show ?thesis using take_lease [OF inv _ dinv_t0 [OF inv], of t0 i now d now i] pc by auto
  next
    case False
    then have "d = sy_db s" "after_update now u = Reading now \<or> after_update now u = Idle"
      using run t dlog.take_over_idle [OF k] by (cases f; auto)+
    then show ?thesis using move_on0 [OF inv k refl, of "after_update now u" i] pc some by auto
  qed
qed

text \<open>Ending an attempt: the only holder lets go, whatever it wrote about the row.\<close>

lemma let_go:
  assumes inv: "dinv c ev s" and h: "holds (sy_pc s i) = Some now" and k: "log_keys d"
    and l: "lease c (ev_eventId ev) d = Some x"
    and m: "sy_delivered s \<le> (if is_sent (Some x) then 1 else 0) + sy_orphaned s + n + sy_overwritten s"
  shows "dinv c ev (s\<lparr>sy_db := d, sy_pc := (sy_pc s)(i := Idle), sy_orphaned := sy_orphaned s + n\<rparr>)"
proof -
  have hl: "holder_leased (sy_pc s) (lease c (ev_eventId ev) (sy_db s))" and t: "timely s" using inv by (auto simp: dinv_def)
  then have "holds (sy_pc s j) = None" if "j \<noteq> i" for j using h that unfolding holder_leased_def by (metis option.distinct(1))
  then have "holder_leased ((sy_pc s)(i := Idle)) (Some x)" by (auto simp: holder_leased_def)
  moreover have "timely (s\<lparr>sy_db := d, sy_pc := (sy_pc s)(i := Idle), sy_orphaned := sy_orphaned s + n\<rparr>)"
    by (rule timely_upd [OF t, of Idle]) auto
  moreover have "accounted (s\<lparr>sy_db := d, sy_pc := (sy_pc s)(i := Idle), sy_orphaned := sy_orphaned s + n\<rparr>) (Some x)"
    using m by (auto simp: accounted_def split: if_splits)
  ultimately show ?thesis using k l by (simp add: dinv_def)
qed

lemma settle_outcome:
  assumes "settle f n t c ev st msg d = (r, d')" and "log_keys d"
  shows "log_keys d'" "d' = d \<or> lease c (ev_eventId ev) d' = Some (st, case lease c (ev_eventId ev) d of Some (_, t) \<Rightarrow> t | None \<Rightarrow> None)"
  using transact_cases [OF assms(1) [unfolded settle_def]] dlog.record_end_look dlog.record_end_sound [OF assms(2)] assms(2)
  by (auto simp: map_sum_def split: sum.splits)

lemma release_outcome:
  assumes "releaseClaim f c e d = (r, d')" and "log_keys d"
  shows "log_keys d'" "lease c e d' = lease c e d \<or>
    lease c e d' = map_option (\<lambda>(s, t). if s = PENDING then (s, None) else (s, t)) (lease c e d)"
  using transact_cases [OF assms(1) [unfolded releaseClaim_def]] releaseClaim_lease log_keys_release [OF assms(2)] assms(2) by auto

lemma holder_lease: "dinv c ev s \<Longrightarrow> holds (sy_pc s i) = Some now \<Longrightarrow>
  \<exists>st. lease c (ev_eventId ev) (sy_db s) = Some (st, Some now) \<and> st \<noteq> SENT"
  unfolding dinv_def holder_leased_def by blast

lemma dinv_settle:
  assumes inv: "dinv c ev s" and pc: "sy_pc s i = Settling now" and run: "settle f n t c ev SENT None (sy_db s) = (x, d)"
  shows "dinv c ev (s\<lparr>sy_db := d, sy_pc := (sy_pc s)(i := Idle),
      sy_orphaned := sy_orphaned s + (if is_sent (lease c (ev_eventId ev) d) then 0 else 1)\<rparr>)"
proof -
  have k: "log_keys (sy_db s)" and a: "accounted s (lease c (ev_eventId ev) (sy_db s))" using inv by (auto simp: dinv_def)
  obtain st where l: "lease c (ev_eventId ev) (sy_db s) = Some (st, Some now)" "st \<noteq> SENT" using holder_lease [OF inv, of i] pc by auto
  have h: "holds (sy_pc s i) = Some now" using pc by simp
  obtain y where y: "lease c (ev_eventId ev) d = Some y" using settle_outcome(2) [OF run k] l by auto
  have "sy_delivered s \<le> 1 + sy_orphaned s + sy_overwritten s" using a by (auto simp: accounted_def split: if_splits)
  then show ?thesis using let_go [OF inv h settle_outcome(1) [OF run k] y] y by auto
qed

lemma dinv_release:
  assumes inv: "dinv c ev s" and pc: "sy_pc s i = Releasing now" and run: "releaseClaim f c (ev_eventId ev) (sy_db s) = (x, d)"
  shows "dinv c ev (s\<lparr>sy_db := d, sy_pc := (sy_pc s)(i := Idle)\<rparr>)"
proof -
  have k: "log_keys (sy_db s)" and a: "accounted s (lease c (ev_eventId ev) (sy_db s))"
    and hl: "holder_leased (sy_pc s) (lease c (ev_eventId ev) (sy_db s))" using inv by (auto simp: dinv_def)
  obtain st where l: "lease c (ev_eventId ev) (sy_db s) = Some (st, Some now)" "st \<noteq> SENT" using holder_lease [OF inv, of i] pc by auto
  have h: "holds (sy_pc s i) = Some now" using pc by simp
  obtain y where y: "lease c (ev_eventId ev) d = Some y" using release_outcome(2) [OF run k] l by (auto split: if_splits)
  have "\<not> settling (sy_pc s)"
    using hl pc unfolding settling_def holder_leased_def by (metis holds.simps(2) holds.simps(3) option.distinct(1) pc.distinct(41))
  then have "sy_delivered s \<le> sy_orphaned s + sy_overwritten s" using a l by (auto simp: accounted_def is_sent_def)
  then show ?thesis using let_go [OF inv h release_outcome(1) [OF run k] y, of 0] by (simp add: dinv_def timely_def accounted_def)
qed

lemma dinv_failed:
  assumes inv: "dinv c ev s" and run: "settle f n t c ev FAILED (Some msg) (sy_db s) = (x, d)"
  shows "dinv c ev (s\<lparr>sy_db := d, sy_overwritten := sy_overwritten s +
      (if is_sent (lease c (ev_eventId ev) (sy_db s)) \<and> \<not> is_sent (lease c (ev_eventId ev) d) then 1 else 0)\<rparr>)"
proof -
  have k: "log_keys (sy_db s)" and a: "accounted s (lease c (ev_eventId ev) (sy_db s))" and t: "timely s"
    and hl: "holder_leased (sy_pc s) (lease c (ev_eventId ev) (sy_db s))" using inv by (auto simp: dinv_def)
  have out: "d = sy_db s \<or> lease c (ev_eventId ev) d =
      Some (FAILED, case lease c (ev_eventId ev) (sy_db s) of Some (_, t) \<Rightarrow> t | None \<Rightarrow> None)" by (rule settle_outcome(2) [OF run k])
  then have "holder_leased (sy_pc s) (lease c (ev_eventId ev) d)" using hl by (fastforce simp: holder_leased_def)
  moreover have "timely (s\<lparr>sy_db := d, sy_overwritten := m\<rparr>)" for m using t by (simp add: timely_def)
  ultimately show ?thesis using settle_outcome(1) [OF run k] a by (auto simp: dinv_def accounted_def split: if_splits)
qed

lemma dinv_send_ok:
  assumes inv: "dinv c ev s" and pc: "sy_pc s i = Sending now"
  shows "dinv c ev (s\<lparr>sy_pc := (sy_pc s)(i := Settling now), sy_delivered := Suc (sy_delivered s)\<rparr>)"
proof -
  have a: "accounted s (lease c (ev_eventId ev) (sy_db s))" and t: "timely s"
    and hl: "holder_leased (sy_pc s) (lease c (ev_eventId ev) (sy_db s))" using inv by (auto simp: dinv_def)
  have "\<not> settling (sy_pc s)"
    using hl pc unfolding settling_def holder_leased_def by (metis holds.simps(1) holds.simps(2) option.distinct(1) pc.distinct(37))
  then have "sy_delivered s \<le> sy_orphaned s + sy_overwritten s"
    using a holder_not_sent [OF hl, of i] pc by (simp add: accounted_def)
  moreover have "settling ((sy_pc s)(i := Settling now))" by (auto simp: settling_def)
  moreover have "holder_leased ((sy_pc s)(i := Settling now)) (lease c (ev_eventId ev) (sy_db s))"
    by (rule holder_leased_upd [OF hl]) (use pc in auto)
  moreover have "timely (s\<lparr>sy_pc := (sy_pc s)(i := Settling now), sy_delivered := Suc (sy_delivered s)\<rparr>)"
    by (rule timely_upd [OF t, of "Settling now"]) (use pc timely_now [OF t, of i] in auto)
  ultimately show ?thesis using inv by (simp add: dinv_def accounted_def)
qed

lemma dinv_step:
  assumes "dstep c ev s s'" and "dinv c ev s" shows "dinv c ev s'"
  using assms
proof cases
  case (start i t0)
  then show ?thesis using move_on [OF assms(2) _ refl, of "Creating t0 (sy_clock s)" i 0] assms(2)
    by (simp add: dinv_def CLAIM_LEASE_MS_def timely_def accounted_def)
next
  case (create i t0 now f n r d)
  then show ?thesis using dinv_create [OF assms(2)] by simp
next
  case (update i t0 now f u d)
  then show ?thesis using dinv_update [OF assms(2)] by simp
next
  case (read i now up)
  then have "lease c (ev_eventId ev) (sy_db s) \<noteq> None"
    using assms(2) holder_leased_waits [of "sy_pc s" _ i] by (simp add: dinv_def)
  then have "after_read now up (claim_read c (ev_eventId ev) (sy_db s)) = Idle"
    by (auto simp: after_read_def dlog.inspect_eq split: if_splits)
  then show ?thesis using move_on0 [OF assms(2) _ refl, of Idle i] read assms(2) by (simp add: dinv_def)
next
  case (send_ok i now)
  then show ?thesis using dinv_send_ok [OF assms(2)] by simp
next
  case (send_failed i now)
  then show ?thesis using move_on0 [OF assms(2) _ refl, of "Releasing now" i] assms(2) by (simp add: dinv_def)
next
  case (settle i now f n t x d)
  then show ?thesis using dinv_settle [OF assms(2)] by simp
next
  case (release i now f x d)
  then show ?thesis using dinv_release [OF assms(2)] by simp
next
  case (failed f n t msg x d)
  then show ?thesis using dinv_failed [OF assms(2)] by simp
next
  case (die i)
  then show ?thesis using move_on [OF assms(2) _ refl, of Idle i] assms(2) by (simp add: dinv_def)
next
  case (other d)
  then show ?thesis using assms(2) by (simp add: dinv_def timely_def accounted_def)
next
  case (tick t)
  then show ?thesis using assms(2) by (fastforce simp: dinv_def timely_def accounted_def)
qed

lemma dinv_runs: "druns c ev s s' \<Longrightarrow> dinv c ev s \<Longrightarrow> dinv c ev s'"
  by (induction rule: rtranclp_induct) (simp_all add: dinv_step)

text \<open>
  C2: at-least-once delivery is made safe by the lease. In every interleaving of any number of consumers
  working on the same event and channel, with statements that fail or lose their answer and consumers
  that die anywhere, provided an attempt ends within its lease and the row stays in the history: at most one consumer is between taking
  the lease and letting go of it, so no two send at the same time; and the sends answered with success are at most one
  plus one for every success that was not recorded and every recorded success overwritten as FAILED.
\<close>

theorem one_sender:
  assumes "log_keys d" and "druns c ev (dinit d t) s"
  shows "(\<forall>i j. holds (sy_pc s i) \<noteq> None \<longrightarrow> holds (sy_pc s j) \<noteq> None \<longrightarrow> i = j) \<and>
    sy_delivered s \<le> 1 + sy_orphaned s + sy_overwritten s"
  using dinv_runs [OF assms(2) dinv_init [OF assms(1)]]
  by (auto simp: dinv_def holder_leased_def accounted_def split: if_splits)

section \<open>An attempt is a path of the system\<close>

fun after_claim :: "instant \<Rightarrow> (db_error, ClaimResult) result \<Rightarrow> pc" where
  "after_claim now (Inr claimed) = Sending now"
| "after_claim now _ = Idle"

lemma claim_runs:
  assumes "sy_pc s i = Creating t0 (cl_now env)" and "claim env c ev (t0 - CLAIM_LEASE_MS) (sy_db s) = (r, d)"
  shows "druns c ev s (s\<lparr>sy_db := d, sy_pc := (sy_pc s)(i := after_claim (cl_now env) r)\<rparr>)"
proof -
  let ?e = "ev_eventId ev" and ?now = "cl_now env"
  obtain x dx where x: "transact (cl_create env) (sy_db s)
      (map_sum id (Pair ()) (claim_create (cl_id env) ?now c ev (sy_db s))) = (x, dx)" by force
  let ?s = "s\<lparr>sy_db := dx, sy_pc := (sy_pc s)(i := after_create t0 ?now x)\<rparr>"
  have one: "dstep c ev s ?s" using assms(1) x by (rule create)
  show ?thesis
  proof (cases "x = Inl UniqueViolation")
    case False
    then have "d = dx" "after_claim ?now r = after_create t0 ?now x" using assms(2) x by (cases x; auto simp: claim_def)+
    then show ?thesis using one by auto
  next
    case True
    obtain y dy where y: "transact (cl_update env) dx (Inr (claim_update ?now c ?e (t0 - CLAIM_LEASE_MS) dx)) = (y, dy)" by force
    let ?t = "?s\<lparr>sy_db := dy, sy_pc := (sy_pc ?s)(i := after_update ?now y)\<rparr>"
    have two: "dstep c ev ?s ?t" by (rule update) (use True y in auto)
    have both: "druns c ev s ?t" using one two by (rule converse_rtranclp_into_rtranclp [OF _ r_into_rtranclp])
    show ?thesis
    proof (cases "y = Inr 0")
      case False
      then have "d = dy" "after_claim ?now r = after_update ?now y" using assms(2) x y True by (cases y; auto simp: claim_def)+
      then show ?thesis using both by auto
    next
      case zero: True
      have "dstep c ev ?t (?t\<lparr>sy_pc := (sy_pc ?t)(i := after_read ?now (cl_read env) (claim_read c ?e (sy_db ?t)))\<rparr>)"
        using zero by (intro read) simp
      moreover have "d = dy" "after_claim ?now r = after_read ?now (cl_read env) (claim_read c ?e dy)"
        using assms(2) x y True zero by (auto simp: claim_def after_read_def split: if_splits ClaimResult.splits)
          (cases "claim_read c ?e dy"; simp)
      ultimately show ?thesis using both by (auto intro: rtranclp.rtrancl_into_rtrancl)
    qed
  qed
qed

text \<open>What the system assumes of a sender: it leaves the row's status and lease alone.\<close>

definition lease_neutral :: "Channel \<Rightarrow> TriggerFiredEvent \<Rightarrow> sender \<Rightarrow> bool" where
  "lease_neutral c ev send \<longleftrightarrow> (\<forall>w. log_keys (nw_db w) \<longrightarrow> log_keys (nw_db (snd (send ev w))) \<and>
     lease c (ev_eventId ev) (nw_db (snd (send ev w))) = lease c (ev_eventId ev) (nw_db w))"

lemma log_keys_runs: "druns c ev s s' \<Longrightarrow> log_keys (sy_db s) \<Longrightarrow> log_keys (sy_db s')"
proof (induction rule: rtranclp_induct)
  case (step s' s'')
  from step.hyps(2) step.IH [OF step.prems] show ?case
  proof cases
    case (create i t0 now f n r d)
    then show ?thesis using transact_cases [OF create(3)] step.IH [OF step.prems] log_keys_claim_create
      by (auto simp: map_sum_def split: sum.splits)
  next
    case (update i t0 now f u d)
    then show ?thesis using transact_cases [OF update(3)] step.IH [OF step.prems]
        log_keys_claim_update [OF step.IH [OF step.prems], of now c "ev_eventId ev" "t0 - CLAIM_LEASE_MS"] by auto
  qed (auto dest: settle_outcome(1) release_outcome(1))
qed simp

text \<open>
  C34: an attempt of \<open>dispatch\<close> on its own is a path of the interleaved system from an idle consumer to an
  idle consumer, ending in the database \<open>dispatch\<close> leaves behind; it counts a delivery exactly when the
  sender reported success. So what holds in every interleaving holds of the service's own code.
\<close>

theorem dispatch_is_path:
  assumes sender: "map_of senders c = Some send" and neutral: "lease_neutral c ev send" and keys: "log_keys (nw_db w)"
    and s: "sy_db s = nw_db w" "sy_pc s i = Idle" "de_clock env \<le> sy_clock s" "cl_now (de_claim env) = sy_clock s"
    and run: "dispatch env senders c ev w = (r, w')"
  shows "\<exists>s'. druns c ev s s' \<and> sy_db s' = nw_db w' \<and> sy_pc s' = sy_pc s \<and> sy_clock s' = sy_clock s \<and>
    (r = Inr sent \<longrightarrow> sy_delivered s' = Suc (sy_delivered s)) \<and> (r = Inr skipped \<longrightarrow> sy_delivered s' = sy_delivered s)"
proof -
  let ?now = "sy_clock s"
  obtain x d where x: "claim (de_claim env) c ev (de_clock env - CLAIM_LEASE_MS) (nw_db w) = (x, d)" by force
  have start: "dstep c ev s (s\<lparr>sy_pc := (sy_pc s)(i := Creating (de_clock env) ?now)\<rparr>)" using s by (intro dstep.start) auto
  let ?t = "s\<lparr>sy_db := d, sy_pc := (sy_pc s)(i := after_claim ?now x)\<rparr>"
  have "druns c ev (s\<lparr>sy_pc := (sy_pc s)(i := Creating (de_clock env) ?now)\<rparr>) ?t"
    using claim_runs [of "s\<lparr>sy_pc := (sy_pc s)(i := Creating (de_clock env) ?now)\<rparr>" i "de_clock env" "de_claim env" c ev x d] x s
    by simp
  with start have claim_path: "druns c ev s ?t" by (rule converse_rtranclp_into_rtranclp)
  show ?thesis
  proof (cases "x = Inr claimed")
    case False
    then have "after_claim ?now x = Idle" by (cases "(?now, x)" rule: after_claim.cases) auto
    moreover have "w' = w\<lparr>nw_db := d\<rparr>" "r \<noteq> Inr sent"
      using run sender x False by (auto simp: dispatch_def split: sum.splits ClaimResult.splits)
    ultimately show ?thesis using claim_path s by (intro exI [of _ ?t]) auto
  next
    case True
    obtain y v where y: "send ev (w\<lparr>nw_db := d\<rparr>) = (y, v)" by force
    have "log_keys d" using log_keys_runs [OF claim_path] keys s by simp
    then have v: "log_keys (nw_db v)" "lease c (ev_eventId ev) (nw_db v) = lease c (ev_eventId ev) d"
      using neutral y unfolding lease_neutral_def by (metis nworld.select_convs(1) nworld.surjective nworld.update_convs(1) snd_conv)+
    let ?v = "?t\<lparr>sy_db := nw_db v\<rparr>"
    have "dstep c ev ?t ?v" using v by (intro other) auto
    with claim_path have sent_path: "druns c ev s ?v" by (rule rtranclp.rtrancl_into_rtrancl)
    show ?thesis
    proof (cases y)
      case (Inl err)
      let ?u = "?v\<lparr>sy_pc := (sy_pc ?v)(i := Releasing ?now)\<rparr>"
      let ?d = "snd (releaseClaim (de_release env) c (ev_eventId ev) (nw_db v))"
      have "dstep c ev ?v ?u" using True by (intro send_failed) simp
      moreover have "dstep c ev ?u (?u\<lparr>sy_db := ?d, sy_pc := (sy_pc ?u)(i := Idle)\<rparr>)"
        by (rule release [where f = "de_release env" and x = "fst (releaseClaim (de_release env) c (ev_eventId ev) (nw_db v))"]) simp_all
      ultimately have "druns c ev s (?u\<lparr>sy_db := ?d, sy_pc := (sy_pc ?u)(i := Idle)\<rparr>)"
        using sent_path by (meson rtranclp.rtrancl_into_rtrancl)
      moreover have "w' = v\<lparr>nw_db := ?d\<rparr>" "r = Inl err"
        using run sender x y True Inl by (auto simp: dispatch_def notifier_releaseClaim_def)
      ultimately show ?thesis using s
        by (intro exI [of _ "?u\<lparr>sy_db := ?d, sy_pc := (sy_pc ?u)(i := Idle)\<rparr>"]) auto
    next
      case (Inr u)
      obtain z e where z: "settle (de_settle env) (de_id env) (de_now env) c ev SENT None (nw_db v) = (z, e)" by force
      let ?u = "?v\<lparr>sy_pc := (sy_pc ?v)(i := Settling ?now), sy_delivered := Suc (sy_delivered ?v)\<rparr>"
      let ?e = "?u\<lparr>sy_db := e, sy_pc := (sy_pc ?u)(i := Idle),
        sy_orphaned := sy_orphaned ?u + (if is_sent (lease c (ev_eventId ev) e) then 0 else 1)\<rparr>"
      have "dstep c ev ?v ?u" using True by (intro send_ok) simp
      moreover have "dstep c ev ?u ?e" by (rule dstep.settle) (use z in auto)
      ultimately have "druns c ev s ?e" using sent_path by (meson rtranclp.rtrancl_into_rtrancl)
      moreover have "nw_db w' = e" "r \<noteq> Inr skipped"
        using run sender x y z True Inr by (auto simp: dispatch_def notifier_settle_def split: sum.splits)
      ultimately show ?thesis using s by (intro exI [of _ ?e]) auto
    qed
  qed
qed

section \<open>The registered channels\<close>

lemma fan_out_lease_loop:
  "log_keys (nw_db w) \<Longrightarrow> push_loop env event payload subs n le w = (r, w') \<Longrightarrow>
   log_keys (nw_db w') \<and> lease c e (nw_db w') = lease c e (nw_db w)"
proof (induction subs arbitrary: n le w)
  case (Cons sub subs)
  have mark: "log_keys (markDelivered c' e' x d)" "lease c e (markDelivered c' e' x d) = lease c e d" if "log_keys d" for c' e' x d
    using that by (simp_all add: markDelivered_def log_keys_update lease_def log_row_def find_update_many option.map_comp comp_def)
      (auto intro!: option.map_cong)
  have prune: "log_keys d'" "lease c e d' = lease c e d" if "removePushSubscription i d = Inr (u, d')" "log_keys d" for i d u d'
    using that by (auto simp: removePushSubscription_def log_keys_def lease_def log_row_def split: if_splits)
  show ?case
  proof (cases "pe_send env sub")
    case PushOk
    obtain x d where x: "transact (pe_mark env (ps_endpoint sub)) (nw_db w)
        (Inr ((), markDelivered WEB_PUSH (ev_eventId event) (ps_endpoint sub) (nw_db w))) = (x, d)" by force
    then have "log_keys d" "lease c e d = lease c e (nw_db w)" using transact_cases [OF x] mark Cons.prems(1) by auto
    then show ?thesis using Cons.IH [of "w\<lparr>nw_db := d, nw_out := nw_out w @ [PushOut (ps_endpoint sub) payload]\<rparr>"] Cons.prems(2) PushOk x
      by auto
  next
    case (PushErr st msg)
    obtain x d where x: "transact (pe_prune env (ps_id sub)) (nw_db w) (removePushSubscription (ps_id sub) (nw_db w)) = (x, d)" by force
    then have "log_keys d" "lease c e d = lease c e (nw_db w)" using transact_cases [OF x] prune Cons.prems(1) by auto
    then show ?thesis using Cons.IH [of "w\<lparr>nw_db := d\<rparr>"] Cons.IH [of w] Cons.prems PushErr x by (auto split: if_splits sum.splits)
  next
    case (PushLost msg)
    then show ?thesis using Cons.IH [of "w\<lparr>nw_out := nw_out w @ [PushOut (ps_endpoint sub) payload]\<rparr>"] Cons.prems by simp
  qed
qed simp

lemma registered_neutral:
  assumes "map_of (CHANNEL_IMPLEMENTATIONS os) c = Some send" shows "lease_neutral c ev send"
proof (cases c)
  case TELEGRAM
  then show ?thesis using assms
    by (auto simp: CHANNEL_IMPLEMENTATIONS_def lease_neutral_def telegram_send_def Let_def split: option.splits prod.splits)
next
  case EMAIL
  then show ?thesis using assms
    by (auto simp: CHANNEL_IMPLEMENTATIONS_def lease_neutral_def email_send_def mail_send_def Let_def split: option.splits prod.splits)
next
  case WEB_PUSH
  have "log_keys (nw_db w') \<and> lease c e (nw_db w') = lease c e (nw_db w)"
    if "log_keys (nw_db w)" "webpush_send conf env ev w = (r, w')" for conf env e w r w'
    using that fan_out_lease_loop [OF that(1)]
    by (auto simp: webpush_send_def Let_def split: if_splits prod.splits sum.splits option.splits)
  then show ?thesis using assms WEB_PUSH by (auto simp: CHANNEL_IMPLEMENTATIONS_def lease_neutral_def) (metis prod.collapse)+
qed

lemma sent_is_skipped:
  assumes "log_keys (nw_db w)" and "lease c (ev_eventId ev) (nw_db w) = Some (SENT, t)" and "map_of senders c \<noteq> None"
    and "cl_update (de_claim env) = Committed" and "cl_read (de_claim env)"
  shows "dispatch env senders c ev w = (Inr skipped, w)"
proof -
  let ?lc = "de_clock env - CLAIM_LEASE_MS" and ?now = "cl_now (de_claim env)"
  have ins: "claim_create (cl_id (de_claim env)) ?now c ev (nw_db w) = Inl UniqueViolation"
    using assms(2) claim_create_unique by simp
  obtain n d where u: "claim_update ?now c (ev_eventId ev) ?lc (nw_db w) = (n, d)" by force
  have "n = 0" using claim_update_spec [OF assms(1) u] assms(2) by (auto simp: free_def)
  with u claim_update_spec [OF assms(1) u] have "claim_update ?now c (ev_eventId ev) ?lc (nw_db w) = (0, nw_db w)" by simp
  then have "claim (de_claim env) c ev ?lc (nw_db w) = (Inr duplicate, nw_db w)"
    using assms ins by (cases "cl_create (de_claim env)") (simp_all add: claim_def claim_read_spec)
  then show ?thesis using assms(3) by (auto simp: dispatch_def)
qed

lemma claim_keys:
  assumes "claim env c ev lc d = (r, d')" and "log_keys d" shows "log_keys d'"
proof -
  let ?s = "(dinit d 0)\<lparr>sy_pc := (\<lambda>_. Creating (lc + CLAIM_LEASE_MS) (cl_now env))\<rparr>"
  have "druns c ev ?s (?s\<lparr>sy_db := d', sy_pc := (sy_pc ?s)(0 := after_claim (cl_now env) r)\<rparr>)"
    by (rule claim_runs [of _ _ "lc + CLAIM_LEASE_MS"]) (use assms(1) in \<open>simp_all add: dinit_def\<close>)
  from log_keys_runs [OF this] assms(2) show ?thesis by (simp add: dinit_def)
qed

lemma claim_duplicate:
  assumes "claim env c ev lc d = (Inr duplicate, d')"
  shows "\<exists>t. lease c (ev_eventId ev) d' = Some (SENT, t)"
proof -
  have "claim_read c (ev_eventId ev) d' = duplicate"
    using assms by (auto simp: claim_def split: prod.splits sum.splits if_splits)
  then show ?thesis by (auto simp: claim_read_spec split: option.splits if_splits)
qed

lemma settle_Inr:
  assumes "settle f n t c ev st msg d = (Inr u, d')"
  shows "\<exists>t. lease c (ev_eventId ev) d' = Some (st, t)"
proof -
  obtain e where "settle_row n t c ev st msg d = Inr e" "d' = e"
    using assms by (cases f; cases "settle_row n t c ev st msg d") (auto simp: settle_def)
  then show ?thesis using settle_row_lease by blast
qed

text \<open>
  C17: dispatch is idempotent. Once an attempt on any registered channel has returned, sent or skipped,
  a redelivery of the same event on that channel, whatever the outside world would answer this time, is
  skipped: nothing is sent and nothing is written. The database has to answer the redelivery.
\<close>

theorem dispatch_idempotent:
  assumes "log_keys (nw_db w)" and "dispatch env (CHANNEL_IMPLEMENTATIONS os) c ev w = (Inr outcome, w')"
    and "cl_update (de_claim env') = Committed" and "cl_read (de_claim env')"
  shows "dispatch env' (CHANNEL_IMPLEMENTATIONS os') c ev w' = (Inr skipped, w')"
proof -
  obtain send where send: "map_of (CHANNEL_IMPLEMENTATIONS os) c = Some send" by (cases c) (auto simp: CHANNEL_IMPLEMENTATIONS_def)
  obtain x d where x: "claim (de_claim env) c ev (de_clock env - CLAIM_LEASE_MS) (nw_db w) = (x, d)" by force
  have d: "log_keys d" by (rule claim_keys [OF x assms(1)])
  have "log_keys (nw_db w') \<and> (\<exists>t. lease c (ev_eventId ev) (nw_db w') = Some (SENT, t))"
  proof (cases "x = Inr duplicate")
    case True
    then show ?thesis using assms(2) send x d claim_duplicate [OF x [unfolded True]] by (auto simp: dispatch_def)
  next
    case False
    then have c: "x = Inr claimed" using assms(2) send x by (auto simp: dispatch_def split: sum.splits ClaimResult.splits)
    obtain y v where y: "send ev (w\<lparr>nw_db := d\<rparr>) = (y, v)" by force
    then have v: "log_keys (nw_db v)" using registered_neutral [OF send, of ev] d unfolding lease_neutral_def
      by (metis nworld.select_convs(1) nworld.surjective nworld.update_convs(1) snd_conv)
    obtain z e where z: "settle (de_settle env) (de_id env) (de_now env) c ev SENT None (nw_db v) = (z, e)" by force
    have "\<exists>u. z = Inr u" "nw_db w' = e"
      using assms(2) send x c y z by (cases z; auto simp: dispatch_def notifier_settle_def split: sum.splits)+
    then show ?thesis using settle_outcome(1) [OF z v] settle_Inr z by blast
  qed
  moreover have "map_of (CHANNEL_IMPLEMENTATIONS os') c \<noteq> None" by (cases c) (auto simp: CHANNEL_IMPLEMENTATIONS_def)
  ultimately show ?thesis using sent_is_skipped assms(3,4) by blast
qed

section \<open>Concrete runs\<close>

definition good_claim :: "instant \<Rightarrow> claim_env" where
  "good_claim t = \<lparr>cl_id = ''n1'', cl_now = t, cl_create = Committed, cl_update = Committed, cl_read = True\<rparr>"

definition good_dispatch :: "instant \<Rightarrow> dispatch_env" where
  "good_dispatch t = \<lparr>de_clock = t, de_claim = good_claim t, de_release = Committed, de_settle = Committed, de_id = ''n2'', de_now = t\<rparr>"

definition healthy :: outside where
  "healthy = \<lparr>os_config = (\<lambda>k. if k = ''TELEGRAM_BOT_TOKEN'' then Str ''tok'' else Undef), os_smtp = (\<lambda>_. Accepted),
     os_telegram = (\<lambda>_. Accepted), os_up = True, os_push = flaky_push []\<rparr>"

definition quiet_world :: nworld where
  "quiet_world = \<lparr>nw_db = small_db, nw_out = []\<rparr>"

definition told_world :: nworld where
  "told_world = snd (dispatch (good_dispatch 5) (CHANNEL_IMPLEMENTATIONS healthy) TELEGRAM heat_event quiet_world)"

lemma first_dispatch:
  "dispatch (good_dispatch 5) (CHANNEL_IMPLEMENTATIONS healthy) TELEGRAM heat_event quiet_world = (Inr sent, told_world)"
proof -
  have "fst (dispatch (good_dispatch 5) (CHANNEL_IMPLEMENTATIONS healthy) TELEGRAM heat_event quiet_world) = Inr sent" by code_simp
  then show ?thesis unfolding told_world_def by (metis prod.collapse)
qed

lemma quiet_keys: "log_keys (nw_db quiet_world)"
  by (simp add: quiet_world_def small_db_defs log_keys_def)

theorem dispatch_idempotent_witness:
  "length (nw_out told_world) = 1 \<and>
   dispatch (good_dispatch 9) (CHANNEL_IMPLEMENTATIONS healthy) TELEGRAM heat_event told_world = (Inr skipped, told_world)"
proof
  show "length (nw_out told_world) = 1" by code_simp
  show "dispatch (good_dispatch 9) (CHANNEL_IMPLEMENTATIONS healthy) TELEGRAM heat_event told_world = (Inr skipped, told_world)"
    by (rule dispatch_idempotent [OF quiet_keys first_dispatch]) (simp_all add: good_dispatch_def good_claim_def)
qed

theorem dispatch_is_path_witness:
  "\<exists>s'. druns TELEGRAM heat_event (dinit small_db 5) s' \<and> sy_db s' = nw_db told_world \<and> sy_delivered s' = 1"
proof -
  obtain send where send: "map_of (CHANNEL_IMPLEMENTATIONS healthy) TELEGRAM = Some send" by (simp add: CHANNEL_IMPLEMENTATIONS_def)
  have "\<exists>s'. druns TELEGRAM heat_event (dinit small_db 5) s' \<and> sy_db s' = nw_db told_world \<and> sy_pc s' = sy_pc (dinit small_db 5) \<and>
      sy_clock s' = sy_clock (dinit small_db 5) \<and>
      (Inr sent = (Inr sent :: (failure, DispatchOutcome) result) \<longrightarrow> sy_delivered s' = Suc (sy_delivered (dinit small_db 5))) \<and>
      (Inr sent = (Inr skipped :: (failure, DispatchOutcome) result) \<longrightarrow> sy_delivered s' = sy_delivered (dinit small_db 5))"
    by (rule dispatch_is_path [OF send registered_neutral [OF send] quiet_keys _ _ _ _ first_dispatch, of _ 0])
      (simp_all add: dinit_def quiet_world_def good_dispatch_def good_claim_def)
  then show ?thesis by (auto simp: dinit_def)
qed

text \<open>One delivery, and the run in which a consumer that gave up overwrites it and a third repeats it.\<close>

definition after1 :: db where
  "after1 = projr (claim_create ''n1'' 0 TELEGRAM heat_event small_db)"

definition after2 :: db where
  "after2 = projr (settle_row ''x'' 0 TELEGRAM heat_event SENT None after1)"

definition after3 :: db where
  "after3 = projr (settle_row ''x'' 0 TELEGRAM heat_event FAILED (Some ''busy'') after2)"

definition after4 :: db where
  "after4 = snd (claim_update 60001 TELEGRAM ''e1'' 1 after3)"

lemmas after_defs = after1_def after2_def after3_def after4_def claim_create_def create_notification_def settle_row_def
  claim_update_def find_unique_def count_where_def claimable_def is_row_def rowFor_def small_db_defs heat_event_def

lemma after_runs:
  "claim_create ''n1'' 0 TELEGRAM heat_event small_db = Inr after1"
  "settle_row ''x'' 0 TELEGRAM heat_event SENT None after1 = Inr after2"
  "settle_row ''x'' 0 TELEGRAM heat_event FAILED (Some ''busy'') after2 = Inr after3"
  "claim_create ''n2'' 60001 TELEGRAM heat_event after3 = Inl UniqueViolation"
  "claim_update 60001 TELEGRAM (ev_eventId heat_event) 1 after3 = (1, after4)"
  by (simp_all add: after_defs)

lemma after_sent:
  "is_sent (lease TELEGRAM (ev_eventId heat_event) after2)" "\<not> is_sent (lease TELEGRAM (ev_eventId heat_event) after3)"
  by (simp_all add: is_sent_def lease_def log_row_def after_defs)

lemma dstep_trans: "druns c ev s t \<Longrightarrow> dstep c ev t u \<Longrightarrow> u = v \<Longrightarrow> druns c ev s v"
  by (auto intro: rtranclp.rtrancl_into_rtrancl)

definition told_once :: dsys where
  "told_once = (dinit small_db 0)\<lparr>sy_db := after2, sy_delivered := 1\<rparr>"

lemma told_once_run: "druns TELEGRAM heat_event (dinit small_db 0) told_once"
proof -
  let ?s = "dinit small_db 0"
  have "druns TELEGRAM heat_event ?s (?s\<lparr>sy_pc := (sy_pc ?s)(0 := Creating 0 0)\<rparr>)"
    by (rule dstep_trans [OF rtranclp.rtrancl_refl start [of _ 0 0]]) (simp_all add: dinit_def)
  then have "druns TELEGRAM heat_event ?s (?s\<lparr>sy_db := after1, sy_pc := (sy_pc ?s)(0 := Sending 0)\<rparr>)"
    by (rule dstep_trans [OF _ create [where i = 0 and now = 0 and f = Committed and n = "''n1''" and d = after1 and r = "Inr ()"]])
      (simp_all add: dinit_def after_runs)
  then have "druns TELEGRAM heat_event ?s (?s\<lparr>sy_db := after1, sy_pc := (sy_pc ?s)(0 := Settling 0), sy_delivered := 1\<rparr>)"
    by (rule dstep_trans [OF _ send_ok [where i = 0 and now = 0]]) (simp_all add: dinit_def)
  then show ?thesis
    by (rule dstep_trans [OF _ dstep.settle [where i = 0 and now = 0 and f = Committed and n = "''x''" and t = 0 and d = after2 and x = "Inr ()"]])
      (simp_all add: settle_def after_runs after_sent told_once_def dinit_def fun_upd_idem)
qed

theorem one_sender_witness:
  "druns TELEGRAM heat_event (dinit small_db 0) told_once \<and> sy_delivered told_once = 1 \<and>
   sy_delivered told_once \<le> 1 + sy_orphaned told_once + sy_overwritten told_once"
  using one_sender [OF _ told_once_run] told_once_run by (simp add: small_db_defs log_keys_def told_once_def)

lemma failed_over_sent_repeats:
  "\<exists>s. druns TELEGRAM heat_event (dinit small_db 0) s \<and> sy_delivered s = 2 \<and> sy_orphaned s = 0"
proof -
  let ?s = "dinit small_db 0" and ?t = "told_once\<lparr>sy_db := after3, sy_overwritten := 1, sy_clock := 60001\<rparr>"
  have "druns TELEGRAM heat_event ?s (told_once\<lparr>sy_db := after3, sy_overwritten := 1\<rparr>)"
    by (rule dstep_trans [OF told_once_run failed [where f = Committed and n = "''x''" and t = 0 and msg = "''busy''" and d = after3 and x = "Inr ()"]])
      (simp_all add: settle_def after_runs after_sent told_once_def dinit_def)
  then have "druns TELEGRAM heat_event ?s ?t"
    by (rule dstep_trans [OF _ tick [where t = 60001]]) (simp_all add: told_once_def dinit_def)
  then have "druns TELEGRAM heat_event ?s (?t\<lparr>sy_pc := (sy_pc ?t)(1 := Creating 60001 60001)\<rparr>)"
    by (rule dstep_trans [OF _ start [of _ 1 60001]]) (simp_all add: told_once_def dinit_def)
  then have "druns TELEGRAM heat_event ?s (?t\<lparr>sy_pc := (sy_pc ?t)(1 := Updating 60001 60001)\<rparr>)"
    by (rule dstep_trans [OF _ create [where i = 1 and now = 60001 and f = Committed and n = "''n2''" and d = after3 and r = "Inl UniqueViolation"]])
      (simp_all add: told_once_def dinit_def after_runs)
  then have "druns TELEGRAM heat_event ?s (?t\<lparr>sy_db := after4, sy_pc := (sy_pc ?t)(1 := Sending 60001)\<rparr>)"
    by (rule dstep_trans [OF _ update [where i = 1 and now = 60001 and ?t0.0 = 60001 and f = Committed and d = after4 and u = "Inr 1"]])
      (simp_all add: told_once_def dinit_def CLAIM_LEASE_MS_def after_runs)
  then have "druns TELEGRAM heat_event ?s (?t\<lparr>sy_db := after4, sy_pc := (sy_pc ?t)(1 := Settling 60001), sy_delivered := 2\<rparr>)"
    by (rule dstep_trans [OF _ send_ok [where i = 1 and now = 60001]]) (simp_all add: told_once_def dinit_def)
  then show ?thesis by (auto simp: told_once_def dinit_def)
qed

end
