(* ===== verification/Consumer.thy ===== *)
theory Consumer
  imports Notifier
begin

text \<open>
  \<open>apps/notifier/src/messaging/rabbit-consumer.service.ts\<close>: the broker topology the notifier declares,
  the handler of one message with its retries and its parking, and the shutdown. What the broker does
  with a published message is computed from the declared topology. \<open>JSON.parse\<close> of a message body is
  an argument; metrics, log lines and the correlation context of a log line are left out.
\<close>

section \<open>Configuration\<close>

definition ATTEMPTS_HEADER :: string where "ATTEMPTS_HEADER = ''x-attempts''"
definition EVENT_ID_HEADER :: string where "EVENT_ID_HEADER = ''x-event-id''"
definition DEAD_REASON_HEADER :: string where "DEAD_REASON_HEADER = ''x-dead-reason''"

definition DEFAULT_RETRY_DELAYS_MS :: "rat list" where
  "DEFAULT_RETRY_DELAYS_MS = [5000, 30000, 300000]"

definition DRAIN_TIMEOUT_MS :: int where "DRAIN_TIMEOUT_MS = 30000"
definition DRAIN_POLL_MS :: int where "DRAIN_POLL_MS = 50"
definition DEFAULT_DEAD_QUEUE_MAX :: rat where "DEFAULT_DEAD_QUEUE_MAX = 10000"

fun positiveInt :: "cfg \<Rightarrow> rat \<Rightarrow> rat" where
  "positiveInt raw fallback =
     (case js_Number raw of Fin parsed \<Rightarrow> if parsed = of_int \<lfloor>parsed\<rfloor> \<and> parsed > 0 then parsed else fallback | _ \<Rightarrow> fallback)"

fun split_char :: "char \<Rightarrow> string \<Rightarrow> string list" where
  "split_char sep [] = [[]]"
| "split_char sep (c # s) =
     (if c = sep then [] # split_char sep s
      else case split_char sep s of w # ws \<Rightarrow> (c # w) # ws | [] \<Rightarrow> [[c]])"

fun finite_positive :: "jsnum \<Rightarrow> rat option" where
  "finite_positive (Fin v) = (if v > 0 then Some v else None)"
| "finite_positive _ = None"

definition parseDelays :: "string option \<Rightarrow> rat list" where
  "parseDelays raw =
     (if raw = None \<or> raw = Some [] then DEFAULT_RETRY_DELAYS_MS
      else let parsed = List.map_filter (\<lambda>v. finite_positive (string_to_number (js_trim v))) (split_char (CHR '','') (the raw))
           in if parsed \<noteq> [] then parsed else DEFAULT_RETRY_DELAYS_MS)"

record consumer_cfg =
  retryDelaysMs :: "rat list"
  prefetch :: jsnum
  deadQueueMaxLength :: rat

definition consumer_new :: "string option \<Rightarrow> cfg \<Rightarrow> cfg \<Rightarrow> consumer_cfg" where
  "consumer_new delays pf deadMax =
     \<lparr>retryDelaysMs = parseDelays delays, prefetch = js_Number (if pf = Undef then Num (Fin 10) else pf),
      deadQueueMaxLength = positiveInt deadMax DEFAULT_DEAD_QUEUE_MAX\<rparr>"

definition maxAttempts :: "consumer_cfg \<Rightarrow> rat" where
  "maxAttempts cc = of_nat (length (retryDelaysMs cc)) + 1"

section \<open>Topology\<close>

record queue_args =
  qa_messageTtl :: "rat option"
  qa_deadLetter :: "(string \<times> string) option"
  qa_maxLength :: "rat option"

definition plain_queue :: queue_args where
  "plain_queue = \<lparr>qa_messageTtl = None, qa_deadLetter = None, qa_maxLength = None\<rparr>"

datatype topo_decl =
    AssertExchange string
  | Prefetch jsnum
  | AssertQueue string queue_args
  | BindQueue string string string
  | Consume string Channel

definition retry_stage :: "Channel \<Rightarrow> nat \<times> rat \<Rightarrow> topo_decl list" where
  "retry_stage channel entry =
     (let attempt = Fin (of_nat (fst entry) + 1) in
      [AssertQueue (retryQueueNameFor channel attempt)
         \<lparr>qa_messageTtl = Some (snd entry), qa_deadLetter = Some (NOTIFICATIONS_EXCHANGE, routingKeyFor channel), qa_maxLength = None\<rparr>,
       BindQueue (retryQueueNameFor channel attempt) DLX_EXCHANGE (retryRoutingKeyFor channel attempt)])"

definition channel_topology :: "consumer_cfg \<Rightarrow> Channel \<Rightarrow> topo_decl list" where
  "channel_topology cc channel =
     [AssertQueue (queueNameFor channel) plain_queue,
      BindQueue (queueNameFor channel) NOTIFICATIONS_EXCHANGE (routingKeyFor channel)] @
     concat (map (retry_stage channel) (enumerate 0 (retryDelaysMs cc))) @
     [AssertQueue (deadQueueNameFor channel)
        \<lparr>qa_messageTtl = None, qa_deadLetter = None, qa_maxLength = Some (deadQueueMaxLength cc)\<rparr>,
      BindQueue (deadQueueNameFor channel) DLX_EXCHANGE (deadRoutingKeyFor channel),
      Consume (queueNameFor channel) channel]"

definition setupTopology :: "consumer_cfg \<Rightarrow> Channel list \<Rightarrow> topo_decl list" where
  "setupTopology cc registered =
     [AssertExchange NOTIFICATIONS_EXCHANGE, AssertExchange DLX_EXCHANGE, Prefetch (prefetch cc)] @
     concat (map (channel_topology cc) registered)"

section \<open>Messages\<close>

text \<open>A header is a string, a number, or another value of which only \<open>Number(v)\<close> matters; \<open>null\<close> counts as absent.\<close>

datatype hval = HStr string | HNum jsnum | HOther jsnum

type_synonym headers = "(string \<times> hval) list"

record message =
  msg_content :: string
  msg_headers :: headers
  msg_messageId :: "string option"

record publication =
  pb_exchange :: string
  pb_key :: string
  pb_content :: string
  pb_messageId :: "string option"
  pb_headers :: headers

fun hval_number :: "hval \<Rightarrow> jsnum" where
  "hval_number (HStr s) = string_to_number s"
| "hval_number (HNum n) = n"
| "hval_number (HOther n) = n"

definition headerString :: "message \<Rightarrow> string \<Rightarrow> string option" where
  "headerString msg name = (case map_of (msg_headers msg) name of Some (HStr s) \<Rightarrow> Some s | _ \<Rightarrow> None)"

definition unknownId :: "message \<Rightarrow> string" where
  "unknownId msg = (case msg_messageId msg of Some i \<Rightarrow> i | None \<Rightarrow> ''unknown'')"

definition attemptCount :: "message \<Rightarrow> jsnum" where
  "attemptCount msg = (case map_of (msg_headers msg) ATTEMPTS_HEADER of Some v \<Rightarrow> hval_number v | None \<Rightarrow> Fin 0)"

text \<open>\<open>n + 1\<close> on numbers.\<close>

fun num_succ :: "jsnum \<Rightarrow> jsnum" where
  "num_succ (Fin x) = mk_num (x + 1)"
| "num_succ n = n"

section \<open>The handler\<close>

datatype DeadReason = unparseable | permanent | attempts_exhausted

fun reason_value :: "DeadReason \<Rightarrow> string" where
  "reason_value unparseable = ''unparseable''"
| "reason_value permanent = ''permanent''"
| "reason_value attempts_exhausted = ''attempts_exhausted''"

text \<open>What the handler changes: the notifier's world, what reached the broker, what was acknowledged.\<close>

record cstate =
  cs_world :: nworld
  cs_published :: "publication list"
  cs_acked :: "message list"
  cs_inFlight :: int

text \<open>
  \<open>channelWrapper.ack\<close> is not awaited and has no answer: it may throw, on a channel that is closed, or never reach
  the broker, and then the message stays unacknowledged.
\<close>

datatype ack_fate = AckTaken | AckLost | AckThrew string

text \<open>
  The environment of one delivery: the attempt's own, the fate of the FAILED settle, of the publish, of the
  acknowledgement after the dispatch and of the one after the copy.
\<close>

record handle_env =
  he_dispatch :: dispatch_env
  he_outside :: outside
  he_failed :: dispatch_env
  he_publish :: commit
  he_ackSent :: ack_fate
  he_ackCopied :: ack_fate
  he_dbMsg :: "db_error \<Rightarrow> string"

datatype handler_error = PublishFailed | SettleFailed failure | AckFailed string

definition ack :: "ack_fate \<Rightarrow> message \<Rightarrow> cstate \<Rightarrow> (handler_error, unit) result \<times> cstate" where
  "ack fate msg st =
     (case fate of
        AckTaken \<Rightarrow> (Inr (), st\<lparr>cs_acked := cs_acked st @ [msg]\<rparr>)
      | AckLost \<Rightarrow> (Inr (), st)
      | AckThrew m \<Rightarrow> (Inl (AckFailed m), st))"

definition republish :: "handle_env \<Rightarrow> message \<Rightarrow> string \<Rightarrow> headers \<Rightarrow> cstate \<Rightarrow> (handler_error, unit) result \<times> cstate" where
  "republish env msg routingKey headers st =
     (let eid = (case headerString msg EVENT_ID_HEADER of Some e \<Rightarrow> if e \<noteq> '''' then [(EVENT_ID_HEADER, HStr e)] else [] | None \<Rightarrow> []);
          p = \<lparr>pb_exchange = DLX_EXCHANGE, pb_key = routingKey, pb_content = msg_content msg,
               pb_messageId = msg_messageId msg, pb_headers = headers @ eid\<rparr>
      in case he_publish env of
           Committed \<Rightarrow> (Inr (), st\<lparr>cs_published := cs_published st @ [p]\<rparr>)
         | AbortedBefore \<Rightarrow> (Inl PublishFailed, st)
         | AnswerLost \<Rightarrow> (Inl PublishFailed, st\<lparr>cs_published := cs_published st @ [p]\<rparr>))"

definition park :: "handle_env \<Rightarrow> Channel \<Rightarrow> message \<Rightarrow> DeadReason \<Rightarrow> cstate \<Rightarrow> (handler_error, unit) result \<times> cstate" where
  "park env channel msg reason st =
     (case republish env msg (deadRoutingKeyFor channel)
             [(ATTEMPTS_HEADER, HNum (attemptCount msg)), (DEAD_REASON_HEADER, HStr (reason_value reason))] st of
        (Inl e, st') \<Rightarrow> (Inl e, st')
      | (Inr _, st') \<Rightarrow> ack (he_ackCopied env) msg st')"

fun is_permanent :: "failure \<Rightarrow> bool" where
  "is_permanent (PermanentNotificationError _) = True"
| "is_permanent _ = False"

definition handleFailure ::
  "consumer_cfg \<Rightarrow> handle_env \<Rightarrow> Channel \<Rightarrow> message \<Rightarrow> TriggerFiredEvent \<Rightarrow> failure \<Rightarrow> cstate \<Rightarrow> (handler_error, unit) result \<times> cstate" where
  "handleFailure cc env channel msg event err st =
     (let thisAttempt = num_succ (attemptCount msg);
          text' = failure_message (he_dbMsg env) err;
          perm = is_permanent err
      in if perm \<or> num_le (Fin (maxAttempts cc)) thisAttempt then
           (case notifier_settle (he_failed env) channel event FAILED (Some text') (cs_world st) of
              (Inl e, w) \<Rightarrow> (Inl (SettleFailed e), st\<lparr>cs_world := w\<rparr>)
            | (Inr _, w) \<Rightarrow> park env channel msg (if perm then permanent else attempts_exhausted) (st\<lparr>cs_world := w\<rparr>))
         else
           (case republish env msg (retryRoutingKeyFor channel thisAttempt) [(ATTEMPTS_HEADER, HNum thisAttempt)] st of
              (Inl e, st') \<Rightarrow> (Inl e, st')
            | (Inr _, st') \<Rightarrow> ack (he_ackCopied env) msg st'))"

text \<open>The acknowledgement is inside the \<open>try\<close>: one that throws is handled like a failed delivery.\<close>

definition process ::
  "(string \<Rightarrow> TriggerFiredEvent option) \<Rightarrow> consumer_cfg \<Rightarrow> handle_env \<Rightarrow> Channel \<Rightarrow> message \<Rightarrow> cstate \<Rightarrow>
   (handler_error, unit) result \<times> cstate" where
  "process parse cc env channel msg st =
     (case parse (msg_content msg) of
        None \<Rightarrow> park env channel msg unparseable st
      | Some event \<Rightarrow>
          (case dispatch (he_dispatch env) (CHANNEL_IMPLEMENTATIONS (he_outside env)) channel event (cs_world st) of
             (Inr _, w) \<Rightarrow>
               (case he_ackSent env of
                  AckThrew m \<Rightarrow> handleFailure cc env channel msg event (SendError m) (st\<lparr>cs_world := w\<rparr>)
                | fate \<Rightarrow> ack fate msg (st\<lparr>cs_world := w\<rparr>))
           | (Inl err, w) \<Rightarrow> handleFailure cc env channel msg event err (st\<lparr>cs_world := w\<rparr>)))"

text \<open>A rejection of \<open>process\<close> is counted and swallowed; the message stays unacknowledged.\<close>

definition handle ::
  "(string \<Rightarrow> TriggerFiredEvent option) \<Rightarrow> consumer_cfg \<Rightarrow> handle_env \<Rightarrow> Channel \<Rightarrow> message option \<Rightarrow> cstate \<Rightarrow> cstate" where
  "handle parse cc env channel msg st =
     (case msg of
        None \<Rightarrow> st
      | Some m \<Rightarrow>
          (let st' = snd (process parse cc env channel m (st\<lparr>cs_inFlight := cs_inFlight st + 1\<rparr>))
           in st'\<lparr>cs_inFlight := cs_inFlight st' - 1\<rparr>))"

section \<open>Shutdown\<close>

text \<open>
  \<open>drain\<close> polls: at poll \<open>k\<close> it sees \<open>inFlight k\<close> deliveries at time \<open>clock k\<close>. The result is the poll
  at which it stopped waiting.
\<close>

partial_function (option) drain_loop :: "(nat \<Rightarrow> int) \<Rightarrow> (nat \<Rightarrow> instant) \<Rightarrow> instant \<Rightarrow> nat \<Rightarrow> nat option" where
  "drain_loop inFlight clock deadline k =
     (if 0 < inFlight k \<and> clock k < deadline then drain_loop inFlight clock deadline (Suc k) else Some k)"

definition drain :: "(nat \<Rightarrow> int) \<Rightarrow> (nat \<Rightarrow> instant) \<Rightarrow> instant \<Rightarrow> nat option" where
  "drain inFlight clock now = drain_loop inFlight clock (now + DRAIN_TIMEOUT_MS) 0"

datatype shutdown_step = CancelTag string | Drained nat | ClosedChannel | ClosedConnection | CloseRejected

text \<open>\<open>answered\<close>: how many cancels the broker answers before it is gone; the error is swallowed.\<close>

definition cancelConsumers :: "nat \<Rightarrow> (Channel \<times> string) list \<Rightarrow> shutdown_step list \<times> (Channel \<times> string) list" where
  "cancelConsumers answered consumerTags = (map CancelTag (take answered (map snd consumerTags)), [])"

text \<open>A close that rejects ends the shutdown: after a rejected \<open>channelWrapper.close\<close> the connection is not closed.\<close>

definition closing :: "bool \<Rightarrow> bool \<Rightarrow> shutdown_step list" where
  "closing channelCloses connectionCloses =
     (if channelCloses then [ClosedChannel, if connectionCloses then ClosedConnection else CloseRejected] else [CloseRejected])"

definition onModuleDestroy ::
  "bool \<Rightarrow> bool \<Rightarrow> bool \<Rightarrow> nat \<Rightarrow> (Channel \<times> string) list \<Rightarrow> (nat \<Rightarrow> int) \<Rightarrow> (nat \<Rightarrow> instant) \<Rightarrow> instant \<Rightarrow>
   (shutdown_step list \<times> (Channel \<times> string) list) option" where
  "onModuleDestroy hasConnection channelCloses connectionCloses answered consumerTags inFlight clock now =
     (if \<not> hasConnection then Some ([], consumerTags)
      else let (steps, tags) = cancelConsumers answered consumerTags in
        case drain inFlight clock now of
          None \<Rightarrow> None
        | Some k \<Rightarrow> Some (steps @ Drained k # closing channelCloses connectionCloses, tags))"

section \<open>Where the broker takes a message\<close>

text \<open>
  Both exchanges are topic exchanges, but no binding key contains a wildcard, so a message goes to the
  queues bound with exactly its key. A queue with a dead-letter exchange has a TTL and no consumer: its
  messages go on to that exchange when the TTL has passed.
\<close>

definition routes :: "topo_decl list \<Rightarrow> string \<Rightarrow> string \<Rightarrow> string list" where
  "routes ds x k = concat (map (\<lambda>d. case d of BindQueue q x' k' \<Rightarrow> if x' = x \<and> k' = k then [q] else [] | _ \<Rightarrow> []) ds)"

definition declared :: "topo_decl list \<Rightarrow> string \<Rightarrow> queue_args list" where
  "declared ds q = concat (map (\<lambda>d. case d of AssertQueue q' a \<Rightarrow> if q' = q then [a] else [] | _ \<Rightarrow> []) ds)"

definition consumers :: "topo_decl list \<Rightarrow> string \<Rightarrow> Channel list" where
  "consumers ds q = concat (map (\<lambda>d. case d of Consume q' c \<Rightarrow> if q' = q then [c] else [] | _ \<Rightarrow> []) ds)"

datatype landing = Redelivered Channel | AtRest string

definition settle_in :: "topo_decl list \<Rightarrow> string \<Rightarrow> landing list" where
  "settle_in ds q = (case consumers ds q of [] \<Rightarrow> [AtRest q] | cs \<Rightarrow> map Redelivered cs)"

definition lands :: "topo_decl list \<Rightarrow> string \<Rightarrow> string \<Rightarrow> landing list" where
  "lands ds x k =
     concat (map (\<lambda>q. case declared ds q of
         a # _ \<Rightarrow> (case qa_deadLetter a of Some (x', k') \<Rightarrow> concat (map (settle_in ds) (routes ds x' k')) | None \<Rightarrow> settle_in ds q)
       | [] \<Rightarrow> settle_in ds q) (routes ds x k))"

named_theorems topo_simps \<open>evaluation of the declared topology\<close>

lemma decl_append [topo_simps]:
  "routes (ds @ es) x k = routes ds x k @ routes es x k" "declared (ds @ es) q = declared ds q @ declared es q"
  "consumers (ds @ es) q = consumers ds q @ consumers es q"
  by (simp_all add: routes_def declared_def consumers_def)

lemma decl_Nil [topo_simps]: "routes [] x k = []" "declared [] q = []" "consumers [] q = []"
  by (simp_all add: routes_def declared_def consumers_def)

lemma decl_Cons [topo_simps]:
  "routes (d # ds) x k = (case d of BindQueue q x' k' \<Rightarrow> if x' = x \<and> k' = k then [q] else [] | _ \<Rightarrow> []) @ routes ds x k"
  "declared (d # ds) q = (case d of AssertQueue q' a \<Rightarrow> if q' = q then [a] else [] | _ \<Rightarrow> []) @ declared ds q"
  "consumers (d # ds) q = (case d of Consume q' c \<Rightarrow> if q' = q then [c] else [] | _ \<Rightarrow> []) @ consumers ds q"
  by (simp_all add: routes_def declared_def consumers_def)

lemma exchanges_differ [simp]: "NOTIFICATIONS_EXCHANGE \<noteq> DLX_EXCHANGE" "DLX_EXCHANGE \<noteq> NOTIFICATIONS_EXCHANGE"
  by (simp_all add: NOTIFICATIONS_EXCHANGE_def DLX_EXCHANGE_def)

definition stages :: "Channel \<Rightarrow> nat \<Rightarrow> rat list \<Rightarrow> topo_decl list" where
  "stages c k delays = concat (map (retry_stage c) (enumerate k delays))"

lemma stages_Nil [topo_simps]: "stages c k [] = []"
  by (simp add: stages_def)

lemma stages_Cons [topo_simps]: "stages c k (d # ds) = retry_stage c (k, d) @ stages c (Suc k) ds"
  by (simp add: stages_def)

lemma channel_topology_stages:
  "channel_topology cc c =
     [AssertQueue (queueNameFor c) plain_queue, BindQueue (queueNameFor c) NOTIFICATIONS_EXCHANGE (routingKeyFor c)] @
     stages c 0 (retryDelaysMs cc) @
     [AssertQueue (deadQueueNameFor c) \<lparr>qa_messageTtl = None, qa_deadLetter = None, qa_maxLength = Some (deadQueueMaxLength cc)\<rparr>,
      BindQueue (deadQueueNameFor c) DLX_EXCHANGE (deadRoutingKeyFor c), Consume (queueNameFor c) c]"
  by (simp add: channel_topology_def stages_def)

text \<open>Attempt numbers print as their decimal digits, so different stages have different names.\<close>

abbreviation att :: "nat \<Rightarrow> jsnum" where
  "att n \<equiv> Fin (of_nat n)"

lemma js_show_nat: "n \<le> 2 ^ 53 \<Longrightarrow> js_show (of_nat n) = show_nat n"
  using js_show_of_int [of "int n"] by (simp add: show_int_def)

lemma stage_eq:
  assumes "n \<le> 2 ^ 53" "m \<le> 2 ^ 53"
  shows "retryRoutingKeyFor c (att n) = retryRoutingKeyFor c' (att m) \<longleftrightarrow> c = c' \<and> n = m"
    and "retryQueueNameFor c (att n) = retryQueueNameFor c' (att m) \<longleftrightarrow> c = c' \<and> n = m"
  using assms by (simp_all add: retryRoutingKeyFor_eq retryQueueNameFor_eq js_show_nat)

lemma retry_stage_att: "retry_stage c (k, d) =
   [AssertQueue (retryQueueNameFor c (att (Suc k)))
      \<lparr>qa_messageTtl = Some d, qa_deadLetter = Some (NOTIFICATIONS_EXCHANGE, routingKeyFor c), qa_maxLength = None\<rparr>,
    BindQueue (retryQueueNameFor c (att (Suc k))) DLX_EXCHANGE (retryRoutingKeyFor c (att (Suc k)))]"
  by (simp add: retry_stage_def Let_def add.commute)

lemma stages_other [topo_simps]:
  "routes (stages c' k ds) DLX_EXCHANGE (deadRoutingKeyFor c) = []"
  "routes (stages c' k ds) NOTIFICATIONS_EXCHANGE x = []"
  "declared (stages c' k ds) (deadQueueNameFor c) = []" "declared (stages c' k ds) (queueNameFor c) = []"
  "consumers (stages c' k ds) q = []"
  by (induction ds arbitrary: k) (simp_all add: topo_simps retry_stage_att)

lemma stages_routes:
  "k + length ds \<le> 2 ^ 53 \<Longrightarrow> n \<le> 2 ^ 53 \<Longrightarrow>
   routes (stages c' k ds) DLX_EXCHANGE (retryRoutingKeyFor c (att n)) =
     (if c = c' \<and> k < n \<and> n \<le> k + length ds then [retryQueueNameFor c (att n)] else [])"
  by (induction ds arbitrary: k) (auto simp: topo_simps retry_stage_att stage_eq simp del: of_nat_Suc)

lemma stages_declared:
  "k + length ds \<le> 2 ^ 53 \<Longrightarrow> n \<le> 2 ^ 53 \<Longrightarrow>
   declared (stages c' k ds) (retryQueueNameFor c (att n)) =
     (if c = c' \<and> k < n \<and> n \<le> k + length ds then
        [\<lparr>qa_messageTtl = Some (ds ! (n - Suc k)), qa_deadLetter = Some (NOTIFICATIONS_EXCHANGE, routingKeyFor c), qa_maxLength = None\<rparr>]
      else [])"
proof (induction ds arbitrary: k)
  case (Cons d ds)
  show ?case
  proof (cases "c = c' \<and> n = Suc k")
    case True
    then show ?thesis using Cons by (auto simp: topo_simps retry_stage_att stage_eq simp del: of_nat_Suc)
  next
    case False
    then have "declared (stages c' k (d # ds)) (retryQueueNameFor c (att n)) = declared (stages c' (Suc k) ds) (retryQueueNameFor c (att n))"
      using Cons.prems by (auto simp: topo_simps retry_stage_att stage_eq simp del: of_nat_Suc)
    then show ?thesis using Cons False by (auto simp: nth_Cons' Suc_diff_Suc)
  qed
qed (simp add: topo_simps)

abbreviation topology :: "consumer_cfg \<Rightarrow> topo_decl list" where
  "topology cc \<equiv> setupTopology cc [TELEGRAM, EMAIL, WEB_PUSH]"

lemma registered: "registeredChannels (CHANNEL_IMPLEMENTATIONS os) = [TELEGRAM, EMAIL, WEB_PUSH]"
  by (simp add: registeredChannels_def CHANNEL_IMPLEMENTATIONS_def)

lemma topology_consumers: "consumers (topology cc) (queueNameFor c) = [c]"
  by (cases c) (simp_all add: setupTopology_def channel_topology_stages topo_simps)

lemma topology_no_consumer: "consumers (topology cc) (deadQueueNameFor c) = []"
  by (simp add: setupTopology_def channel_topology_stages topo_simps)

lemma topology_main: "routes (topology cc) NOTIFICATIONS_EXCHANGE (routingKeyFor c) = [queueNameFor c]"
  by (cases c) (simp_all add: setupTopology_def channel_topology_stages topo_simps)

lemma lands_main: "lands (topology cc) NOTIFICATIONS_EXCHANGE (routingKeyFor c) = [Redelivered c]"
proof -
  have "declared (topology cc) (queueNameFor c) = [plain_queue]"
    by (cases c) (simp_all add: setupTopology_def channel_topology_stages topo_simps)
  then show ?thesis by (simp add: lands_def topology_main settle_in_def topology_consumers plain_queue_def)
qed

lemma lands_dead: "lands (topology cc) DLX_EXCHANGE (deadRoutingKeyFor c) = [AtRest (deadQueueNameFor c)]"
proof -
  have "routes (topology cc) DLX_EXCHANGE (deadRoutingKeyFor c) = [deadQueueNameFor c]"
    by (cases c) (simp_all add: setupTopology_def channel_topology_stages topo_simps)
  moreover have "declared (topology cc) (deadQueueNameFor c) =
      [\<lparr>qa_messageTtl = None, qa_deadLetter = None, qa_maxLength = Some (deadQueueMaxLength cc)\<rparr>]"
    by (cases c) (simp_all add: setupTopology_def channel_topology_stages topo_simps)
  ultimately show ?thesis by (simp add: lands_def settle_in_def topology_no_consumer)
qed

lemma lands_retry:
  assumes "0 < n" "n \<le> length (retryDelaysMs cc)" "length (retryDelaysMs cc) \<le> 2 ^ 53"
  shows "lands (topology cc) DLX_EXCHANGE (retryRoutingKeyFor c (att n)) = [Redelivered c]"
proof -
  have n: "n \<le> 2 ^ 53" using assms by linarith
  have "routes (topology cc) DLX_EXCHANGE (retryRoutingKeyFor c (att n)) = [retryQueueNameFor c (att n)]"
    using assms n by (cases c) (simp_all add: setupTopology_def channel_topology_stages topo_simps stages_routes)
  moreover have "\<exists>ttl. declared (topology cc) (retryQueueNameFor c (att n)) =
      [\<lparr>qa_messageTtl = Some ttl, qa_deadLetter = Some (NOTIFICATIONS_EXCHANGE, routingKeyFor c), qa_maxLength = None\<rparr>]"
    using assms n by (cases c) (simp_all add: setupTopology_def channel_topology_stages topo_simps stages_declared)
  ultimately show ?thesis by (auto simp: lands_def settle_in_def topology_main topology_consumers)
qed

section \<open>What one delivery does\<close>

lemma num_succ_att: "n < 2 ^ 53 \<Longrightarrow> num_succ (att n) = att (Suc n)"
  using mk_num_of_int [of "int (Suc n)"] by (simp add: add.commute)

text \<open>The published copy of \<open>msg\<close> under a routing key, with a number of attempts.\<close>

definition copy_of :: "message \<Rightarrow> string \<Rightarrow> jsnum \<Rightarrow> publication \<Rightarrow> bool" where
  "copy_of msg key n p \<longleftrightarrow> pb_exchange p = DLX_EXCHANGE \<and> pb_key p = key \<and> pb_content p = msg_content msg \<and>
     pb_messageId p = msg_messageId msg \<and> map_of (pb_headers p) ATTEMPTS_HEADER = Some (HNum n)"

text \<open>Republishing reaches the broker with a copy or fails; an answer that is lost is a copy and a failure.\<close>

lemma republish_cases:
  assumes "republish env msg key ((ATTEMPTS_HEADER, HNum n) # hs) st = (r, st')"
  shows "cs_acked st' = cs_acked st \<and> cs_world st' = cs_world st \<and> cs_inFlight st' = cs_inFlight st \<and>
    (cs_published st' = cs_published st \<and> r \<noteq> Inr () \<or> (\<exists>p. cs_published st' = cs_published st @ [p] \<and> copy_of msg key n p))"
  using assms by (cases "he_publish env") (auto simp: republish_def Let_def copy_of_def split: option.splits)

lemma ack_cases:
  "cs_published (snd (ack fate msg st)) = cs_published st" "cs_inFlight (snd (ack fate msg st)) = cs_inFlight st"
  "cs_acked (snd (ack fate msg st)) \<in> {cs_acked st, cs_acked st @ [msg]}" "cs_world (snd (ack fate msg st)) = cs_world st"
  by (cases fate; simp add: ack_def)+

text \<open>What publishing a copy and acknowledging the original leaves, wherever it stops.\<close>

definition moved :: "message \<Rightarrow> string \<Rightarrow> jsnum \<Rightarrow> cstate \<Rightarrow> cstate \<Rightarrow> bool" where
  "moved msg key n st st' \<longleftrightarrow>
     cs_inFlight st' = cs_inFlight st \<and>
     (cs_published st' = cs_published st \<and> cs_acked st' = cs_acked st \<or>
      (\<exists>p. cs_published st' = cs_published st @ [p] \<and> copy_of msg key n p) \<and> cs_acked st' \<in> {cs_acked st, cs_acked st @ [msg]})"

lemma republish_ack:
  assumes "republish env msg key ((ATTEMPTS_HEADER, HNum n) # hs) st = (r, st')"
  shows "moved msg key n st st'" and "r = Inr u \<Longrightarrow> moved msg key n st (snd (ack fate msg st'))"
  using republish_cases [OF assms] ack_cases [of fate msg st'] by (auto simp: moved_def)

lemma park_moved: "moved msg (deadRoutingKeyFor c) (attemptCount msg) st (snd (park env c msg reason st))"
  using republish_ack by (fastforce simp: park_def split: prod.splits sum.splits)

lemma moved_world [simp]: "moved msg key n (st\<lparr>cs_world := w\<rparr>) st' \<longleftrightarrow> moved msg key n st st'"
  by (simp add: moved_def)

lemma handleFailure_moved:
  "moved msg (deadRoutingKeyFor c) (attemptCount msg) st (snd (handleFailure cc env c msg event err st)) \<or>
   \<not> num_le (Fin (maxAttempts cc)) (num_succ (attemptCount msg)) \<and>
   moved msg (retryRoutingKeyFor c (num_succ (attemptCount msg))) (num_succ (attemptCount msg)) st (snd (handleFailure cc env c msg event err st))"
proof (cases "is_permanent err \<or> num_le (Fin (maxAttempts cc)) (num_succ (attemptCount msg))")
  case True
  obtain x w where x: "notifier_settle (he_failed env) c event FAILED (Some (failure_message (he_dbMsg env) err)) (cs_world st) = (x, w)" by force
  show ?thesis using True x park_moved [of msg c "st\<lparr>cs_world := w\<rparr>" env] by (cases x) (auto simp: handleFailure_def Let_def moved_def)
next
  case False
  obtain y v where y: "republish env msg (retryRoutingKeyFor c (num_succ (attemptCount msg)))
      [(ATTEMPTS_HEADER, HNum (num_succ (attemptCount msg)))] st = (y, v)" by force
  show ?thesis using False y republish_ack [OF y] by (cases y) (auto simp: handleFailure_def Let_def)
qed

text \<open>
  How a delivery can end: the attempt came to an outcome and the message is acknowledged; a copy is on its way
  to the dead queue or to the next retry stage, with the original acknowledged or not; or nothing has changed
  at the broker and the message stays unacknowledged.
\<close>

lemma process_cases:
  assumes "process parse cc env c msg st = (r, st')"
  obtains (kept) "cs_acked st' = cs_acked st" "cs_published st' = cs_published st"
  | (handled) event w outcome where "parse (msg_content msg) = Some event"
      "dispatch (he_dispatch env) (CHANNEL_IMPLEMENTATIONS (he_outside env)) c event (cs_world st) = (Inr outcome, w)"
      "cs_acked st' = cs_acked st @ [msg]" "cs_published st' = cs_published st"
  | (parked) p where "cs_acked st' \<in> {cs_acked st, cs_acked st @ [msg]}" "cs_published st' = cs_published st @ [p]"
      "copy_of msg (deadRoutingKeyFor c) (attemptCount msg) p"
  | (retried) p where "cs_acked st' \<in> {cs_acked st, cs_acked st @ [msg]}" "cs_published st' = cs_published st @ [p]"
      "copy_of msg (retryRoutingKeyFor c (num_succ (attemptCount msg))) (num_succ (attemptCount msg)) p"
      "\<not> num_le (Fin (maxAttempts cc)) (num_succ (attemptCount msg))"
proof -
  have failed: ?thesis if "handleFailure cc env c msg event err (st\<lparr>cs_world := w\<rparr>) = (r, st')" for event err w
    using handleFailure_moved [of msg c "st\<lparr>cs_world := w\<rparr>" cc env event err] that kept parked retried by (auto simp: moved_def)
  show ?thesis
  proof (cases "parse (msg_content msg)")
    case None
    then show ?thesis using assms park_moved [of msg c st env unparseable] kept parked by (auto simp: process_def moved_def)
  next
    case (Some event)
    obtain x w where x: "dispatch (he_dispatch env) (CHANNEL_IMPLEMENTATIONS (he_outside env)) c event (cs_world st) = (x, w)" by force
    show ?thesis
    proof (cases x)
      case (Inl err)
      then show ?thesis using assms Some x failed by (simp add: process_def)
    next
      case (Inr outcome)
      then show ?thesis using assms Some x failed handled [of event outcome w] kept by (cases "he_ackSent env") (auto simp: process_def ack_def)
    qed
  qed
qed

lemma process_inFlight: "cs_inFlight (snd (process parse cc env c msg st)) = cs_inFlight st"
proof -
  have failed: "cs_inFlight (snd (handleFailure cc env c msg event err (st\<lparr>cs_world := w\<rparr>))) = cs_inFlight st" for event err w
    using handleFailure_moved [of msg c "st\<lparr>cs_world := w\<rparr>" cc env event err] by (auto simp: moved_def)
  have "cs_inFlight (snd (park env c msg unparseable st)) = cs_inFlight st"
    using park_moved [of msg c st env unparseable] by (simp add: moved_def)
  then show ?thesis using failed by (auto simp: process_def ack_def split: option.split prod.split sum.split ack_fate.split)
qed

text \<open>
  C3: a message is acknowledged only when it is safe to forget it. Whatever fails in a delivery, the database,
  the channel, the broker or the acknowledgement itself, the count of deliveries in flight is what it was
  before, and the message is either left unacknowledged or acknowledged once; it is acknowledged only when the
  attempt came to an outcome, sent or a duplicate, or when the broker has confirmed a copy of it (same body, same
  id) on the dead-letter exchange, under the dead key of the channel or the key of the next retry stage.
\<close>

theorem ack_only_when_safe:
  assumes "handle parse cc env c (Some msg) st = st'"
  shows "cs_inFlight st' = cs_inFlight st \<and>
    (cs_acked st' = cs_acked st \<or>
     cs_acked st' = cs_acked st @ [msg] \<and>
     ((\<exists>event outcome w. parse (msg_content msg) = Some event \<and>
         dispatch (he_dispatch env) (CHANNEL_IMPLEMENTATIONS (he_outside env)) c event (cs_world st) = (Inr outcome, w)) \<or>
      (\<exists>p. cs_published st' = cs_published st @ [p] \<and>
         (copy_of msg (deadRoutingKeyFor c) (attemptCount msg) p \<or>
          copy_of msg (retryRoutingKeyFor c (num_succ (attemptCount msg))) (num_succ (attemptCount msg)) p))))"
proof -
  obtain r v where v: "process parse cc env c msg (st\<lparr>cs_inFlight := cs_inFlight st + 1\<rparr>) = (r, v)" by force
  then have st': "st' = v\<lparr>cs_inFlight := cs_inFlight v - 1\<rparr>" using assms by (auto simp: handle_def Let_def)
  have "cs_inFlight v = cs_inFlight st + 1" using process_inFlight [of parse cc env c msg "st\<lparr>cs_inFlight := cs_inFlight st + 1\<rparr>"] v by simp
  then show ?thesis using st' by (cases rule: process_cases [OF v]) auto
qed

section \<open>The life of a message\<close>

datatype fate = Handled DispatchOutcome | Parked string | Unacked | Dropped | Unrouted | StillRetrying

text \<open>The outcome of the attempt a delivery makes, if it came to one.\<close>

definition outcome_of ::
  "(string \<Rightarrow> TriggerFiredEvent option) \<Rightarrow> handle_env \<Rightarrow> Channel \<Rightarrow> message \<Rightarrow> cstate \<Rightarrow> DispatchOutcome option" where
  "outcome_of parse env c msg st =
     (case parse (msg_content msg) of
        None \<Rightarrow> None
      | Some event \<Rightarrow>
          (case dispatch (he_dispatch env) (CHANNEL_IMPLEMENTATIONS (he_outside env)) c event (cs_world st) of
             (Inr outcome, _) \<Rightarrow> Some outcome
           | (Inl _, _) \<Rightarrow> None))"

text \<open>
  Handle the message, let the broker route what was published by the declarations \<open>ds\<close> it has, and go on with
  what comes back. An attempt is given by what the other processes have made of the world before it and by
  its environment. The result is the fate of the message and of every copy of it: an original that stays
  unacknowledged has one beside that of its copy. A message that is acknowledged without an outcome and
  without a copy is \<open>Dropped\<close>.
\<close>

fun follow ::
  "(string \<Rightarrow> TriggerFiredEvent option) \<Rightarrow> consumer_cfg \<Rightarrow> topo_decl list \<Rightarrow> ((nworld \<Rightarrow> nworld) \<times> handle_env) list \<Rightarrow> Channel \<Rightarrow> message \<Rightarrow>
   cstate \<Rightarrow> fate list" where
  "follow parse cc ds [] c msg st = [StillRetrying]"
| "follow parse cc ds ((others, env) # envs) c msg st =
     (let st0 = st\<lparr>cs_world := others (cs_world st)\<rparr>;
          st' = handle parse cc env c (Some msg) st0;
          copies = drop (length (cs_published st0)) (cs_published st') in
      (if length (cs_acked st') = length (cs_acked st0) then [Unacked]
       else if copies = [] then [case outcome_of parse env c msg st0 of Some outcome \<Rightarrow> Handled outcome | None \<Rightarrow> Dropped]
       else []) @
      concat (map (\<lambda>p. case lands ds (pb_exchange p) (pb_key p) of
             [Redelivered c'] \<Rightarrow>
               follow parse cc ds envs c' \<lparr>msg_content = pb_content p, msg_headers = pb_headers p, msg_messageId = pb_messageId p\<rparr> st'
           | [AtRest q] \<Rightarrow> [Parked q]
           | _ \<Rightarrow> [Unrouted]) copies))"

text \<open>The ends an alert may come to on a channel.\<close>

definition ends_well :: "Channel \<Rightarrow> fate list \<Rightarrow> bool" where
  "ends_well c fs \<longleftrightarrow> fs \<noteq> [] \<and> set fs \<subseteq> {Handled DispatchOutcome.sent, Handled DispatchOutcome.skipped, Parked (deadQueueNameFor c), Unacked}"

lemma follow_bounded:
  assumes "attemptCount msg = att a" and "a \<le> length (retryDelaysMs cc)" and "length (retryDelaysMs cc) < 2 ^ 53"
    and "length (retryDelaysMs cc) < a + length envs"
  shows "ends_well c (follow parse cc (topology cc) envs c msg st)"
  using assms
proof (induction envs arbitrary: a msg st)
  case (Cons e envs)
  obtain others env where e: "e = (others, env)" by force
  let ?st = "st\<lparr>cs_world := others (cs_world st)\<rparr>"
  obtain r v where v: "process parse cc env c msg (?st\<lparr>cs_inFlight := cs_inFlight ?st + 1\<rparr>) = (r, v)" by force
  have h: "handle parse cc env c (Some msg) ?st = v\<lparr>cs_inFlight := cs_inFlight v - 1\<rparr>" using v by (simp add: handle_def Let_def)
  have a: "num_succ (attemptCount msg) = att (Suc a)" using Cons.prems(1-3) num_succ_att [of a] by simp
  from v show ?case
  proof (cases rule: process_cases)
    case kept
    then show ?thesis by (simp add: e h Let_def ends_well_def)
  next
    case (handled event w outcome)
    then show ?thesis by (cases outcome) (simp_all add: e h Let_def ends_well_def outcome_of_def)
  next
    case (parked p)
    then show ?thesis by (auto simp: e h Let_def ends_well_def copy_of_def lands_dead)
  next
    case (retried p)
    have "Suc a \<le> length (retryDelaysMs cc)" using retried(4) unfolding a by (simp add: maxAttempts_def)
    then have l: "lands (topology cc) (pb_exchange p) (pb_key p) = [Redelivered c]"
      using retried(3) a Cons.prems(3) lands_retry [of "Suc a" cc c] by (simp add: copy_of_def del: of_nat_Suc)
    have "attemptCount \<lparr>msg_content = pb_content p, msg_headers = pb_headers p, msg_messageId = pb_messageId p\<rparr> = att (Suc a)"
      using retried(3) a by (simp add: copy_of_def attemptCount_def del: of_nat_Suc)
    from Cons.IH [OF this \<open>Suc a \<le> length (retryDelaysMs cc)\<close> Cons.prems(3)] Cons.prems(4) l retried(1,2)
    show ?thesis by (auto simp: e h Let_def ends_well_def)
  qed
qed simp

lemma drain_loop_ends:
  assumes "\<And>k. clock k + DRAIN_POLL_MS \<le> clock (Suc k)" and "deadline \<le> clock k + DRAIN_POLL_MS * int n"
  shows "\<exists>j. drain_loop inFlight clock deadline k = Some j \<and> k \<le> j \<and> j \<le> k + n \<and> (inFlight j \<le> 0 \<or> deadline \<le> clock j)"
  using assms(2)
proof (induction n arbitrary: k)
  case 0
  then show ?case by (subst drain_loop.simps) auto
next
  case (Suc n)
  show ?case
  proof (cases "0 < inFlight k \<and> clock k < deadline")
    case True
    have "deadline \<le> clock (Suc k) + DRAIN_POLL_MS * int n" using Suc.prems assms(1) [of k] by (simp add: distrib_left)
    from Suc.IH [OF this] obtain j where "drain_loop inFlight clock deadline (Suc k) = Some j" "Suc k \<le> j" "j \<le> Suc k + n"
      "inFlight j \<le> 0 \<or> deadline \<le> clock j" by auto
    then show ?thesis using True by (subst drain_loop.simps) auto
  next
    case False
    then show ?thesis by (subst drain_loop.simps) auto
  qed
qed

text \<open>
  C39: shutting down terminates. If every sleep of the drain loop advances the clock by its 50 ms, the loop
  stops after at most 600 polls, either because nothing is in flight any more or because the 30 seconds
  are over, and the shutdown then closes the channel and the connection in this order; a channel that cannot be
  closed leaves the connection open.
\<close>

theorem shutdown_ends:
  assumes "\<forall>k. clock k + DRAIN_POLL_MS \<le> clock (Suc k)" and "now \<le> clock 0"
  shows "\<exists>k steps. onModuleDestroy True channelCloses connectionCloses answered consumerTags inFlight clock now =
      Some (steps @ Drained k # (if channelCloses then [ClosedChannel, if connectionCloses then ClosedConnection else CloseRejected]
        else [CloseRejected]), []) \<and> k \<le> 600 \<and>
      (inFlight k \<le> 0 \<or> now + DRAIN_TIMEOUT_MS \<le> clock k)"
  using drain_loop_ends [of clock "now + DRAIN_TIMEOUT_MS" 0 600 inFlight] assms
  by (auto simp: onModuleDestroy_def closing_def drain_def cancelConsumers_def DRAIN_TIMEOUT_MS_def DRAIN_POLL_MS_def)

theorem shutdown_ends_witness:
  "\<exists>k steps. onModuleDestroy True True True 3 [(EMAIL, ''ctag'')] (\<lambda>k. if k < 7 then 1 else 0) (\<lambda>k. 50 * int k) 0 =
     Some (steps @ [Drained k, ClosedChannel, ClosedConnection], []) \<and> k \<le> 600 \<and>
     ((if k < 7 then 1 else 0) \<le> (0 :: int) \<or> 0 + DRAIN_TIMEOUT_MS \<le> 50 * int k)"
  using shutdown_ends [of "\<lambda>k. 50 * int k" 0 True True 3 "[(EMAIL, ''ctag'')]" "\<lambda>k. if k < 7 then 1 else 0"]
  by (simp add: DRAIN_POLL_MS_def)

section \<open>Concrete deliveries\<close>

definition cc0 :: consumer_cfg where
  "cc0 = consumer_new None Undef Undef"

definition fresh_msg :: message where
  "fresh_msg = \<lparr>msg_content = ''{}'', msg_headers = [(EVENT_ID_HEADER, HStr ''e1'')], msg_messageId = Some ''e1''\<rparr>"

definition busy_env :: "instant \<Rightarrow> handle_env" where
  "busy_env t = \<lparr>he_dispatch = good_dispatch t, he_outside = healthy\<lparr>os_telegram := (\<lambda>_. Refused ''503'')\<rparr>,
     he_failed = good_dispatch t, he_publish = Committed, he_ackSent = AckTaken, he_ackCopied = AckTaken, he_dbMsg = (\<lambda>_. ''db'')\<rparr>"

definition alone :: "handle_env \<Rightarrow> (nworld \<Rightarrow> nworld) \<times> handle_env" where
  "alone env = (\<lambda>w. w, env)"

definition cs0 :: cstate where
  "cs0 = \<lparr>cs_world = quiet_world, cs_published = [], cs_acked = [], cs_inFlight = 0\<rparr>"

lemma cc0_delays: "retryDelaysMs cc0 = [5000, 30000, 300000]"
  by (simp add: cc0_def consumer_new_def parseDelays_def DEFAULT_RETRY_DELAYS_MS_def)

lemma busy_message_is_parked:
  "follow (\<lambda>_. Some heat_event) cc0 (topology cc0) (map (\<lambda>t. alone (busy_env t)) [1, 2, 3, 4]) TELEGRAM fresh_msg cs0 =
   [Parked ''notifications.telegram.dead'']"
  by code_simp

theorem ack_only_when_safe_witness:
  "let st' = handle (\<lambda>_. Some heat_event) cc0 (busy_env 1) TELEGRAM (Some fresh_msg) cs0 in
     cs_inFlight st' = 0 \<and> cs_acked st' = [fresh_msg] \<and> (\<exists>p. cs_published st' = [p] \<and> pb_content p = ''{}'')"
proof -
  let ?st = "handle (\<lambda>_. Some heat_event) cc0 (busy_env 1) TELEGRAM (Some fresh_msg) cs0"
  have "cs_acked ?st \<noteq> cs_acked cs0" by code_simp
  with ack_only_when_safe [OF refl] have "cs_acked ?st = [fresh_msg]" "cs_inFlight ?st = 0" by (metis append_Nil cs0_def cstate.select_convs(3), simp add: cs0_def)
  moreover have "map pb_content (cs_published ?st) = [''{}'']" by code_simp
  ultimately show ?thesis by (auto simp: Let_def map_eq_Cons_conv)
qed

text \<open>A malformed attempts header: the copy goes to a key no queue is bound to, and the original is acknowledged.\<close>

lemma malformed_attempts_lost:
  "follow (\<lambda>_. Some heat_event) cc0 (topology cc0) [alone (busy_env 1)] TELEGRAM
     (fresh_msg\<lparr>msg_headers := [(ATTEMPTS_HEADER, HStr ''one'')]\<rparr>) cs0 = [Unrouted]"
  by code_simp

text \<open>
  An acknowledgement that throws after the alert went out is taken for a failed delivery: on the last attempt the
  delivery, sent a moment ago, is recorded as failed and its message is parked.
\<close>

lemma sent_then_parked:
  "let env = busy_env 1\<lparr>he_outside := healthy, he_ackSent := AckThrew ''Channel closed''\<rparr>;
       msg = fresh_msg\<lparr>msg_headers := [(ATTEMPTS_HEADER, HNum (Fin 3))]\<rparr>;
       st' = handle (\<lambda>_. Some heat_event) cc0 env TELEGRAM (Some msg) cs0 in
   outcome_of (\<lambda>_. Some heat_event) env TELEGRAM msg cs0 = Some DispatchOutcome.sent \<and>
   map n_status (notifications (nw_db (cs_world st'))) = [FAILED] \<and> map pb_key (cs_published st') = [deadRoutingKeyFor TELEGRAM]"
  by code_simp

end
