(* ===== verification/TelegramBot.thy ===== *)
theory TelegramBot
  imports Users
begin

text \<open>
  \<open>telegram-bot.service.ts\<close> of core-api: the long-polling bot that binds chats to accounts. One replica
  polls at a time, the one that holds the lock; the offset of the next update lives in its memory and,
  after every pass that moved it, in Redis, where the next leader finds it. Telegram is a parameter: what
  \<open>getUpdates\<close> returns for an offset and whether a reply arrives. The unbounded loops are followed over
  the list of the passes (and terms of leadership) they go through; a step relation takes the replicas apart into
  single steps, in any order and cut short anywhere; how long the loops wait is the subject of a last section.
\<close>

section \<open>Updates and replies\<close>

record TelegramUpdate =
  tu_update_id :: int
  tu_message :: "(int \<times> string option) option"

definition POLL_LOCK_KEY :: string where "POLL_LOCK_KEY = ''core-api:telegram:poller''"
definition POLL_LOCK_TTL_SEC :: int where "POLL_LOCK_TTL_SEC = 90"
definition POLL_OFFSET_KEY :: string where "POLL_OFFSET_KEY = ''core-api:telegram:offset''"

definition GREETING :: string where
  "GREETING = ''Hi! To receive weather notifications, open the '' @ [CHR 0x22] @ ''Settings'' @ [CHR 0x22] @
     '' section in Weather Notify and tap '' @ [CHR 0x22] @ ''Link Telegram.'' @ [CHR 0x22]"

definition LINKED :: string where
  "LINKED = [CHR 0xE2, CHR 0x9C, CHR 0x85] @ '' Telegram linked! You will now receive weather notifications here.''"

definition LINK_INVALID :: string where
  "LINK_INVALID = [CHR 0xE2, CHR 0x9A, CHR 0xA0, CHR 0xEF, CHR 0xB8, CHR 0x8F] @
     '' The link is invalid or expired. Generate a new one in the Weather Notify settings.''"

text \<open>
  The state of one replica: the shared database and Redis, its two offsets, the replies that went out,
  and, for the properties, the ids of the updates it handled in their order.
\<close>

record 'r bot =
  bo_api :: "'r api"
  bo_offset :: rat
  bo_persistedOffset :: rat
  bo_replies :: "(int \<times> string) list"
  bo_handled :: "int list"

text \<open>\<open>text.split(/\s+/)[1]\<close> of a trimmed text: its second word.\<close>

definition linkToken :: "string \<Rightarrow> string option" where
  "linkToken s = (let rest = dropWhile is_ws (dropWhile (\<lambda>c. \<not> is_ws c) s) in
     if rest = [] then None else Some (takeWhile (\<lambda>c. \<not> is_ws c) rest))"

fun bot_reply :: "io \<Rightarrow> int \<Rightarrow> string \<Rightarrow> 'r bot \<Rightarrow> bool \<times> 'r bot" where
  "bot_reply Replied chatId msg s = (True, s\<lparr>bo_replies := bo_replies s @ [(chatId, msg)]\<rparr>)"
| "bot_reply LostBefore chatId msg s = (False, s)"
| "bot_reply LostAfter chatId msg s = (False, s\<lparr>bo_replies := bo_replies s @ [(chatId, msg)]\<rparr>)"

text \<open>The value is whether the handler returned; a rejection is logged by the caller and dropped.\<close>

definition bot_handle :: "crypto \<Rightarrow> request_env \<Rightarrow> io \<Rightarrow> TelegramUpdate \<Rightarrow> 'r bot \<Rightarrow> bool \<times> 'r bot" where
  "bot_handle C env c update s =
     (case tu_message update of
        None \<Rightarrow> (True, s)
      | Some (chatId, None) \<Rightarrow> (True, s)
      | Some (chatId, Some raw) \<Rightarrow>
          let msg = js_trim raw in
          if msg = [] \<or> take 6 msg \<noteq> ''/start'' then (True, s)
          else case linkToken msg of
                 None \<Rightarrow> bot_reply c chatId GREETING s
               | Some token \<Rightarrow>
                   (case bindTelegram C env token (show_int chatId) (bo_api s) of
                      (Inl _, a) \<Rightarrow> (False, s\<lparr>bo_api := a\<rparr>)
                    | (Inr bound, a) \<Rightarrow> bot_reply c chatId (if bound then LINKED else LINK_INVALID) (s\<lparr>bo_api := a\<rparr>)))"

section \<open>One pass\<close>

text \<open>
  \<open>pa_updates\<close> is the answer to \<open>getUpdates\<close> (nothing when the request failed), \<open>pa_running\<close> and
  \<open>pa_alive\<close> what the flag is at the head of the loop and after a failed request.
\<close>

record pass_env =
  pa_running :: bool
  pa_alive :: bool
  pa_updates :: "rat \<Rightarrow> (bool \<times> TelegramUpdate list) option"
  pa_requests :: "nat \<Rightarrow> request_env"
  pa_replies :: "nat \<Rightarrow> io"
  pa_cursor :: io
  pa_lease :: io
  pa_now :: instant

definition getUpdates :: "pass_env \<Rightarrow> rat \<Rightarrow> TelegramUpdate list option" where
  "getUpdates p offset = map_option (\<lambda>(ok, res). if ok then res else []) (pa_updates p offset)"

text \<open>One turn of the inner loop: the handler runs, returns or is caught, and the offset moves in either case.\<close>

definition work_one :: "crypto \<Rightarrow> request_env \<Rightarrow> io \<Rightarrow> TelegramUpdate \<Rightarrow> 'r bot \<Rightarrow> 'r bot" where
  "work_one C env c u s =
     (snd (bot_handle C env c u (s\<lparr>bo_handled := bo_handled s @ [tu_update_id u]\<rparr>)))\<lparr>bo_offset := of_int (tu_update_id u + 1)\<rparr>"

fun handle_updates :: "crypto \<Rightarrow> pass_env \<Rightarrow> nat \<Rightarrow> TelegramUpdate list \<Rightarrow> 'r bot \<Rightarrow> 'r bot" where
  "handle_updates C p i [] s = s"
| "handle_updates C p i (u # us) s = handle_updates C p (Suc i) us (work_one C (pa_requests p i) (pa_replies p i) u s)"

definition loadOffset :: "'r redis \<Rightarrow> io \<Rightarrow> instant \<Rightarrow> 'r bot \<Rightarrow> 'r bot" where
  "loadOffset R c now s =
     (case getCursor R c (ap_redis (bo_api s)) now POLL_OFFSET_KEY of
        Inr (Some stored) \<Rightarrow> if bo_offset s < stored then s\<lparr>bo_offset := stored, bo_persistedOffset := stored\<rparr> else s
      | _ \<Rightarrow> s)"

definition persistOffset :: "'r redis \<Rightarrow> io \<Rightarrow> instant \<Rightarrow> 'r bot \<Rightarrow> 'r bot" where
  "persistOffset R c now s =
     (if bo_offset s = bo_persistedOffset s then s
      else case setCursor R c (ap_redis (bo_api s)) now POLL_OFFSET_KEY (bo_offset s) of
             (Inl _, r) \<Rightarrow> s\<lparr>bo_api := (bo_api s)\<lparr>ap_redis := r\<rparr>\<rparr>
           | (Inr _, r) \<Rightarrow> s\<lparr>bo_api := (bo_api s)\<lparr>ap_redis := r\<rparr>, bo_persistedOffset := bo_offset s\<rparr>)"

definition extendLease :: "'r redis \<Rightarrow> io \<Rightarrow> instant \<Rightarrow> string \<Rightarrow> 'r \<Rightarrow> bool \<times> 'r" where
  "extendLease R c now lock r =
     (case extendLock R c r now POLL_LOCK_KEY lock POLL_LOCK_TTL_SEC of (Inl _, r') \<Rightarrow> (False, r') | (Inr b, r') \<Rightarrow> (b, r'))"

text \<open>One turn of the loop, and whether it goes on.\<close>

definition poll_pass :: "'r redis \<Rightarrow> crypto \<Rightarrow> string \<Rightarrow> pass_env \<Rightarrow> 'r bot \<Rightarrow> bool \<times> 'r bot" where
  "poll_pass R C lock p s =
     (let (failed, s1) = (case getUpdates p (bo_offset s) of
                            None \<Rightarrow> (True, s)
                          | Some us \<Rightarrow> (False, persistOffset R (pa_cursor p) (pa_now p) (handle_updates C p 0 us s)))
      in if failed \<and> \<not> pa_alive p then (False, s1)
         else case extendLease R (pa_lease p) (pa_now p) lock (ap_redis (bo_api s1)) of
                (held, r) \<Rightarrow> (held, s1\<lparr>bo_api := (bo_api s1)\<lparr>ap_redis := r\<rparr>\<rparr>))"

fun pollWhileLeader :: "'r redis \<Rightarrow> crypto \<Rightarrow> string \<Rightarrow> pass_env list \<Rightarrow> 'r bot \<Rightarrow> 'r bot" where
  "pollWhileLeader R C lock [] s = s"
| "pollWhileLeader R C lock (p # ps) s =
     (if \<not> pa_running p then s
      else case poll_pass R C lock p s of
             (True, s') \<Rightarrow> pollWhileLeader R C lock ps s'
           | (False, s') \<Rightarrow> s')"

section \<open>Terms of leadership\<close>

text \<open>
  \<open>run\<close> as one replica goes through it when nothing stops it half-way. A replica that dies between two steps of a
  pass, or that goes on after its lease has run out, is the subject of a section of its own below.
\<close>

record term_env =
  te_running :: bool
  te_token :: string
  te_acquire :: io
  te_load :: io
  te_release :: io
  te_from :: instant
  te_until :: instant
  te_passes :: "pass_env list"

fun bot_run :: "'r redis \<Rightarrow> crypto \<Rightarrow> term_env list \<Rightarrow> 'r bot \<Rightarrow> 'r bot" where
  "bot_run R C [] s = s"
| "bot_run R C (t # ts) s =
     (if \<not> te_running t then s
      else case acquireLock R (te_acquire t) (ap_redis (bo_api s)) (te_from t) (te_token t) POLL_LOCK_KEY POLL_LOCK_TTL_SEC of
             (Inr (Some lock), r) \<Rightarrow>
               let s1 = pollWhileLeader R C lock (te_passes t)
                          (loadOffset R (te_load t) (te_from t) (s\<lparr>bo_api := (bo_api s)\<lparr>ap_redis := r\<rparr>\<rparr>));
                   r' = snd (releaseLock R (te_release t) (ap_redis (bo_api s1)) (te_until t) POLL_LOCK_KEY lock)
               in bot_run R C ts (s1\<lparr>bo_api := (bo_api s1)\<lparr>ap_redis := r'\<rparr>\<rparr>)
           | (_, r) \<Rightarrow> bot_run R C ts (s\<lparr>bo_api := (bo_api s)\<lparr>ap_redis := r\<rparr>\<rparr>))"

text \<open>Without a bot token the replica never polls.\<close>

definition bot_onModuleInit :: "'r redis \<Rightarrow> crypto \<Rightarrow> cfg \<Rightarrow> term_env list \<Rightarrow> 'r bot \<Rightarrow> 'r bot" where
  "bot_onModuleInit R C token ts s = (case token of Str (c # cs) \<Rightarrow> bot_run R C ts s | _ \<Rightarrow> s)"

section \<open>Terms in turn\<close>

text \<open>
  What Telegram documents of \<open>getUpdates\<close>: it returns updates from the offset on, in the order of their
  ids, which are strictly increasing (and here small enough to be exact numbers).
\<close>

definition telegram_contract :: "(rat \<Rightarrow> (bool \<times> TelegramUpdate list) option) \<Rightarrow> bool" where
  "telegram_contract f \<longleftrightarrow> (\<forall>offset ok us. f offset = Some (ok, us) \<longrightarrow>
     sorted_wrt (<) (map tu_update_id us) \<and> (\<forall>u \<in> set us. offset \<le> of_int (tu_update_id u) \<and> tu_update_id u < 2 ^ 53))"

text \<open>
  The replicas of core-api: each keeps its own offsets, all share the database and Redis. In this section their
  terms are undisturbed and follow one another; the next one takes them apart.
\<close>

record 'r fleet =
  fl_api :: "'r api"
  fl_memory :: "nat \<Rightarrow> rat \<times> rat"
  fl_replies :: "(int \<times> string) list"
  fl_handled :: "int list"

definition replica :: "'r fleet \<Rightarrow> nat \<Rightarrow> 'r bot" where
  "replica f i = \<lparr>bo_api = fl_api f, bo_offset = fst (fl_memory f i), bo_persistedOffset = snd (fl_memory f i),
     bo_replies = fl_replies f, bo_handled = fl_handled f\<rparr>"

definition put_replica :: "'r fleet \<Rightarrow> nat \<Rightarrow> 'r bot \<Rightarrow> 'r fleet" where
  "put_replica f i s =
     \<lparr>fl_api = bo_api s, fl_memory = (fl_memory f)(i := (bo_offset s, bo_persistedOffset s)), fl_replies = bo_replies s, fl_handled = bo_handled s\<rparr>"

definition leads :: "'r redis \<Rightarrow> crypto \<Rightarrow> cfg \<Rightarrow> nat \<times> term_env \<Rightarrow> 'r fleet \<Rightarrow> 'r fleet" where
  "leads R C token x f = put_replica f (fst x) (bot_onModuleInit R C token [snd x] (replica f (fst x)))"

text \<open>Redis answers the reads and writes of the cursor; everything else may fail.\<close>

definition cursor_served :: "term_env \<Rightarrow> bool" where
  "cursor_served t \<longleftrightarrow> te_load t = Replied \<and>
     list_all (\<lambda>p. pa_cursor p = Replied \<and> telegram_contract (pa_updates p)) (te_passes t)"

text \<open>The stored cursor is \<open>n\<close>; nothing stored stands for 0.\<close>

definition cursor_at :: "(string \<Rightarrow> entry option) \<Rightarrow> nat \<Rightarrow> bool" where
  "cursor_at v n \<longleftrightarrow> n \<le> 2 ^ 53 \<and> (n = 0 \<and> v POLL_OFFSET_KEY = None \<or> v POLL_OFFSET_KEY = Some (show_nat n, None))"

text \<open>What holds of the leader between its passes: memory and cursor agree, and are past every update handled.\<close>

definition in_step :: "('r \<Rightarrow> string \<Rightarrow> entry option) \<Rightarrow> 'r bot \<Rightarrow> nat \<Rightarrow> bool" where
  "in_step view s n \<longleftrightarrow> cursor_at (view (ap_redis (bo_api s))) n \<and> bo_offset s = of_nat n \<and> bo_persistedOffset s = of_nat n \<and>
     sorted_wrt (<) (bo_handled s) \<and> (\<forall>i \<in> set (bo_handled s). i < int n)"

lemma bindTelegram_redis [simp]: "ap_redis (snd (bindTelegram C env token chat s)) = ap_redis s"
  by (cases "rq_sql env 0"; cases "rq_sql env 1")
    (auto simp: bindTelegram_def act_simps split: option.splits sum.splits prod.splits)

lemma bot_reply_same:
  "bo_api (snd (bot_reply c chat msg s)) = bo_api s" "bo_handled (snd (bot_reply c chat msg s)) = bo_handled s"
  "bo_persistedOffset (snd (bot_reply c chat msg s)) = bo_persistedOffset s"
  by (cases c; simp)+

lemma bot_handle_same:
  "ap_redis (bo_api (snd (bot_handle C env c u s))) = ap_redis (bo_api s)" "bo_handled (snd (bot_handle C env c u s)) = bo_handled s"
  "bo_persistedOffset (snd (bot_handle C env c u s)) = bo_persistedOffset s"
  using bindTelegram_redis [of C env _ _ "bo_api s"]
  by (auto simp: bot_handle_def bot_reply_same Let_def split: option.splits prod.splits sum.splits; metis snd_conv)+

lemma handle_updates_same:
  "ap_redis (bo_api (handle_updates C p i us s)) = ap_redis (bo_api s)"
  "bo_handled (handle_updates C p i us s) = bo_handled s @ map tu_update_id us"
  "bo_persistedOffset (handle_updates C p i us s) = bo_persistedOffset s"
  "bo_offset (handle_updates C p i us s) = (if us = [] then bo_offset s else of_int (tu_update_id (last us) + 1))"
  by (induction us arbitrary: i s) (simp_all add: bot_handle_same work_one_def)

context redis_spec
begin

lemma lock_ops_frame:
  assumes "k \<noteq> k'" and "0 < ttl"
  shows "view (snd (acquireLock R c s now tok k ttl)) k' = view s k'" "view (snd (extendLock R c s now k tok ttl)) k' = view s k'"
    "view (snd (releaseLock R c s now k tok)) k' = view s k'"
proof -
  show "view (snd (acquireLock R c s now tok k ttl)) k' = view s k'"
    using set_effect [of "Some (1000 * ttl)" s now k tok True] assms
    by (cases "rset R s now k tok (Some (1000 * ttl)) True"; cases c) (auto simp: acquireLock_def set_view_def split: if_splits)
  have "view (snd (rpexpire R s now k (1000 * ttl))) k' = view s k'"
    using assms pexpire_dead [of now s k "1000 * ttl"] pexpire_live [of now s k _ _ "1000 * ttl"]
    by (cases "live now (view s k)") auto
  then show "view (snd (extendLock R c s now k tok ttl)) k' = view s k'"
    by (cases "rpexpire R s now k (1000 * ttl)"; cases c) (auto simp: extendLock_def EXTEND_IF_OWNED_def)
  show "view (snd (releaseLock R c s now k tok)) k' = view s k'"
    using del_effect [of s now k] assms by (cases "rdel R s now k"; cases c) (auto simp: releaseLock_def RELEASE_IF_OWNED_def)
qed

lemma cursor_write:
  assumes "n \<le> 2 ^ 53"
  shows "\<exists>r'. setCursor R Replied r now POLL_OFFSET_KEY (of_nat n) = (Inr (), r') \<and> cursor_at (view r') n"
proof -
  have "js_show (of_nat n) = show_nat n" using assms js_show_of_int [of "int n"] by (simp add: show_int_def)
  then show ?thesis
    using set_effect [of None r now POLL_OFFSET_KEY "show_nat n" False] assms
    by (cases "rset R r now POLL_OFFSET_KEY (show_nat n) None False") (auto simp: setCursor_def set_view_def cursor_at_def)
qed

lemma cursor_read:
  assumes "cursor_at (view r) n"
  shows "getCursor R Replied r now POLL_OFFSET_KEY = Inr (if view r POLL_OFFSET_KEY = None then None else Some (of_nat n))"
  using assms js_Number_show_nat [of n] by (auto simp: cursor_at_def getCursor_def get)

lemma poll_pass_in_step:
  assumes "in_step view s n" and "pa_cursor p = Replied" and "telegram_contract (pa_updates p)"
    and "poll_pass R C lock p s = (b, s')"
  shows "\<exists>m \<ge> n. in_step view s' m"
proof -
  have lease: "in_step view (s1\<lparr>bo_api := (bo_api s1)\<lparr>ap_redis := r\<rparr>\<rparr>) m"
    if "in_step view s1 m" "extendLease R (pa_lease p) (pa_now p) lock (ap_redis (bo_api s1)) = (h, r)" for s1 :: "'s bot" and h r m
  proof -
    have "view r POLL_OFFSET_KEY = view (ap_redis (bo_api s1)) POLL_OFFSET_KEY"
      using that(2) lock_ops_frame(2) [of POLL_LOCK_KEY POLL_OFFSET_KEY POLL_LOCK_TTL_SEC "pa_lease p" "ap_redis (bo_api s1)" "pa_now p" lock]
      by (auto simp: extendLease_def POLL_LOCK_KEY_def POLL_OFFSET_KEY_def POLL_LOCK_TTL_SEC_def split: prod.splits sum.splits)
    then show ?thesis using that(1) by (simp add: in_step_def cursor_at_def)
  qed
  show ?thesis
  proof (cases "getUpdates p (bo_offset s)")
    case None
    then show ?thesis using assms(1,4) lease [OF assms(1)] by (auto simp: poll_pass_def split: if_splits prod.splits)
  next
    case (Some us)
    let ?s = "handle_updates C p 0 us s" and ?ids = "map tu_update_id us"
    have "(of_nat n \<le> (of_int i :: rat)) = (int n \<le> i)" for i by (metis of_int_le_iff of_int_of_nat_eq)
    then have ids: "sorted_wrt (<) ?ids" "\<And>u. u \<in> set us \<Longrightarrow> int n \<le> tu_update_id u \<and> tu_update_id u < 2 ^ 53"
      using Some assms(1,3) by (fastforce simp: getUpdates_def telegram_contract_def in_step_def split: if_splits)+
    define m where "m = (if us = [] then n else nat (tu_update_id (last us) + 1))"
    have m: "n \<le> m" "m \<le> 2 ^ 53" "bo_offset ?s = of_nat m"
      using ids(2) [of "last us"] assms(1) by (auto simp: m_def in_step_def cursor_at_def handle_updates_same)
    have last: "tu_update_id u \<le> tu_update_id (last us)" if "u \<in> set us" for u
      using ids(1) that by (cases us rule: rev_cases) (auto simp: sorted_wrt_append less_imp_le)
    have h: "sorted_wrt (<) (bo_handled ?s)" "\<forall>i \<in> set (bo_handled ?s). i < int m"
      using ids assms(1) m(1) last by (fastforce simp: handle_updates_same sorted_wrt_append in_step_def m_def)+
    have "in_step view (persistOffset R (pa_cursor p) (pa_now p) ?s) m"
      using assms(1,2) m h cursor_write [OF m(2), of "ap_redis (bo_api s)" "pa_now p"]
      by (auto simp: persistOffset_def in_step_def handle_updates_same)
    from lease [OF this] assms(4) Some m(1) show ?thesis by (auto simp: poll_pass_def split: prod.splits)
  qed
qed

lemma pollWhileLeader_in_step:
  assumes "in_step view s n" and "list_all (\<lambda>p. pa_cursor p = Replied \<and> telegram_contract (pa_updates p)) ps"
  shows "\<exists>m \<ge> n. in_step view (pollWhileLeader R C lock ps s) m"
  using assms
proof (induction ps arbitrary: s n)
  case (Cons p ps)
  obtain b s' where b: "poll_pass R C lock p s = (b, s')" by force
  with Cons.prems obtain m where m: "n \<le> m" "in_step view s' m" using poll_pass_in_step [OF Cons.prems(1) _ _ b] by auto
  from Cons.IH [OF m(2)] Cons.prems m b show ?case by (cases b) (auto intro: order_trans)
qed auto

end

text \<open>Between terms every replica is at or behind the cursor.\<close>

definition fleet_ok :: "('r \<Rightarrow> string \<Rightarrow> entry option) \<Rightarrow> 'r fleet \<Rightarrow> nat \<Rightarrow> bool" where
  "fleet_ok view f n \<longleftrightarrow> cursor_at (view (ap_redis (fl_api f))) n \<and>
     (\<forall>i. 0 \<le> fst (fl_memory f i) \<and> fst (fl_memory f i) \<le> of_nat n \<and> snd (fl_memory f i) = fst (fl_memory f i)) \<and>
     sorted_wrt (<) (fl_handled f) \<and> (\<forall>i \<in> set (fl_handled f). i < int n)"

lemma in_step_fleet:
  assumes "in_step view s m" and "fleet_ok view f n" and "n \<le> m"
  shows "fleet_ok view \<lparr>fl_api = bo_api s, fl_memory = (fl_memory f)(i := (bo_offset s, bo_persistedOffset s)),
    fl_replies = bo_replies s, fl_handled = bo_handled s\<rparr> m"
proof -
  have "fst (fl_memory f j) \<le> of_nat m" for j using assms(2,3) by (meson fleet_ok_def of_nat_le_iff order_trans)
  then show ?thesis using assms(1,2) by (simp add: in_step_def fleet_ok_def)
qed

context redis_spec
begin

lemma load_in_step:
  assumes "fleet_ok view f n" and "view r POLL_OFFSET_KEY = view (ap_redis (fl_api f)) POLL_OFFSET_KEY"
  shows "in_step view (loadOffset R Replied now ((replica f i)\<lparr>bo_api := (fl_api f)\<lparr>ap_redis := r\<rparr>\<rparr>)) n"
proof -
  have c: "cursor_at (view r) n" using assms by (simp add: fleet_ok_def cursor_at_def)
  have o: "0 \<le> fst (fl_memory f i)" "fst (fl_memory f i) \<le> of_nat n" "snd (fl_memory f i) = fst (fl_memory f i)"
    using assms(1) by (simp_all add: fleet_ok_def)
  have "view r POLL_OFFSET_KEY = None \<Longrightarrow> n = 0" using c by (auto simp: cursor_at_def)
  then show ?thesis using c o assms(1) cursor_read [OF c, of now]
    by (cases "fst (fl_memory f i) < of_nat n"; cases "view r POLL_OFFSET_KEY") (auto simp: loadOffset_def replica_def in_step_def fleet_ok_def dest: antisym)
qed

lemma leads_ok:
  assumes "fleet_ok view f n" and "cursor_served (snd x)"
  shows "\<exists>m \<ge> n. fleet_ok view (leads R C token x f) m"
proof -
  obtain i t where x: "x = (i, t)" by force
  let ?s = "replica f i"
  obtain a r where a: "acquireLock R (te_acquire t) (ap_redis (fl_api f)) (te_from t) (te_token t) POLL_LOCK_KEY POLL_LOCK_TTL_SEC = (a, r)"
    by force
  have k: "POLL_LOCK_KEY \<noteq> POLL_OFFSET_KEY" and ttl: "0 < POLL_LOCK_TTL_SEC"
    by (simp_all add: POLL_LOCK_KEY_def POLL_OFFSET_KEY_def POLL_LOCK_TTL_SEC_def)
  have r: "view r POLL_OFFSET_KEY = view (ap_redis (fl_api f)) POLL_OFFSET_KEY"
    using lock_ops_frame(1) [OF k ttl, of "te_acquire t" "ap_redis (fl_api f)" "te_from t" "te_token t"] a by simp
  show ?thesis
  proof (cases "(\<exists>c cs. token = Str (c # cs)) \<and> te_running t")
    case False
    then have "bot_onModuleInit R C token [t] ?s = ?s" by (auto simp: bot_onModuleInit_def split: cfg.splits list.splits)
    then have "leads R C token x f = f" by (simp add: leads_def put_replica_def x replica_def)
    then show ?thesis using assms(1) by auto
  next
    case on: True
    show ?thesis
    proof (cases "\<exists>lock. a = Inr (Some lock)")
      case False
      then have "bot_onModuleInit R C token [t] ?s = ?s\<lparr>bo_api := (fl_api f)\<lparr>ap_redis := r\<rparr>\<rparr>"
        using on a by (auto simp: bot_onModuleInit_def replica_def split: sum.splits option.splits)
      then show ?thesis using assms(1) r by (intro exI [of _ n]) (auto simp: leads_def put_replica_def x replica_def fleet_ok_def cursor_at_def)
    next
      case True
      then obtain lock where l: "a = Inr (Some lock)" by blast
      define s1 where "s1 = pollWhileLeader R C lock (te_passes t) (loadOffset R (te_load t) (te_from t) (?s\<lparr>bo_api := (fl_api f)\<lparr>ap_redis := r\<rparr>\<rparr>))"
      define r' where "r' = snd (releaseLock R (te_release t) (ap_redis (bo_api s1)) (te_until t) POLL_LOCK_KEY lock)"
      obtain m where m: "n \<le> m" "in_step view s1 m"
        using pollWhileLeader_in_step [OF load_in_step [OF assms(1) r, of "te_from t" i], of "te_passes t" C lock] assms(2)
        by (auto simp: s1_def cursor_served_def x)
      have "view r' POLL_OFFSET_KEY = view (ap_redis (bo_api s1)) POLL_OFFSET_KEY" unfolding r'_def by (rule lock_ops_frame(3) [OF k ttl])
      then have "in_step view (s1\<lparr>bo_api := (bo_api s1)\<lparr>ap_redis := r'\<rparr>\<rparr>) m" using m(2) by (simp add: in_step_def cursor_at_def)
      from in_step_fleet [OF this assms(1) m(1), of i]
      have "fleet_ok view (leads R C token x f) m"
        using on a l by (auto simp: leads_def put_replica_def x bot_onModuleInit_def replica_def s1_def r'_def Let_def)
      then show ?thesis using m(1) by blast
    qed
  qed
qed

end

text \<open>
  As long as the terms follow one another, no term is cut short and Redis answers the reads and writes of the
  cursor, the updates are handled in the order of their ids and each at most once, whatever handlers, replies
  and lock commands fail.
\<close>

lemma updates_handled_once:
  assumes "redis_spec R view" and "view (ap_redis (fl_api f)) POLL_OFFSET_KEY = None"
    and "fl_memory f = (\<lambda>_. (0, 0))" and "fl_handled f = []" and "list_all (\<lambda>x. cursor_served (snd x)) xs"
  shows "sorted_wrt (<) (fl_handled (fold (leads R C token) xs f))"
proof -
  have "\<exists>n. fleet_ok view (fold (leads R C token) xs g) n" if "fleet_ok view g n" for g n
    using that assms(5)
  proof (induction xs arbitrary: g n)
    case (Cons x xs)
    from redis_spec.leads_ok [OF assms(1) Cons.prems(1), of x C token] Cons.prems(2) obtain m where "fleet_ok view (leads R C token x g) m" by auto
    from Cons.IH [OF this] Cons.prems(2) show ?case by simp
  qed auto
  moreover have "fleet_ok view f 0" using assms(2-4) by (simp add: fleet_ok_def cursor_at_def)
  ultimately obtain n where "fleet_ok view (fold (leads R C token) xs f) n" by blast
  then show ?thesis by (simp add: fleet_ok_def)
qed

section \<open>No update is skipped\<close>

text \<open>
  The replicas step by step, in any order: a leader may die between any two steps and come back empty-handed, may be
  slow enough for its lease to run out while another has taken over, and may fail to read or store the
  cursor. Nothing below depends on the lock. Telegram numbers the updates upwards, keeps them until a request with a
  higher offset confirms them, and answers a request with the first of those that are left, or not at all.
  \<open>po_stage\<close> holds what a replica still has to handle of the last answer.
\<close>

record 'r polling =
  po_fleet :: "'r fleet"
  po_stage :: "nat \<Rightarrow> TelegramUpdate list option"
  po_queue :: "TelegramUpdate list"
  po_arrived :: "int list"

definition unconfirmed :: "rat \<Rightarrow> TelegramUpdate list \<Rightarrow> TelegramUpdate list" where
  "unconfirmed offset us = filter (\<lambda>u. offset \<le> of_int (tu_update_id u)) us"

inductive poll_step :: "'r redis \<Rightarrow> ('r \<Rightarrow> string \<Rightarrow> entry option) \<Rightarrow> crypto \<Rightarrow> 'r polling \<Rightarrow> 'r polling \<Rightarrow> bool" for R view C where
  arrive: "\<forall>j \<in> set (po_arrived w). j < tu_update_id u \<Longrightarrow> 0 \<le> tu_update_id u \<Longrightarrow> tu_update_id u < 2 ^ 53 \<Longrightarrow>
    poll_step R view C w (w\<lparr>po_queue := po_queue w @ [u], po_arrived := po_arrived w @ [tu_update_id u]\<rparr>)"
| load: "po_stage w i = None \<Longrightarrow>
    poll_step R view C w (w\<lparr>po_fleet := put_replica (po_fleet w) i (loadOffset R c now (replica (po_fleet w) i))\<rparr>)"
| ask: "po_stage w i = None \<Longrightarrow> q = unconfirmed (bo_offset (replica (po_fleet w) i)) (po_queue w) \<Longrightarrow> answer \<in> {None, Some (take k q)} \<Longrightarrow>
    poll_step R view C w (w\<lparr>po_queue := q, po_stage := (po_stage w)(i := answer)\<rparr>)"
| work: "po_stage w i = Some (u # us) \<Longrightarrow>
    poll_step R view C w (w\<lparr>po_fleet := put_replica (po_fleet w) i (work_one C env c u (replica (po_fleet w) i)), po_stage := (po_stage w)(i := Some us)\<rparr>)"
| save: "po_stage w i = Some [] \<Longrightarrow>
    poll_step R view C w (w\<lparr>po_fleet := put_replica (po_fleet w) i (persistOffset R c now (replica (po_fleet w) i)), po_stage := (po_stage w)(i := None)\<rparr>)"
| die: "poll_step R view C w (w\<lparr>po_fleet := (po_fleet w)\<lparr>fl_memory := (fl_memory (po_fleet w))(i := (0, 0))\<rparr>, po_stage := (po_stage w)(i := None)\<rparr>)"
| others: "view (ap_redis a) POLL_OFFSET_KEY = view (ap_redis (fl_api (po_fleet w))) POLL_OFFSET_KEY \<Longrightarrow>
    poll_step R view C w (w\<lparr>po_fleet := (po_fleet w)\<lparr>fl_api := a\<rparr>\<rparr>)"

lemma replica_put [simp]:
  "replica (put_replica f i s) i = s" "put_replica (put_replica f i s) i s' = put_replica f i s'" "put_replica f i (replica f i) = f"
  by (simp_all add: replica_def put_replica_def)

text \<open>One pass of the loop is a run of these steps, if its answer is one Telegram may give.\<close>

lemma handle_updates_run:
  assumes "po_stage w i = Some us"
  shows "(poll_step R view C)\<^sup>*\<^sup>* w (w\<lparr>po_fleet := put_replica (po_fleet w) i (handle_updates C p n us (replica (po_fleet w) i)),
    po_stage := (po_stage w)(i := Some [])\<rparr>)"
  using assms
proof (induction us arbitrary: w n)
  case (Cons u us)
  let ?s = "work_one C (pa_requests p n) (pa_replies p n) u (replica (po_fleet w) i)"
  let ?w = "w\<lparr>po_fleet := put_replica (po_fleet w) i ?s, po_stage := (po_stage w)(i := Some us)\<rparr>"
  have "handle_updates C p n (u # us) (replica (po_fleet w) i) = handle_updates C p (Suc n) us ?s" by simp
  moreover have "poll_step R view C w ?w" using Cons.prems by (rule work)
  moreover have "(poll_step R view C)\<^sup>*\<^sup>* ?w (w\<lparr>po_fleet := put_replica (po_fleet w) i (handle_updates C p (Suc n) us ?s), po_stage := (po_stage w)(i := Some [])\<rparr>)"
    using Cons.IH [of ?w "Suc n"] by (simp add: fun_upd_def cong: if_cong)
  ultimately show ?case by (metis converse_rtranclp_into_rtranclp)
qed (simp add: fun_upd_idem)

context redis_spec
begin

lemma extend_step:
  assumes "extendLease R c now lock (ap_redis (bo_api s)) = (held, r)"
  shows "poll_step R view C (w\<lparr>po_fleet := put_replica f i s\<rparr>) (w\<lparr>po_fleet := put_replica f i (s\<lparr>bo_api := (bo_api s)\<lparr>ap_redis := r\<rparr>\<rparr>)\<rparr>)"
proof -
  have "view r POLL_OFFSET_KEY = view (ap_redis (bo_api s)) POLL_OFFSET_KEY"
    using lock_ops_frame(2) [of POLL_LOCK_KEY POLL_OFFSET_KEY POLL_LOCK_TTL_SEC c "ap_redis (bo_api s)" now lock] assms
    by (auto simp: extendLease_def POLL_LOCK_KEY_def POLL_OFFSET_KEY_def POLL_LOCK_TTL_SEC_def split: prod.splits sum.splits)
  then have "poll_step R view C (w\<lparr>po_fleet := put_replica f i s\<rparr>)
      (w\<lparr>po_fleet := put_replica f i s, po_fleet := (put_replica f i s)\<lparr>fl_api := (bo_api s)\<lparr>ap_redis := r\<rparr>\<rparr>\<rparr>)"
    using others [of view "(bo_api s)\<lparr>ap_redis := r\<rparr>" "w\<lparr>po_fleet := put_replica f i s\<rparr>" R C] by (simp add: put_replica_def)
  then show ?thesis by (simp add: put_replica_def)
qed

lemma poll_pass_run:
  assumes "po_stage w i = None" and "q = unconfirmed (bo_offset (replica (po_fleet w) i)) (po_queue w)"
    and "getUpdates p (bo_offset (replica (po_fleet w) i)) = Some (take k q)" and "poll_pass R C lock p (replica (po_fleet w) i) = (held, s')"
  shows "(poll_step R view C)\<^sup>*\<^sup>* w (w\<lparr>po_queue := q, po_fleet := put_replica (po_fleet w) i s'\<rparr>)"
proof -
  let ?f = "po_fleet w" and ?s = "replica (po_fleet w) i"
  let ?s1 = "handle_updates C p 0 (take k q) ?s"
  let ?s2 = "persistOffset R (pa_cursor p) (pa_now p) ?s1"
  obtain r where x: "extendLease R (pa_lease p) (pa_now p) lock (ap_redis (bo_api ?s2)) = (held, r)" and s': "s' = ?s2\<lparr>bo_api := (bo_api ?s2)\<lparr>ap_redis := r\<rparr>\<rparr>"
    using assms(3,4) by (auto simp: poll_pass_def split: prod.splits)
  define w1 where "w1 = w\<lparr>po_queue := q, po_stage := (po_stage w)(i := Some (take k q))\<rparr>"
  define w2 where "w2 = w1\<lparr>po_fleet := put_replica ?f i ?s1, po_stage := (po_stage w1)(i := Some [])\<rparr>"
  have "poll_step R view C w w1" unfolding w1_def by (rule ask [OF assms(1,2)]) simp
  also have "(poll_step R view C)\<^sup>*\<^sup>* w1 w2" using handle_updates_run [of w1 i "take k q" R view C p 0] by (simp add: w1_def w2_def)
  also have "poll_step R view C w2 (w2\<lparr>po_fleet := put_replica ?f i ?s2, po_stage := (po_stage w2)(i := None)\<rparr>)"
    using save [of w2 i R view C "pa_cursor p" "pa_now p"] by (simp add: w2_def)
  also have "w2\<lparr>po_fleet := put_replica ?f i ?s2, po_stage := (po_stage w2)(i := None)\<rparr> = (w\<lparr>po_queue := q\<rparr>)\<lparr>po_fleet := put_replica ?f i ?s2\<rparr>"
    using assms(1) by (simp add: w2_def w1_def fun_upd_idem)
  also have "poll_step R view C ((w\<lparr>po_queue := q\<rparr>)\<lparr>po_fleet := put_replica ?f i ?s2\<rparr>) ((w\<lparr>po_queue := q\<rparr>)\<lparr>po_fleet := put_replica ?f i s'\<rparr>)"
    unfolding s' by (rule extend_step [OF x])
  finally show ?thesis by simp
qed

end

text \<open>
  The invariant. Every update below a cursor, be it in Redis or in the memory of a replica, has been handled; what
  Telegram no longer keeps has been handled; and what comes before an update a replica has in hand has been
  handled or is in hand as well.
\<close>

definition covered :: "'r polling \<Rightarrow> nat \<Rightarrow> bool" where
  "covered w n \<longleftrightarrow> n \<le> 2 ^ 53 \<and> (n = 0 \<or> int n - 1 \<in> set (po_arrived w)) \<and> (\<forall>j \<in> set (po_arrived w). j < int n \<longrightarrow> j \<in> set (fl_handled (po_fleet w)))"

definition kept :: "'r polling \<Rightarrow> bool" where
  "kept w \<longleftrightarrow> sorted_wrt (<) (map tu_update_id (po_queue w)) \<and> tu_update_id ` set (po_queue w) \<subseteq> set (po_arrived w) \<and>
     (\<forall>j \<in> set (po_arrived w). 0 \<le> j \<and> j < 2 ^ 53 \<and> (j \<in> set (fl_handled (po_fleet w)) \<or> j \<in> tu_update_id ` set (po_queue w)))"

definition in_hand :: "'r polling \<Rightarrow> TelegramUpdate list \<Rightarrow> bool" where
  "in_hand w us \<longleftrightarrow> sorted_wrt (<) (map tu_update_id us) \<and> tu_update_id ` set us \<subseteq> set (po_arrived w) \<and>
     (\<forall>u \<in> set us. \<forall>j \<in> set (po_arrived w). j < tu_update_id u \<longrightarrow> j \<in> set (fl_handled (po_fleet w)) \<or> j \<in> tu_update_id ` set us)"

definition nothing_skipped :: "('r \<Rightarrow> string \<Rightarrow> entry option) \<Rightarrow> 'r polling \<Rightarrow> bool" where
  "nothing_skipped view w \<longleftrightarrow>
     (\<exists>n. cursor_at (view (ap_redis (fl_api (po_fleet w)))) n \<and> covered w n) \<and>
     (\<forall>i. \<exists>n. fst (fl_memory (po_fleet w) i) = of_nat n \<and> covered w n) \<and> kept w \<and> (\<forall>i us. po_stage w i = Some us \<longrightarrow> in_hand w us)"

lemma bo_handled_work: "bo_handled (work_one C env c u s) = bo_handled s @ [tu_update_id u]"
  and redis_work: "ap_redis (bo_api (work_one C env c u s)) = ap_redis (bo_api s)"
  by (simp_all add: work_one_def bot_handle_same)

lemma work_keeps:
  assumes "nothing_skipped view w" and "po_stage w i = Some (u # us)"
    and "w' = w\<lparr>po_fleet := put_replica (po_fleet w) i (work_one C env c u (replica (po_fleet w) i)), po_stage := (po_stage w)(i := Some us)\<rparr>"
  shows "nothing_skipped view w'"
proof -
  have h: "fl_handled (po_fleet w') = fl_handled (po_fleet w) @ [tu_update_id u]"
    and r: "ap_redis (fl_api (po_fleet w')) = ap_redis (fl_api (po_fleet w))" and a: "po_arrived w' = po_arrived w" "po_queue w' = po_queue w"
    by (simp_all add: assms(3) put_replica_def replica_def bo_handled_work redis_work)
  have hand: "in_hand w (u # us)" using assms(1,2) by (simp add: nothing_skipped_def)
  then have u: "tu_update_id u \<in> set (po_arrived w)" by (simp add: in_hand_def)
  then have b: "0 \<le> tu_update_id u" "tu_update_id u < 2 ^ 53" using assms(1) by (simp_all add: nothing_skipped_def kept_def)
  have mono: "covered w n \<Longrightarrow> covered w' n" for n by (auto simp: covered_def h a)
  have "covered w' (nat (tu_update_id u + 1))" unfolding covered_def h a
  proof (intro conjI ballI impI)
    show "nat (tu_update_id u + 1) \<le> 2 ^ 53" using b by simp
    show "nat (tu_update_id u + 1) = 0 \<or> int (nat (tu_update_id u + 1)) - 1 \<in> set (po_arrived w)" using b u by simp
    fix j assume j: "j \<in> set (po_arrived w)" "j < int (nat (tu_update_id u + 1))"
    then have "j = tu_update_id u \<or> j < tu_update_id u" using b by auto
    then show "j \<in> set (fl_handled (po_fleet w) @ [tu_update_id u])"
    proof
      assume l: "j < tu_update_id u"
      then have "j \<in> set (fl_handled (po_fleet w)) \<or> j \<in> tu_update_id ` set (u # us)" using hand j(1) unfolding in_hand_def by (meson list.set_intros(1))
      moreover have "j \<notin> tu_update_id ` set (u # us)" using hand l unfolding in_hand_def by auto
      ultimately show ?thesis by simp
    qed simp
  qed
  moreover have "fst (fl_memory (po_fleet w') i) = of_nat (nat (tu_update_id u + 1))"
    using b by (simp add: assms(3) put_replica_def work_one_def)
  moreover have "fst (fl_memory (po_fleet w') j) = fst (fl_memory (po_fleet w) j)" if "j \<noteq> i" for j using that by (simp add: assms(3) put_replica_def)
  ultimately have mem: "\<forall>j. \<exists>n. fst (fl_memory (po_fleet w') j) = of_nat n \<and> covered w' n"
    using assms(1) mono unfolding nothing_skipped_def by metis
  have cur: "\<exists>n. cursor_at (view (ap_redis (fl_api (po_fleet w')))) n \<and> covered w' n" using assms(1) mono r unfolding nothing_skipped_def by metis
  have k: "kept w'" using assms(1) by (auto simp: nothing_skipped_def kept_def h a)
  have up: "in_hand w vs \<Longrightarrow> in_hand w' vs" for vs by (auto simp: in_hand_def h a)
  have "in_hand w' us" using hand unfolding in_hand_def h a by auto
  then have "\<forall>j vs. po_stage w' j = Some vs \<longrightarrow> in_hand w' vs" using assms(1) up by (simp add: assms(3) nothing_skipped_def)
  then show ?thesis using mem cur k by (simp add: nothing_skipped_def)
qed

lemma ask_keeps:
  assumes "nothing_skipped view w" and "q = unconfirmed (bo_offset (replica (po_fleet w) i)) (po_queue w)" and "answer \<in> {None, Some (take k q)}"
  shows "nothing_skipped view (w\<lparr>po_queue := q, po_stage := (po_stage w)(i := answer)\<rparr>)"
proof -
  let ?w = "w\<lparr>po_queue := q, po_stage := (po_stage w)(i := answer)\<rparr>"
  have "\<exists>n. fst (fl_memory (po_fleet w) i) = of_nat n \<and> covered w n" using assms(1) unfolding nothing_skipped_def by blast
  then obtain n where n: "bo_offset (replica (po_fleet w) i) = of_nat n" "covered w n" by (auto simp: replica_def)
  have off: "(of_nat n \<le> (of_int j :: rat)) = (int n \<le> j)" for j by (metis of_int_le_iff of_int_of_nat_eq)
  have k: "kept w" using assms(1) by (simp add: nothing_skipped_def)
  have q: "q = filter (\<lambda>u. int n \<le> tu_update_id u) (po_queue w)" by (simp add: assms(2) unconfirmed_def n(1) off)
  have sq: "sorted_wrt (<) (map tu_update_id q)" using k unfolding q kept_def sorted_wrt_map by (intro sorted_wrt_filter) simp
  have sub: "tu_update_id ` set q \<subseteq> set (po_arrived w)" using k by (auto simp: q kept_def)
  have left: "j \<in> set (fl_handled (po_fleet w)) \<or> j \<in> tu_update_id ` set q" if "j \<in> set (po_arrived w)" for j
    using k n(2) that by (cases "j < int n") (auto simp: q kept_def covered_def)
  have "in_hand ?w (take k q)" unfolding in_hand_def
  proof (intro conjI ballI impI)
    show "sorted_wrt (<) (map tu_update_id (take k q))" using sorted_wrt_take [OF sq] by (simp add: take_map)
    show "tu_update_id ` set (take k q) \<subseteq> set (po_arrived ?w)" using sub by (auto dest: in_set_takeD)
    fix u j assume u: "u \<in> set (take k q)" and j: "j \<in> set (po_arrived ?w)" "j < tu_update_id u"
    have "v \<in> set (take k q)" if "v \<in> set q" "tu_update_id v < tu_update_id u" for v
    proof (rule ccontr)
      assume "v \<notin> set (take k q)"
      then have "v \<in> set (drop k q)" using that(1) by (metis Un_iff append_take_drop_id set_append)
      moreover have "sorted_wrt (<) (map tu_update_id (take k q) @ map tu_update_id (drop k q))" using sq by (metis append_take_drop_id map_append)
      ultimately show False using u that(2) by (fastforce simp: sorted_wrt_append)
    qed
    then show "j \<in> set (fl_handled (po_fleet ?w)) \<or> j \<in> tu_update_id ` set (take k q)" using left [of j] j by fastforce
  qed
  moreover have "in_hand ?w vs" if "in_hand w vs" for vs using that by (simp add: in_hand_def)
  ultimately have "\<forall>j vs. po_stage ?w j = Some vs \<longrightarrow> in_hand ?w vs" using assms(1,3) by (auto simp: nothing_skipped_def)
  moreover have "kept ?w" using k sq sub left by (simp add: kept_def)
  ultimately show ?thesis using assms(1) by (simp add: nothing_skipped_def covered_def)
qed

lemma arrive_keeps:
  assumes "nothing_skipped view w" and "\<forall>j \<in> set (po_arrived w). j < tu_update_id u" and "0 \<le> tu_update_id u" "tu_update_id u < 2 ^ 53"
  shows "nothing_skipped view (w\<lparr>po_queue := po_queue w @ [u], po_arrived := po_arrived w @ [tu_update_id u]\<rparr>)"
proof -
  let ?w = "w\<lparr>po_queue := po_queue w @ [u], po_arrived := po_arrived w @ [tu_update_id u]\<rparr>"
  have k: "kept w" using assms(1) by (simp add: nothing_skipped_def)
  have "kept ?w" using k assms(2-4) by (auto simp: kept_def sorted_wrt_append)
  moreover have "covered ?w n" if "covered w n" for n
  proof -
    have "n = 0 \<or> int n - 1 < tu_update_id u" using that assms(2) by (auto simp: covered_def)
    then have "\<not> tu_update_id u < int n" using assms(3) by auto
    then show ?thesis using that by (auto simp: covered_def)
  qed
  moreover have "in_hand ?w us" if "in_hand w us" for us using that assms(2) by (fastforce simp: in_hand_def)
  ultimately show ?thesis using assms(1) unfolding nothing_skipped_def by simp blast
qed

text \<open>A change of the shared store or of one replica's offset to a number that is covered.\<close>

lemma fleet_keeps:
  assumes "nothing_skipped view w" and "fl_handled f = fl_handled (po_fleet w)"
    and "\<exists>n. cursor_at (view (ap_redis (fl_api f))) n \<and> covered w n" and "\<forall>i. \<exists>n. fst (fl_memory f i) = of_nat n \<and> covered w n"
    and "\<forall>i us. st i = Some us \<longrightarrow> po_stage w i = Some us \<or> us = []"
  shows "nothing_skipped view (w\<lparr>po_fleet := f, po_stage := st\<rparr>)"
proof -
  let ?w = "w\<lparr>po_fleet := f, po_stage := st\<rparr>"
  have "covered ?w n = covered w n" "kept ?w = kept w" "in_hand ?w us = in_hand w us" for n us
    by (simp_all add: covered_def kept_def in_hand_def assms(2))
  moreover have "in_hand w []" by (simp add: in_hand_def)
  ultimately show ?thesis using assms(1,3-5) unfolding nothing_skipped_def by simp metis
qed

lemma covered_zero: "covered w 0 \<longleftrightarrow> (\<forall>j \<in> set (po_arrived w). j < 0 \<longrightarrow> j \<in> set (fl_handled (po_fleet w)))"
  by (simp add: covered_def)

lemma die_keeps:
  assumes "nothing_skipped view w"
  shows "nothing_skipped view (w\<lparr>po_fleet := (po_fleet w)\<lparr>fl_memory := (fl_memory (po_fleet w))(i := (0, 0))\<rparr>, po_stage := (po_stage w)(i := None)\<rparr>)"
proof (rule fleet_keeps [OF assms])
  have "covered w 0" using assms by (auto simp: covered_zero nothing_skipped_def kept_def)
  then show "\<forall>j. \<exists>n. fst (fl_memory ((po_fleet w)\<lparr>fl_memory := (fl_memory (po_fleet w))(i := (0, 0))\<rparr>) j) = of_nat n \<and> covered w n"
    using assms unfolding nothing_skipped_def by (auto intro: exI [of _ 0])
  show "\<exists>n. cursor_at (view (ap_redis (fl_api ((po_fleet w)\<lparr>fl_memory := (fl_memory (po_fleet w))(i := (0, 0))\<rparr>)))) n \<and> covered w n"
    using assms by (simp add: nothing_skipped_def)
qed auto

context redis_spec
begin

lemma load_keeps:
  assumes "nothing_skipped view w" and "f' = put_replica (po_fleet w) i (loadOffset R c now (replica (po_fleet w) i))"
  shows "nothing_skipped view (w\<lparr>po_fleet := f'\<rparr>)"
proof -
  obtain n where n: "cursor_at (view (ap_redis (fl_api (po_fleet w)))) n" "covered w n" using assms(1) unfolding nothing_skipped_def by blast
  obtain o' :: nat where o: "fst (fl_memory (po_fleet w) i) = of_nat o'" "covered w o'" using assms(1) unfolding nothing_skipped_def by blast
  have "bo_offset (loadOffset R c now (replica (po_fleet w) i)) \<in> {of_nat n, of_nat o'}"
    using cursor_read [OF n(1), of now] o(1) by (cases c) (auto simp: loadOffset_def replica_def getCursor_def split: option.splits sum.splits)
  then have "\<forall>j. \<exists>n. fst (fl_memory f' j) = of_nat n \<and> covered w n"
    using assms(1) n(2) o(2) unfolding nothing_skipped_def assms(2) put_replica_def by auto
  moreover have "bo_api (loadOffset R c now (replica (po_fleet w) i)) = fl_api (po_fleet w)" "fl_handled f' = fl_handled (po_fleet w)"
    by (auto simp: assms(2) put_replica_def loadOffset_def replica_def split: sum.splits option.splits)
  moreover have "\<exists>n. cursor_at (view (ap_redis (fl_api (po_fleet w)))) n \<and> covered w n" using n by blast
  ultimately show ?thesis using fleet_keeps [OF assms(1), of f' "po_stage w"] by (simp add: assms(2) put_replica_def)
qed

lemma save_keeps:
  assumes "nothing_skipped view w" and "f' = put_replica (po_fleet w) i (persistOffset R c now (replica (po_fleet w) i))"
  shows "nothing_skipped view (w\<lparr>po_fleet := f', po_stage := (po_stage w)(i := None)\<rparr>)"
proof (rule fleet_keeps [OF assms(1)])
  let ?s = "replica (po_fleet w) i" and ?r = "ap_redis (fl_api (po_fleet w))"
  obtain n where n: "cursor_at (view ?r) n" "covered w n" using assms(1) unfolding nothing_skipped_def by blast
  obtain m where m: "fst (fl_memory (po_fleet w) i) = of_nat m" "covered w m" using assms(1) unfolding nothing_skipped_def by blast
  have "\<exists>r'. setCursor R Replied ?r now POLL_OFFSET_KEY (of_nat m) = (Inr (), r') \<and> cursor_at (view r') m"
    using m(2) by (intro cursor_write) (simp add: covered_def)
  then have "view (snd (setCursor R c ?r now POLL_OFFSET_KEY (of_nat m))) = view ?r \<or> cursor_at (view (snd (setCursor R c ?r now POLL_OFFSET_KEY (of_nat m)))) m"
    by (cases c; cases "rset R ?r now POLL_OFFSET_KEY (js_show (of_nat m)) None False") (auto simp: setCursor_def)
  then have "\<exists>k \<in> {n, m}. cursor_at (view (ap_redis (bo_api (persistOffset R c now ?s)))) k"
    using n(1) m(1) by (auto simp: persistOffset_def replica_def split: prod.splits sum.splits)
  then show "\<exists>k. cursor_at (view (ap_redis (fl_api f'))) k \<and> covered w k" using n(2) m(2) by (auto simp: assms(2) put_replica_def)
  have "bo_offset (persistOffset R c now ?s) = bo_offset ?s" "bo_handled (persistOffset R c now ?s) = bo_handled ?s"
    by (auto simp: persistOffset_def split: prod.splits sum.splits)
  then show "\<forall>j. \<exists>n. fst (fl_memory f' j) = of_nat n \<and> covered w n" "fl_handled f' = fl_handled (po_fleet w)"
    using assms(1) unfolding nothing_skipped_def assms(2) put_replica_def by (auto simp: replica_def)
qed auto

lemma poll_step_keeps: "poll_step R view C w w' \<Longrightarrow> nothing_skipped view w \<Longrightarrow> nothing_skipped view w'"
proof (induction rule: poll_step.induct)
  case (arrive w u)
  then show ?case by (intro arrive_keeps)
next
  case (load w i c now)
  then show ?case using load_keeps by blast
next
  case (ask w i q answer k)
  then show ?case by (intro ask_keeps)
next
  case (work w i u us env c)
  then show ?case using work_keeps by blast
next
  case (save w i c now)
  then show ?case using save_keeps by blast
next
  case (die w i)
  then show ?case by (rule die_keeps)
next
  case (others a w)
  then show ?case using fleet_keeps [of view w "(po_fleet w)\<lparr>fl_api := a\<rparr>" "po_stage w"] by (simp add: nothing_skipped_def cursor_at_def)
qed

end



text \<open>The chat is told that it is linked only when its id is on the account that drew the link.\<close>

lemma bindTelegram_True:
  assumes "bindTelegram C env token chat s = (Inr True, s')"
  obtains u where "find_unique (\<lambda>u. u_telegramLinkTokenHash u = Some (hashLinkToken C token)) (users (ap_db s)) = Some u"
    "ap_db s' = (ap_db s)\<lparr>users := update_many (\<lambda>v. u_id v = u_id u)
       (\<lambda>v. v\<lparr>u_telegramChatId := Some chat, u_telegramLinkTokenHash := None, u_telegramLinkTokenExpiresAt := None\<rparr>) (users (ap_db s))\<rparr>"
  using assms
  by (auto simp: bindTelegram_def andThen_Inr executes_Inr update_user_Inr split: option.splits if_splits)

lemma linked_means_bound:
  assumes "users_unique (users (ap_db (bo_api s)))" and "bot_handle C env c u s = (b, s')"
    and "bo_replies s' = bo_replies s @ [(chat, LINKED)]"
  shows "\<exists>v v'. find_user (u_id v) (ap_db (bo_api s)) = Some v \<and> u_telegramLinkTokenHash v \<noteq> None \<and>
    find_user (u_id v) (ap_db (bo_api s')) = Some v' \<and> u_telegramChatId v' = Some (show_int chat) \<and> u_telegramLinkTokenHash v' = None"
proof -
  have "LINKED \<noteq> GREETING" "LINKED \<noteq> LINK_INVALID" by (simp_all add: LINKED_def GREETING_def LINK_INVALID_def)
  with assms(2,3) obtain token a where bound: "bindTelegram C env token (show_int chat) (bo_api s) = (Inr True, a)" "bo_api s' = a"
    by (cases c) (auto simp: bot_handle_def Let_def split: option.splits prod.splits sum.splits if_splits)
  from bound(1) obtain v where v: "find_unique (\<lambda>u. u_telegramLinkTokenHash u = Some (hashLinkToken C token)) (users (ap_db (bo_api s))) = Some v"
    "ap_db a = (ap_db (bo_api s))\<lparr>users := update_many (\<lambda>x. u_id x = u_id v)
       (\<lambda>x. x\<lparr>u_telegramChatId := Some (show_int chat), u_telegramLinkTokenHash := None, u_telegramLinkTokenExpiresAt := None\<rparr>) (users (ap_db (bo_api s)))\<rparr>"
    by (rule bindTelegram_True)
  from find_unique_Some [OF v(1)] assms(1) have "find_user (u_id v) (ap_db (bo_api s)) = Some v" "u_telegramLinkTokenHash v \<noteq> None"
    by (auto simp: users_unique_def intro: find_user_unique)
  then show ?thesis using v(2) bound(2) by - (rule exI [of _ v], auto simp: find_user_def find_update_many)
qed

section \<open>Pacing\<close>

text \<open>
  The waits of the loop, in milliseconds. A sleep ends after its time or when shutdown aborts it, whichever
  is first; an open long poll ends with its answer, its timeout or the abort.
\<close>

definition LONG_POLL_SEC :: int where "LONG_POLL_SEC = 30"
definition LEADER_RETRY_MS :: int where "LEADER_RETRY_MS = 15000"
definition MIN_PASS_MS :: int where "MIN_PASS_MS = 1000"

definition bot_delay :: "int option \<Rightarrow> int \<Rightarrow> int" where
  "bot_delay abortedAfter ms = (case abortedAfter of Some a \<Rightarrow> min (max a 0) ms | None \<Rightarrow> ms)"

definition poll_time :: "int option \<Rightarrow> int \<Rightarrow> int" where
  "poll_time abortedAfter answer =
     (let t = min answer ((LONG_POLL_SEC + 5) * 1000) in case abortedAfter of Some a \<Rightarrow> min (max a 0) t | None \<Rightarrow> t)"

text \<open>
  One pass without an abort, from its start to the renewal of the lease and to its end: the poll, the work on
  its updates, and five seconds of rest when the poll failed.
\<close>

definition renewal_after :: "int \<Rightarrow> int \<Rightarrow> bool \<Rightarrow> int" where
  "renewal_after answer work failed = poll_time None answer + work + (if failed then bot_delay None 5000 else 0)"

definition pass_time :: "int \<Rightarrow> int \<Rightarrow> bool \<Rightarrow> int" where
  "pass_time answer work failed =
     (let elapsed = renewal_after answer work failed
      in elapsed + (if elapsed < MIN_PASS_MS then bot_delay None (MIN_PASS_MS - elapsed) else 0))"

lemmas pacing_defs = LONG_POLL_SEC_def LEADER_RETRY_MS_def MIN_PASS_MS_def POLL_LOCK_TTL_SEC_def bot_delay_def
  poll_time_def renewal_after_def pass_time_def

text \<open>
  However fast Telegram answers, the loop does not spin: \<open>n\<close> passes take at least \<open>n\<close> seconds. And however slow
  it is, a leader that spends less than 49 seconds on the updates of a pass renews its lease before it ends:
  the rest of the previous pass and this one stay within the lease.
\<close>

lemma passes_paced:
  assumes "\<forall>(answer, work, failed) \<in> set ps. 0 \<le> answer \<and> 0 \<le> work"
  shows "int (length ps) * MIN_PASS_MS \<le> (\<Sum>(answer, work, failed) \<leftarrow> ps. pass_time answer work failed)"
  using assms by (induction ps) (auto simp: pacing_defs Let_def)

lemma lease_renewed_in_time:
  assumes "0 \<le> answer" "0 \<le> work" "0 \<le> answer'" "0 \<le> work'" "work' < 49000"
  shows "(pass_time answer work failed - renewal_after answer work failed) + renewal_after answer' work' failed' < POLL_LOCK_TTL_SEC * 1000"
  using assms by (auto simp: pacing_defs Let_def min_def)

text \<open>Shutdown does not wait for any of them: aborted, a sleep and an open poll end at once.\<close>

lemma abort_ends_waits: "\<lbrakk>0 \<le> ms; 0 \<le> answer\<rbrakk> \<Longrightarrow> bot_delay (Some 0) ms = 0 \<and> poll_time (Some 0) answer = 0"
  by (simp add: pacing_defs)

section \<open>A takeover\<close>




end
