(* ===== verification/System.thy ===== *)
theory System
  imports Stored Watcher Consumer TelegramBot
begin

text \<open>
  The three processes on their shared database. Replicas and concurrent requests interleave between
  statements, never inside one, so the system is a relation that takes one statement of any process at a
  time. Its arguments are what the code gives them: data that passed the validation pipe, but nothing a
  preceding read has found out, since another statement may have come in between. Every process is a path of
  the relation, and what the schema and the checks promise of the tables holds along every path.
\<close>

section \<open>Statements\<close>

inductive statement :: "crypto \<Rightarrow> validators \<Rightarrow> db \<Rightarrow> db \<Rightarrow> bool" for C V where
  account_write: "update_user i g d = Inr (x, d') \<Longrightarrow> benign V g \<Longrightarrow> statement C V d d'"
| account_insert: "users_create i now email h d = Inr (u, d') \<Longrightarrow> statement C V d d'"
| account_delete: "statement C V d (delete_user i d)"
| reset: "reset_transaction i h d = Inr (x, d') \<Longrightarrow> statement C V d d'"
| token_insert: "create_refresh r d = Inr (x, d') \<Longrightarrow> statement C V d d'"
| token_revoke: "revoke_where p d = (n, d') \<Longrightarrow> statement C V d d'"
| token_sweep: "prune_expired now d = (n, d') \<Longrightarrow> statement C V d d'"
| history_delete: "delete_notifications q d = (n, d') \<Longrightarrow> statement C V d d'"
| push_upsert: "upsert_push i now userId dto d = Inr (z, d') \<Longrightarrow> valid_push C V dto \<Longrightarrow> statement C V d d'"
| push_delete: "statement C V d (d\<lparr>pushSubs := delete_many pp (pushSubs d)\<rparr>)"
| pin_insert: "pinned_insert c d = Inr (y, d') \<Longrightarrow> typed_pin V c \<Longrightarrow> statement C V d d'"
| pin_delete: "statement C V d (d\<lparr>pinnedCities := delete_many pq (pinnedCities d)\<rparr>)"
| trigger_insert: "trigger_create i ids now userId cdto l d = Inr (row, d') \<Longrightarrow> valid_create (va_len V) cdto \<Longrightarrow> statement C V d d'"
| trigger_write: "trigger_update ids i udto d = Inr (row, d') \<Longrightarrow> valid_update (va_len V) udto \<Longrightarrow> statement C V d d'"
| trigger_delete: "statement C V d (delete_triggers pt d)"
| observe: "writes tid obs patch d = Inr d' \<Longrightarrow> statement C V d d'"
| stage: "writes tid obs patch d = Inr d' \<Longrightarrow> statement C V d (d'\<lparr>outbox := create_outbox ims now (outbox d')\<rparr>)"
| mark_published: "statement C V d (d\<lparr>outbox := markPublished now published (outbox d)\<rparr>)"
| prune_published: "prunePublished before (outbox d) = (n, rows) \<Longrightarrow> statement C V d (d\<lparr>outbox := rows\<rparr>)"
| claim_insert: "claim_create i now channel ev d = Inr d' \<Longrightarrow> statement C V d d'"
| claim_renew: "claim_update now channel e cutoff d = (n, d') \<Longrightarrow> statement C V d d'"
| claim_release: "statement C V d (releaseClaim_row channel e d)"
| settle: "settle_row i now channel ev status err d = Inr d' \<Longrightarrow> statement C V d d'"
| mark_delivered: "statement C V d (markDelivered channel e destination d)"

abbreviation path :: "crypto \<Rightarrow> validators \<Rightarrow> db \<Rightarrow> db \<Rightarrow> bool" where
  "path C V \<equiv> (statement C V)\<^sup>*\<^sup>*"

lemma path_step: "statement C V d d' \<Longrightarrow> path C V d d'"
  by (rule r_into_rtranclp)

lemma map_sum_Inr_iff: "map_sum f g x = Inr y \<longleftrightarrow> (\<exists>z. x = Inr z \<and> y = g z)"
  by (cases x) auto

lemma transact_path:
  assumes "transact c d x = (r, d')" and "\<And>a e. x = Inr (a, e) \<Longrightarrow> path C V d e" shows "path C V d d'"
  using transact_cases [OF assms(1)] assms(2) by auto

section \<open>The API, the bot and the sweeps\<close>

interpretation api_path: api_statements "path C V" C V
  by unfold_locales (auto intro: path_step statement.intros)

text \<open>The bot, one update at a time, over all its terms of leadership.\<close>

lemma bot_reply_api [simp]: "bo_api (snd (bot_reply c chatId msg s)) = bo_api s"
  by (cases c) simp_all

lemma bot_handle_path: "path C V (ap_db (bo_api s)) (ap_db (bo_api (snd (bot_handle K env c u s))))"
proof -
  have "path C V (ap_db (bo_api s)) (ap_db a)" if "bindTelegram K env token chat (bo_api s) = (x, a)" for token chat x a
    using api_path.keeps_bindTelegram [of C V K env token chat "bo_api s"] that by (simp add: obeys_def)
  then show ?thesis by (auto simp: bot_handle_def Let_def split: option.splits prod.splits sum.splits)
qed

lemma handle_updates_path: "path C V (ap_db (bo_api s)) (ap_db (bo_api (handle_updates K p i us s)))"
proof (induction us arbitrary: i s)
  case (Cons u us)
  let ?s = "snd (bot_handle K (pa_requests p i) (pa_replies p i) u (s\<lparr>bo_handled := bo_handled s @ [tu_update_id u]\<rparr>))"
  have "path C V (ap_db (bo_api s)) (ap_db (bo_api ?s))"
    using bot_handle_path [of C V "s\<lparr>bo_handled := bo_handled s @ [tu_update_id u]\<rparr>"] by simp
  then show ?case using Cons.IH [of "?s\<lparr>bo_offset := of_int (tu_update_id u + 1)\<rparr>" "Suc i"] by (auto simp: work_one_def)
qed simp

lemma poll_pass_path: "path C V (ap_db (bo_api s)) (ap_db (bo_api (snd (poll_pass R K lock p s))))"
  using handle_updates_path [of C V s K p 0]
  by (auto simp: poll_pass_def persistOffset_def Let_def split: option.splits prod.splits sum.splits if_splits)

lemma pollWhileLeader_path: "path C V (ap_db (bo_api s)) (ap_db (bo_api (pollWhileLeader R K lock ps s)))"
proof (induction ps arbitrary: s)
  case (Cons p ps)
  obtain b s' where p: "poll_pass R K lock p s = (b, s')" by force
  then show ?case using poll_pass_path [of C V s R K lock p] Cons.IH [of s'] by (cases b) auto
qed simp

lemma loadOffset_api [simp]: "bo_api (loadOffset R c now s) = bo_api s"
  by (simp add: loadOffset_def split: sum.splits option.splits)

lemma bot_run_path: "path C V (ap_db (bo_api s)) (ap_db (bo_api (bot_run R K ts s)))"
proof (induction ts arbitrary: s)
  case (Cons t ts)
  obtain x r where a: "acquireLock R (te_acquire t) (ap_redis (bo_api s)) (te_from t) (te_token t) POLL_LOCK_KEY POLL_LOCK_TTL_SEC = (x, r)" by force
  let ?s0 = "s\<lparr>bo_api := (bo_api s)\<lparr>ap_redis := r\<rparr>\<rparr>"
  let ?s1 = "\<lambda>lock. pollWhileLeader R K lock (te_passes t) (loadOffset R (te_load t) (te_from t) ?s0)"
  have "path C V (ap_db (bo_api s)) (ap_db (bo_api (?s1 lock)))" for lock
    using pollWhileLeader_path [of C V "loadOffset R (te_load t) (te_from t) ?s0" R K lock "te_passes t"] by simp
  then show ?case
    using a Cons.IH [of ?s0] Cons.IH [of "?s1 lock\<lparr>bo_api := (bo_api (?s1 lock))\<lparr>ap_redis := r'\<rparr>\<rparr>" for lock r']
    by (auto simp: Let_def split: sum.splits option.splits intro: rtranclp_trans)
qed simp

text \<open>The sweep of the history, between whose statements the other processes go on.\<close>

lemma prune_loop_path:
  assumes "prune_loop R env before token k removed s = Some (x, s')" and "\<And>j d. path C V d (se_others env j d)"
  shows "path C V (ap_db s) (ap_db s')"
proof -
  have "env = env \<longrightarrow> path C V (ap_db s) (ap_db (snd (x, s')))"
  proof (rule prune_loop.raw_induct [where P = "\<lambda>R' env' before token k removed s y. env' = env \<longrightarrow> path C V (ap_db s) (ap_db (snd y))",
        OF _ assms(1)], intro impI, goal_cases)
    case (1 loop R' env' before token k removed s y)
    obtain held r where h: "history_renewLock R' (se_io env' (Suc k)) (ap_redis s) (se_clock env' (Suc k)) token = (held, r)" by force
    let ?d0 = "se_others env (2 * k) (ap_db s)"
    let ?d1 = "se_others env (Suc (2 * k)) ?d0"
    have others: "path C V (ap_db s) ?d0" "path C V (ap_db s) ?d1" using assms(2) rtranclp_trans by metis+
    have delete: "path C V (ap_db s) d" if "transact c ?d1 (Inr (delete_notifications p ?d1)) = (res, d)" for c p res d
      using rtranclp_trans [OF others(2) transact_path [OF that]] by (auto intro: path_step history_delete)
    have next_chunk: "path C V d (ap_db (snd z))" if "loop R' env before token (Suc k) n (s\<lparr>ap_redis := r, ap_db := d\<rparr>) = Some z" for n d z
      using 1(1) [OF that] by simp
    show ?case using 1(2,3) h others(1)
      by (auto simp: Let_def split: if_splits sum.splits prod.splits dest!: next_chunk dest: delete intro: rtranclp_trans)
  qed
  then show ?thesis by simp
qed

lemma history_sweep_path:
  assumes "History.pruneExpired R days env s = Some (x, s')" and "\<And>j d. path C V d (se_others env j d)"
  shows "path C V (ap_db s) (ap_db s')"
  using assms(1) prune_loop_path [OF _ assms(2)]
  by (fastforce simp: pruneExpired_def split: sum.splits option.splits prod.splits)

section \<open>The watcher\<close>

lemma recordObservation_path: "path C V d (snd (recordObservation c tid obs patch d))"
proof (rule transact_path)
  show "transact c d (map_sum id (\<lambda>d'. ((), d')) (writes tid obs patch d)) =
      (fst (recordObservation c tid obs patch d), snd (recordObservation c tid obs patch d))" by (simp add: recordObservation_def)
qed (auto simp: map_sum_Inr_iff intro: path_step observe)

lemma commitFire_path: "path C V d (snd (commitFire c ids now tid obs patch ms d))"
proof (rule transact_path)
  show "transact c d (map_sum id (\<lambda>d'. ((), d'\<lparr>outbox := create_outbox (zip ids ms) now (outbox d')\<rparr>)) (writes tid obs patch d)) =
      (fst (commitFire c ids now tid obs patch ms d), snd (commitFire c ids now tid obs patch ms d))" by (simp add: commitFire_def)
qed (auto simp: map_sum_Inr_iff intro: path_step stage)

text \<open>The relay sees only the outbox of the database.\<close>

lemma publishPending_path:
  assumes "publishPending batch p (outbox d) b = (r, rows, b')" shows "path C V d (d\<lparr>outbox := rows\<rparr>)"
proof -
  have "rows = outbox d \<or> (\<exists>ids. rows = markPublished (pa_markedAt p) ids (outbox d))"
    using assms by (cases "pa_mark p") (auto simp: publishPending_def split: if_splits sum.splits prod.splits)
  then show ?thesis by (auto intro: path_step mark_published)
qed

lemma flush_path:
  assumes "rl_outbox w = outbox d" shows "path C V d (d\<lparr>outbox := rl_outbox (snd (flush R batch p w))\<rparr>)"
  using assms publishPending_path [of batch p d "rl_broker w" _ _ _ C V]
  by (auto simp: flush_def Let_def split: sum.splits option.splits prod.splits)

lemma pruneRelayed_path: "path C V d (d\<lparr>outbox := pruneRelayed now (outbox d)\<rparr>)"
  unfolding pruneRelayed_def by (intro path_step prune_published) (rule prod.collapse [symmetric])

lemma fire_path: "path C V (ww_db w) (ww_db (snd (fire R batch env t rs now w)))"
proof -
  let ?p = "\<lparr>patch_lastEvaluatedAt = now, patch_state = Some FIRED, patch_lastFiredAt = Some (te_lastFiredAt env)\<rparr>"
  obtain r d where c: "commitFire (te_commit env) (te_rowIds env) (te_dbNow env) (w_id t) (map observation rs) ?p
      (fired_messages (fired_event env t rs) (w_channels t)) (ww_db w) = (r, d)" by force
  then have 1: "path C V (ww_db w) d" using commitFire_path [of C V "ww_db w"] by (metis snd_conv)
  let ?w = "\<lparr>rl_outbox = outbox d, rl_redis = ww_redis w, rl_broker = ww_broker w\<rparr>"
  have "path C V d (d\<lparr>outbox := rl_outbox (snd (flush R batch (te_pass env) ?w))\<rparr>)" by (rule flush_path) simp
  then show ?thesis using 1 c by (auto simp: fire_def Let_def split: sum.splits prod.splits)
qed

lemma processTrigger_path: "path C V (ww_db w) (ww_db (snd (processTrigger I R batch env t snapshot w)))"
proof -
  have "path C V (ww_db w) d" if "recordObservation c tid obs patch (ww_db w) = (r, d)" for c tid obs patch r d
    using recordObservation_path [of C V "ww_db w" c tid obs patch] that by simp
  then show ?thesis by (auto simp: processTrigger_def Let_def fire_path split: prod.splits)
qed

lemma process_group_path: "path C V (ww_db w) (ww_db (snd (process_group I R batch env snapshot ts w)))"
proof (induction ts arbitrary: w)
  case (Cons t ts)
  obtain x w' where p: "processTrigger I R batch (env (w_id t)) t snapshot w = (x, w')" by force
  then show ?case using processTrigger_path [of C V w I R batch "env (w_id t)" t snapshot] Cons.IH [of w'] by (cases x) auto
qed simp

lemma pollLocation_path: "path C V (ww_db w) (ww_db (snd (pollLocation E grp w)))"
  using process_group_path [of C V "w\<lparr>ww_redis := s\<rparr>" for s] by (auto simp: pollLocation_def Let_def split: prod.splits sum.splits) 

lemma poll_act_path: "path C V (ww_db (po_world p)) (ww_db (po_world (poll_act E shard token ev p)))"
proof (cases ev)
  case (Advance i)
  have "path C V (ww_db (po_world p)) (ww_db w)" if "pollLocation E g (po_world p) = (r, w)" for g r w
    using pollLocation_path [of C V "po_world p" E g] that by simp
  then show ?thesis using Advance by (auto simp: advance_def Let_def split: worker.splits list.splits prod.splits)
qed (simp add: Let_def split: prod.splits)

lemma withLockRenewal_path: "path C V (ww_db (po_world p)) (ww_db (po_world (withLockRenewal E shard token evs p)))"
  unfolding withLockRenewal_def
proof (induction evs arbitrary: p)
  case (Cons ev evs)
  then show ?case using poll_act_path [of C V p E shard token ev] Cons.IH [of "poll_act E shard token ev p"]
    by (auto intro: rtranclp_trans)
qed simp

lemma runCycle_path:
  assumes "runCycle E shard conc env w = Some (r, w')" shows "path C V (ww_db w) (ww_db w')"
proof -
  have "path C V (ww_db w) (ww_db w2)" if "poll_cycle E shard conc env token w1 = Some (x, w2)" "ww_db w1 = ww_db w" for token w1 x w2
    using that withLockRenewal_path [of C V "pollLocations conc (map snd (groupByLocation (findActive (ww_db w1) (shardBuckets shard)))) w1"
        E shard token "re_events env"]
    by (auto simp: poll_cycle_def Let_def pollLocations_def split: if_splits option.splits)
  then show ?thesis using assms
    by (fastforce simp: runCycle_def Let_def split: sum.splits option.splits prod.splits)
qed

section \<open>The notifier\<close>

lemma claim_path: "path C V d (snd (claim env channel event cutoff d))"
proof -
  have create: "path C V d d'" if "transact c d (map_sum id (Pair ()) (claim_create i now channel event d)) = (r, d')" for c i now r d'
    using that by (rule transact_path) (auto simp: map_sum_Inr_iff intro: path_step claim_insert)
  have update: "path C V e e'" if "transact c e (Inr (claim_update now channel k lc e)) = (r, e')" for c now k lc r e e'
    using that by (rule transact_path) (auto intro: path_step claim_renew)
  show ?thesis
    by (auto simp: claim_def split: prod.splits sum.splits dest!: create update intro: rtranclp_trans)
qed

lemma settle_path: "path C V d (snd (DeliveryLog.settle c i now channel event status err d))"
proof (rule transact_path)
  show "transact c d (map_sum id (Pair ()) (settle_row i now channel event status err d)) =
      (fst (DeliveryLog.settle c i now channel event status err d), snd (DeliveryLog.settle c i now channel event status err d))"
    by (simp add: settle_def)
qed (auto simp: map_sum_Inr_iff intro: path_step statement.settle)

lemma releaseClaim_path: "path C V d (snd (releaseClaim c channel e d))"
  by (cases c) (auto simp: releaseClaim_def intro: path_step claim_release)

lemma push_loop_path: "path C V (nw_db w) (nw_db (snd (push_loop env event payload subs n err w)))"
proof (induction env event payload subs n err w rule: push_loop.induct)
  case (2 env event payload sub rest n err w)
  have mark: "path C V (nw_db w) d" if "transact c (nw_db w) (Inr ((), markDelivered channel e dest (nw_db w))) = (r, d)" for c channel e dest r d
    using that by (rule transact_path) (auto intro: path_step mark_delivered)
  have prune: "path C V (nw_db w) d" if "transact c (nw_db w) (removePushSubscription i (nw_db w)) = (r, d)" for c i r d
    using that by (rule transact_path) (auto simp: removePushSubscription_def intro: path_step push_delete split: if_splits)
  show ?case
  proof (cases "pe_send env sub")
    case PushOk
    obtain r d where t: "transact (pe_mark env (ps_endpoint sub)) (nw_db w)
        (Inr ((), markDelivered WEB_PUSH (ev_eventId event) (ps_endpoint sub) (nw_db w))) = (r, d)" by force
    show ?thesis using "2.IH"(1) [OF PushOk t [symmetric]] mark [OF t] t PushOk by (auto intro: rtranclp_trans)
  next
    case (PushErr code msg)
    obtain r d where t: "transact (pe_prune env (ps_id sub)) (nw_db w) (removePushSubscription (ps_id sub) (nw_db w)) = (r, d)" by force
    show ?thesis using "2.IH"(2,3) PushErr t prune [OF t] by (auto split: sum.splits intro: rtranclp_trans)
  next
    case (PushLost msg)
    then show ?thesis using "2.IH"(4) by simp
  qed
qed simp

lemma channel_path:
  assumes "map_of (CHANNEL_IMPLEMENTATIONS os) channel = Some send" shows "path C V (nw_db w) (nw_db (snd (send event w)))"
proof -
  have "nw_db (snd (email_send m smtp up event w)) = nw_db w" for m smtp up
    by (auto simp: email_send_def split: option.splits prod.splits)
  moreover have "nw_db (snd (telegram_send token http up event w)) = nw_db w" for token http up
    by (auto simp: telegram_send_def Let_def split: option.splits prod.splits)
  moreover have "path C V (nw_db w) (nw_db (snd (webpush_send conf env event w)))" for conf env
  proof -
    have "path C V (nw_db w) (nw_db w')" if "push_loop env event (push_payload event) subs 0 None w = (r, w')" for subs r w'
      using push_loop_path [of C V w env event "push_payload event" subs 0 None] that by simp
    then show ?thesis by (auto simp: webpush_send_def Let_def split: option.splits prod.splits sum.splits)
  qed
  ultimately show ?thesis using assms by (auto simp: CHANNEL_IMPLEMENTATIONS_def split: if_splits)
qed

lemma notifier_settle_path: "path C V (nw_db w) (nw_db (snd (notifier_settle env channel event status err w)))"
  using settle_path [of C V "nw_db w" "de_settle env" "de_id env" "de_now env" channel event status err]
  by (auto simp: notifier_settle_def split: prod.splits)

lemma dispatch_path: "path C V (nw_db w) (nw_db (snd (dispatch env (CHANNEL_IMPLEMENTATIONS os) channel event w)))"
proof (cases "map_of (CHANNEL_IMPLEMENTATIONS os) channel")
  case (Some send)
  obtain x d where c: "claim (de_claim env) channel event (de_clock env - CLAIM_LEASE_MS) (nw_db w) = (x, d)" by force
  then have 1: "path C V (nw_db w) d" using claim_path [of C V "nw_db w"] by (metis snd_conv)
  obtain y w' where s: "send event (w\<lparr>nw_db := d\<rparr>) = (y, w')" by force
  then have 2: "path C V d (nw_db w')" using channel_path [OF Some, of C V "w\<lparr>nw_db := d\<rparr>" event] by simp
  have 3: "path C V (nw_db w') (nw_db (notifier_releaseClaim env channel event w'))"
    by (simp add: notifier_releaseClaim_def releaseClaim_path)
  have 4: "path C V (nw_db w') (nw_db (snd (notifier_settle env channel event SENT None w')))" by (rule notifier_settle_path)
  show ?thesis using Some c s 1 2 3 4
    by (auto simp: dispatch_def split: sum.splits ClaimResult.splits prod.splits intro: rtranclp_trans)
qed (simp add: dispatch_def)

lemma republish_world: "republish env msg key hs st = (x, st') \<Longrightarrow> cs_world st' = cs_world st"
  by (auto simp: republish_def Let_def split: commit.splits)

lemma park_world [simp]: "cs_world (snd (park env channel msg reason st)) = cs_world st"
  by (auto simp: park_def ack_cases split: prod.splits sum.splits dest: republish_world)

lemma handleFailure_path: "path C V (nw_db (cs_world st)) (nw_db (cs_world (snd (handleFailure cc env channel msg event err st))))"
proof -
  have "path C V (nw_db (cs_world st)) (nw_db w)" if "notifier_settle (he_failed env) channel event FAILED x (cs_world st) = (r, w)" for x r w
    using notifier_settle_path [of C V "cs_world st" "he_failed env" channel event FAILED x] that by simp
  then show ?thesis by (auto simp: handleFailure_def Let_def ack_cases split: prod.splits sum.splits dest: republish_world)
qed

lemma handle_path: "path C V (nw_db (cs_world st)) (nw_db (cs_world (handle parse cc env channel msg st)))"
proof -
  have "path C V (nw_db (cs_world st)) (nw_db (cs_world (snd (process parse cc env channel m st))))" for m st
  proof (cases "parse (msg_content m)")
    case (Some event)
    obtain x w where d: "dispatch (he_dispatch env) (CHANNEL_IMPLEMENTATIONS (he_outside env)) channel event (cs_world st) = (x, w)" by force
    then have "path C V (nw_db (cs_world st)) (nw_db w)"
      using dispatch_path [of C V "cs_world st" "he_dispatch env" "he_outside env" channel event] by simp
    then show ?thesis using Some d handleFailure_path [of C V "st\<lparr>cs_world := w\<rparr>" cc env channel m event]
      by (auto simp: process_def ack_cases split: sum.splits ack_fate.splits intro: rtranclp_trans)
  qed (simp add: process_def)
  from this [of "st\<lparr>cs_inFlight := cs_inFlight st + 1\<rparr>"] show ?thesis
    by (auto simp: handle_def Let_def split: option.splits)
qed

section \<open>Soundness of the tables\<close>

text \<open>
  Each part names the columns it depends on: unique keys, references to rows that exist, and the typing of
  the fields. The limits per user are left out; under concurrency nothing keeps them.
\<close>

definition sound_users :: "validators \<Rightarrow> User list \<Rightarrow> bool" where
  "sound_users V us \<longleftrightarrow> users_unique us \<and> list_all (typed_user V) us"

definition sound_history :: "ident set \<Rightarrow> ident set \<Rightarrow> Notification list \<Rightarrow> bool" where
  "sound_history uids tids ns \<longleftrightarrow> (\<forall>n \<in> set ns. n_userId n \<in> uids \<and> (\<forall>t. n_triggerId n = Some t \<longrightarrow> t \<in> tids))"

definition sound_push :: "crypto \<Rightarrow> validators \<Rightarrow> ident set \<Rightarrow> PushSubscription list \<Rightarrow> bool" where
  "sound_push C V uids ps \<longleftrightarrow> distinct (map ps_endpoint ps) \<and> (\<forall>p \<in> set ps. ps_userId p \<in> uids \<and> typed_push C V p)"

definition sound_tokens :: "ident set \<Rightarrow> RefreshToken list \<Rightarrow> bool" where
  "sound_tokens uids rs \<longleftrightarrow> distinct (map rt_id rs) \<and> (\<forall>r \<in> set rs. rt_userId r \<in> uids)"

definition sound_pins :: "validators \<Rightarrow> ident set \<Rightarrow> PinnedCity list \<Rightarrow> bool" where
  "sound_pins V uids cs \<longleftrightarrow> distinct (map (\<lambda>c. (pc_userId c, pc_latitude c, pc_longitude c)) cs) \<and>
     (\<forall>c \<in> set cs. pc_userId c \<in> uids \<and> typed_pin V c)"

definition sound :: "crypto \<Rightarrow> validators \<Rightarrow> db \<Rightarrow> bool" where
  "sound C V d \<longleftrightarrow>
     sound_users V (users d) \<and> shaped_triggers V d \<and> distinct (map tc_id (conditions d)) \<and> log_keys d \<and>
     sound_history (u_id ` set (users d)) (tr_id ` set (triggers d)) (notifications d) \<and>
     sound_push C V (u_id ` set (users d)) (pushSubs d) \<and> sound_tokens (u_id ` set (users d)) (refreshTokens d) \<and>
     sound_pins V (u_id ` set (users d)) (pinnedCities d) \<and> distinct (map ob_key (outbox d))"

named_theorems sound_defs \<open>the parts of soundness\<close>

lemmas sound_parts [sound_defs] = sound_users_def sound_history_def sound_push_def sound_tokens_def sound_pins_def

lemma unique_some_append: "k r = None \<Longrightarrow> unique_some k (rows @ [r]) = unique_some k rows"
  by (simp add: unique_some_def)

lemma distinct_filter_delete: "distinct (map k (filter q rows)) \<Longrightarrow> distinct (map k (filter q (delete_many p rows)))"
  using distinct_map_filter [of k "filter q rows" "\<lambda>r. \<not> p r"] by (simp add: delete_many_def conj_commute)

lemma unique_some_delete: "unique_some k rows \<Longrightarrow> unique_some k (delete_many p rows)"
  unfolding unique_some_def by (rule distinct_filter_delete)

lemma log_keys_delete: "log_keys d \<Longrightarrow> log_keys (d\<lparr>notifications := delete_many p (notifications d)\<rparr>)"
  unfolding log_keys_def by (simp add: distinct_filter_delete del: not_None_eq)

lemma log_keys_cong: "notifications d' = notifications d \<Longrightarrow> log_keys d' = log_keys d"
  by (simp add: log_keys_def)

lemma shaped_mono:
  assumes "shaped_triggers V d" and "triggers d' = triggers d" "conditions d' = conditions d" "u_id ` set (users d) \<subseteq> u_id ` set (users d')"
  shows "shaped_triggers V d'"
  using assms by (auto simp: shaped_triggers_def conditions_of_def)

text \<open>A statement that leaves the account keys alone and writes one table.\<close>

lemma sound_frame:
  assumes "sound C V d" and "users d' = users d" "triggers d' = triggers d" "conditions d' = conditions d"
    and "notifications d' = notifications d \<or> sound_history (u_id ` set (users d)) (tr_id ` set (triggers d)) (notifications d') \<and> log_keys d'"
    and "pushSubs d' = pushSubs d \<or> sound_push C V (u_id ` set (users d)) (pushSubs d')"
    and "refreshTokens d' = refreshTokens d \<or> sound_tokens (u_id ` set (users d)) (refreshTokens d')"
    and "pinnedCities d' = pinnedCities d \<or> sound_pins V (u_id ` set (users d)) (pinnedCities d')"
    and "outbox d' = outbox d \<or> distinct (map ob_key (outbox d'))"
  shows "sound C V d'"
  using assms shaped_mono [of V d d'] log_keys_cong [of d' d] by (auto simp: sound_def)

lemma more_users:
  assumes "U \<subseteq> U'"
  shows "sound_history U T ns \<Longrightarrow> sound_history U' T ns" "sound_push C V U ps \<Longrightarrow> sound_push C V U' ps"
    "sound_tokens U rs \<Longrightarrow> sound_tokens U' rs" "sound_pins V U cs \<Longrightarrow> sound_pins V U' cs"
  using assms unfolding sound_parts by blast+

text \<open>A statement that writes the accounts alone.\<close>

lemma sound_accounts:
  assumes "sound C V d" and "sound_users V us" and "u_id ` set (users d) \<subseteq> u_id ` set us"
  shows "sound C V (d\<lparr>users := us\<rparr>)"
proof -
  have "shaped_triggers V (d\<lparr>users := us\<rparr>)" using assms(1,3) by (intro shaped_mono [where d = d and d' = "d\<lparr>users := us\<rparr>"]) (simp_all add: sound_def)
  moreover note more_users(1) [OF assms(3), of "tr_id ` set (triggers d)" "notifications d"] more_users(2) [OF assms(3), of C V "pushSubs d"]
    more_users(3) [OF assms(3), of "refreshTokens d"] more_users(4) [OF assms(3), of V "pinnedCities d"]
  ultimately show ?thesis using assms(1,2) log_keys_cong [of "d\<lparr>users := us\<rparr>" d] by (simp add: sound_def)
qed

text \<open>One lemma for each kind of statement.\<close>

lemma sound_account_write:
  assumes "sound C V d" and "update_user i g d = Inr (x, d')" and "benign V g" shows "sound C V d'"
proof -
  let ?us = "update_many (\<lambda>u. u_id u = i) g (users d)"
  have d': "d' = d\<lparr>users := ?us\<rparr>" "users_unique ?us" using assms(2) by (auto simp: update_user_Inr)
  have "map u_id ?us = map u_id (users d)" using assms(3) by (simp add: benign_def map_update_many)
  then have "u_id ` set ?us = u_id ` set (users d)" by (metis list.set_map)
  moreover have "list_all (typed_user V) ?us"
    using assms(1,3) by (auto simp: sound_def sound_users_def list_all_iff set_update_many benign_def)
  ultimately show ?thesis unfolding d'(1) using assms(1) d'(2) by (intro sound_accounts) (simp_all add: sound_users_def)
qed

lemma sound_account_insert:
  assumes "sound C V d" and "users_create i now email h d = Inr (u, d')" shows "sound C V d'"
proof -
  have d': "d' = d\<lparr>users := users d @ [new_user i now email h]\<rparr>" "\<forall>v \<in> set (users d). u_id v \<noteq> i \<and> u_email v \<noteq> email"
    using assms(2) by (auto simp: users_create_def Let_def find_user_def findByEmail_def find_unique_None split: if_splits)
  have "sound_users V (users d @ [new_user i now email h])" using assms(1) d'(2)
    by (auto simp: sound_def sound_users_def users_unique_def unique_some_append new_user_def typed_user_def optional_def)
  then show ?thesis unfolding d'(1) using assms(1) by (intro sound_accounts) auto
qed

lemma sound_trigger_delete: assumes "sound C V d" shows "sound C V (delete_triggers p d)"
proof -
  let ?d = "delete_triggers p d"
  have s: "users ?d = users d" "pushSubs ?d = pushSubs d" "refreshTokens ?d = refreshTokens d" "pinnedCities ?d = pinnedCities d" "outbox ?d = outbox d"
    "distinct (map tc_id (conditions d)) \<Longrightarrow> distinct (map tc_id (conditions ?d))"
    by (simp_all add: delete_triggers_def Let_def)
  have "log_keys ?d" using assms log_keys_update [of d "\<lambda>n. n\<lparr>n_triggerId := None\<rparr>" "\<lambda>n. \<exists>t \<in> set (map tr_id (find_many p (triggers d))). n_triggerId n = Some t"]
    by (simp add: sound_def delete_triggers_def Let_def log_keys_def)
  moreover have "sound_history (u_id ` set (users d)) (tr_id ` set (triggers ?d)) (notifications ?d)"
    using assms by (fastforce simp: sound_def sound_history_def delete_triggers_def Let_def set_update_many find_many_def image_iff)
  ultimately show ?thesis using assms shaped_delete_triggers [of V d p] s by (simp add: sound_def)
qed

lemma sound_account_delete: assumes "sound C V d" shows "sound C V (delete_user i d)"
proof -
  let ?d = "delete_triggers (\<lambda>t. tr_userId t = i) d"
  let ?d' = "delete_user i d"
  have s: "sound C V ?d" using assms by (rule sound_trigger_delete)
  have ids: "u_id ` set (users ?d') = u_id ` set (users ?d) - {i}" by (auto simp: delete_user_def Let_def)
  have t: "triggers ?d' = triggers ?d" "conditions ?d' = conditions ?d" "outbox ?d' = outbox ?d" by (simp_all add: delete_user_def Let_def)
  have "\<forall>t \<in> set (triggers ?d). tr_userId t \<noteq> i" by (simp add: delete_triggers_def Let_def)
  then have "\<forall>t \<in> set (triggers ?d). tr_userId t \<in> u_id ` set (users ?d')" using s unfolding ids by (simp add: sound_def shaped_triggers_def)
  then have "shaped_triggers V ?d'" using s by (simp add: sound_def shaped_triggers_def conditions_of_def t del: delete_user_users)
  moreover have "sound_users V (users ?d')"
    using s by (auto simp: delete_user_def Let_def sound_def sound_users_def users_unique_def unique_some_delete list_all_iff)
  moreover have "log_keys ?d'" using s log_keys_delete [of ?d "\<lambda>n. n_userId n = i"] by (simp add: sound_def delete_user_def Let_def log_keys_def)
  moreover have "sound_history (u_id ` set (users ?d')) (tr_id ` set (triggers ?d')) (notifications ?d')"
    using s unfolding t ids by (auto simp: sound_def sound_history_def delete_user_def Let_def)
  moreover have "sound_push C V (u_id ` set (users ?d')) (pushSubs ?d')" "sound_tokens (u_id ` set (users ?d')) (refreshTokens ?d')"
    "sound_pins V (u_id ` set (users ?d')) (pinnedCities ?d')"
    using s unfolding ids by (auto simp: sound_def sound_defs delete_user_def Let_def)
  ultimately show ?thesis using s t by (simp add: sound_def del: delete_user_users)
qed

lemma sound_tokens_statements:
  assumes "sound C V d"
  shows "create_refresh r d = Inr (x, d') \<Longrightarrow> sound C V d'" "revoke_where p d = (n, d') \<Longrightarrow> sound C V d'" "prune_expired t d = (n, d') \<Longrightarrow> sound C V d'"
proof -
  show "sound C V d'" if c: "create_refresh r d = Inr (x, d')"
  proof -
    have "find_unique (\<lambda>x. rt_id x = rt_id r) (refreshTokens d) = None" and d': "d' = d\<lparr>refreshTokens := refreshTokens d @ [r]\<rparr>"
      and u: "rt_userId r \<in> u_id ` set (users d)"
      using c by (auto simp: create_refresh_def split: if_splits dest!: find_user_Some intro: rev_image_eqI)
    then have "rt_id r \<notin> rt_id ` set (refreshTokens d)" by (auto simp: find_unique_None)
    then show ?thesis unfolding d' using assms u by (intro sound_frame [OF assms]) (auto simp: sound_def sound_tokens_def)
  qed
  show "sound C V d'" if "revoke_where p d = (n, d')"
    using assms that by (intro sound_frame [OF assms]) (auto simp: revoke_where_def sound_def sound_tokens_def map_update_many set_update_many)
  show "sound C V d'" if "prune_expired t d = (n, d')"
    using assms that by (intro sound_frame [OF assms]) (auto simp: prune_expired_def sound_def sound_tokens_def)
qed

lemma sound_reset: assumes "sound C V d" and "reset_transaction i h d = Inr (x, d')" shows "sound C V d'"
proof -
  let ?g = "\<lambda>v. v\<lparr>u_passwordHash := h, u_passwordResetTokenHash := None, u_passwordResetTokenExpiresAt := None, u_emailVerified := True\<rparr>"
  obtain e where e: "update_user i ?g d = Inr ((), e)" and d': "d' = snd (revoke_where (\<lambda>r. rt_userId r = i) e)"
    using assms(2) by (auto simp: reset_transaction_def split: sum.splits)
  have "sound C V e" using assms(1) e by (rule sound_account_write) (simp add: benign_def typed_user_def)
  then show ?thesis unfolding d' by (rule sound_tokens_statements(2) [OF _ prod.collapse [symmetric]])
qed

lemma sound_push_statements:
  assumes "sound C V d"
  shows "upsert_push i now userId dto d = Inr (z, d') \<Longrightarrow> valid_push C V dto \<Longrightarrow> sound C V d'"
    "sound C V (d\<lparr>pushSubs := delete_many p (pushSubs d)\<rparr>)"
proof -
  show "sound C V d'" if u: "upsert_push i now userId dto d = Inr (z, d')" and v: "valid_push C V dto"
  proof (rule sound_frame [OF assms])
    have s: "sound_push C V (u_id ` set (users d)) (pushSubs d)" using assms by (simp add: sound_def)
    have "sound_push C V (u_id ` set (users d)) (pushSubs d')"
    proof (cases "find_unique (\<lambda>s. ps_endpoint s = cps_endpoint dto) (pushSubs d)")
      case None
      then obtain s where "pushSubs d' = pushSubs d @ [s]" "ps_endpoint s = cps_endpoint dto" "ps_userId s \<in> u_id ` set (users d)"
        using u by (auto simp: upsert_push_def Let_def dest!: find_user_Some split: if_splits)
      then show ?thesis using None v s by (auto simp: sound_push_def find_unique_None valid_push_def typed_push_def)
    next
      case (Some x)
      then show ?thesis using u v s by (auto simp: upsert_push_def sound_push_def map_update_many set_update_many valid_push_def typed_push_def)
    qed
    then show "pushSubs d' = pushSubs d \<or> sound_push C V (u_id ` set (users d)) (pushSubs d')" by simp
  qed (use u in \<open>auto simp: upsert_push_def Let_def split: option.splits if_splits\<close>)
  show "sound C V (d\<lparr>pushSubs := delete_many p (pushSubs d)\<rparr>)"
    using assms by (intro sound_frame [OF assms]) (auto simp: sound_def sound_push_def)
qed

lemma sound_pin_statements:
  assumes "sound C V d"
  shows "pinned_insert c d = Inr (y, d') \<Longrightarrow> typed_pin V c \<Longrightarrow> sound C V d'" "sound C V (d\<lparr>pinnedCities := delete_many p (pinnedCities d)\<rparr>)"
proof -
  show "sound C V d'" if "pinned_insert c d = Inr (y, d')" "typed_pin V c"
  proof -
    let ?key = "\<lambda>c. (pc_userId c, pc_latitude c, pc_longitude c)"
    have d': "d' = d\<lparr>pinnedCities := pinnedCities d @ [c]\<rparr>" and "?key c \<notin> ?key ` set (pinnedCities d)" "pc_userId c \<in> u_id ` set (users d)"
      using that(1) unfolding pinned_insert_def by (force split: if_splits)+
    then have "sound_pins V (u_id ` set (users d)) (pinnedCities d @ [c])" using assms that(2) by (simp add: sound_def sound_pins_def)
    then show ?thesis unfolding d' by (intro sound_frame [OF assms]) simp_all
  qed
  show "sound C V (d\<lparr>pinnedCities := delete_many p (pinnedCities d)\<rparr>)"
    using assms by (intro sound_frame [OF assms]) (auto simp: sound_def sound_pins_def)
qed

lemma sound_trigger_insert:
  assumes "sound C V d" and "trigger_create i ids now userId dto l d = Inr (row, d')" and "valid_create (va_len V) dto" shows "sound C V d'"
proof -
  have "shaped_triggers V d'" using assms by (intro shaped_trigger_create [OF assms(2,3)]) (simp add: sound_def)
  moreover have "distinct (map tc_id (conditions d'))" "users d' = users d" "tr_id ` set (triggers d) \<subseteq> tr_id ` set (triggers d')"
    "notifications d' = notifications d" "pushSubs d' = pushSubs d" "refreshTokens d' = refreshTokens d" "pinnedCities d' = pinnedCities d"
    "outbox d' = outbox d"
    using assms(2) by (auto simp: trigger_create_def Let_def split: if_splits)
  ultimately show ?thesis using assms(1) log_keys_cong [of d' d] unfolding sound_def sound_history_def by (simp add: subset_iff)
qed

lemma sound_trigger_write:
  assumes "sound C V d" and "trigger_update ids i dto d = Inr (row, d')" and "valid_update (va_len V) dto" shows "sound C V d'"
proof -
  have "shaped_triggers V d'" using assms by (intro shaped_trigger_update [OF assms(2,3)]) (simp add: sound_def)
  moreover have tr: "triggers d' = update_many (\<lambda>t. tr_id t = i) (patch_trigger dto) (triggers d)"
    and "distinct (map tc_id (conditions d'))" "users d' = users d"
    "notifications d' = notifications d" "pushSubs d' = pushSubs d" "refreshTokens d' = refreshTokens d" "pinnedCities d' = pinnedCities d"
    "outbox d' = outbox d"
    using assms(2) by (auto simp: trigger_update_def Let_def split: if_splits option.splits)
  moreover have "map tr_id (triggers d') = map tr_id (triggers d)" by (simp add: tr map_update_many patch_trigger_def)
  then have "tr_id ` set (triggers d') = tr_id ` set (triggers d)" by (metis list.set_map)
  ultimately show ?thesis using assms(1) log_keys_cong [of d' d] by (simp add: sound_def)
qed

text \<open>The transaction of the watcher touches no column the typing is about.\<close>

lemma write_observations_keep:
  "write_observations obs cs = Inr cs' \<Longrightarrow> map tc_id cs' = map tc_id cs \<and> map tc_triggerId cs' = map tc_triggerId cs"
  by (induction obs cs rule: write_observations.induct) (auto simp: update_one_Inr map_update_many split: sum.splits)

lemma sound_writes: assumes "sound C V d" and "writes tid obs patch d = Inr d'" shows "sound C V d'"
proof -
  obtain cs where cs: "write_observations obs (conditions d) = Inr cs"
    and d': "d' = d\<lparr>conditions := cs, triggers := update_many (\<lambda>t. tr_id t = tid) (apply_patch patch) (triggers d)\<rparr>"
    using assms(2) by (auto simp: writes_def update_one_Inr split: sum.splits)
  note ids = write_observations_keep [OF cs]
  have count: "conditions_of d' j = conditions_of d j" for j
  proof -
    have n: "count_where (\<lambda>c. tc_triggerId c = j) xs = length (filter ((=) j) (map tc_triggerId xs))" for xs
      by (induction xs) (auto simp: count_where_def)
    have "conditions d' = cs" by (simp add: d')
    then show ?thesis unfolding conditions_of_def using n [of cs] n [of "conditions d"] ids by metis
  qed
  have owners: "tc_triggerId ` set cs = tc_triggerId ` set (conditions d)" using ids by (metis list.set_map)
  have keys: "map tr_id (triggers d') = map tr_id (triggers d)" "map tr_userId (triggers d') = map tr_userId (triggers d)"
    by (simp_all add: d' map_update_many apply_patch_def)
  have kset: "tr_id ` set (triggers d') = tr_id ` set (triggers d)" "tr_userId ` set (triggers d') = tr_userId ` set (triggers d)"
    using keys by (metis list.set_map)+
  have "typed_trigger V (apply_patch patch t) = typed_trigger V t" for t by (simp add: typed_trigger_def apply_patch_def)
  then have "list_all (typed_trigger V) (triggers d')"
    using assms(1) by (auto simp: d' sound_def shaped_triggers_def list_all_iff set_update_many)
  moreover have "\<forall>j \<in> tr_id ` set (triggers d'). 1 \<le> conditions_of d' j \<and> conditions_of d' j \<le> 5"
    using assms(1) unfolding kset count by (simp add: sound_def shaped_triggers_def)
  moreover have "tc_triggerId ` set (conditions d') \<subseteq> tr_id ` set (triggers d')" "tr_userId ` set (triggers d') \<subseteq> u_id ` set (users d')"
    using assms(1) owners unfolding kset by (auto simp: d' sound_def shaped_triggers_def)
  ultimately have "shaped_triggers V d'" using assms(1) keys(1) by (auto simp: shaped_triggers_def sound_def)
  then show ?thesis using assms(1) ids kset(1) log_keys_cong [of d' d] by (simp add: sound_def d')
qed

lemma sound_outbox: "sound C V d \<Longrightarrow> distinct (map ob_key rows) \<Longrightarrow> sound C V (d\<lparr>outbox := rows\<rparr>)"
  by (rule sound_frame) auto

lemma markPublished_keys [simp]: "map ob_key (markPublished now ids rows) = map ob_key rows"
  by (simp add: markPublished_def map_update_many ob_key_def)

text \<open>A statement of the delivery log, by the keys and the references it leaves.\<close>

lemma sound_log:
  assumes "sound C V d" and "log_keys (d\<lparr>notifications := ns\<rparr>)"
    and "\<And>n. n \<in> set ns \<Longrightarrow> (\<exists>m \<in> set (notifications d). n_userId n = n_userId m \<and> n_triggerId n = n_triggerId m) \<or>
      n_userId n \<in> u_id ` set (users d) \<and> (\<forall>t. n_triggerId n = Some t \<longrightarrow> t \<in> tr_id ` set (triggers d))"
  shows "sound C V (d\<lparr>notifications := ns\<rparr>)"
proof (rule sound_frame [OF assms(1)])
  have "sound_history (u_id ` set (users d)) (tr_id ` set (triggers d)) ns"
    using assms(1,3) unfolding sound_def sound_history_def by fastforce
  then show "notifications (d\<lparr>notifications := ns\<rparr>) = notifications d \<or> sound_history (u_id ` set (users d)) (tr_id ` set (triggers d))
      (notifications (d\<lparr>notifications := ns\<rparr>)) \<and> log_keys (d\<lparr>notifications := ns\<rparr>)" using assms(2) by simp
qed simp_all

lemma sound_log_update:
  assumes "sound C V d"
    and "\<And>n. n_eventId (f n) = n_eventId n \<and> n_channel (f n) = n_channel n \<and> n_userId (f n) = n_userId n \<and> n_triggerId (f n) = n_triggerId n"
  shows "sound C V (d\<lparr>notifications := update_many p f (notifications d)\<rparr>)"
  using assms by (intro sound_log log_keys_update) (auto simp: sound_def set_update_many)

lemma sound_log_insert: assumes "sound C V d" and "create_notification n d = Inr d'" shows "sound C V d'"
proof -
  have d': "d' = d\<lparr>notifications := notifications d @ [n]\<rparr>" and "n_userId n \<in> u_id ` set (users d)"
    and "\<forall>t. n_triggerId n = Some t \<longrightarrow> t \<in> tr_id ` set (triggers d)"
    using assms(2) by (auto simp: create_notification_def find_unique_None split: if_splits option.splits intro: rev_image_eqI)
  moreover have "log_keys d'" using assms log_keys_create by (auto simp: sound_def)
  ultimately show ?thesis unfolding d' by (intro sound_log [OF assms(1)]) (simp_all, blast)
qed

lemma sound_log_delete: "sound C V d \<Longrightarrow> delete_notifications q d = (n, d') \<Longrightarrow> sound C V d'"
proof -
  assume s: "sound C V d" and "delete_notifications q d = (n, d')"
  then have d': "d' = d\<lparr>notifications := delete_many q (notifications d)\<rparr>" by (simp add: delete_notifications_def)
  show ?thesis unfolding d' using s log_keys_delete by (intro sound_log) (auto simp: sound_def)
qed

lemma sound_settle: "sound C V d \<Longrightarrow> settle_row i now c ev status err d = Inr d' \<Longrightarrow> sound C V d'"
  by (auto simp: settle_row_def intro: sound_log_update sound_log_insert split: if_splits)

lemma statement_sound:
  assumes "statement C V d d'" and "sound C V d" shows "sound C V d'"
  using assms
proof cases
  case (claim_renew now channel e cutoff n)
  then show ?thesis using assms(2) by (auto simp: claim_update_def intro: sound_log_update)
next
  case (claim_release channel e)
  then show ?thesis using assms(2) by (auto simp: releaseClaim_row_def intro: sound_log_update)
next
  case (mark_delivered channel e destination)
  then show ?thesis using assms(2) by (auto simp: markDelivered_def intro: sound_log_update)
next
  case (claim_insert i now channel ev)
  then show ?thesis using assms(2) sound_log_insert by (auto simp: claim_create_def)
next
  case (stage tid obs patch e ims now)
  then have "sound C V e" using assms(2) sound_writes by blast
  moreover from this have "distinct (map ob_key (create_outbox ims now (outbox e)))" using create_outbox_keys by (simp add: sound_def)
  ultimately show ?thesis unfolding stage(1) by (rule sound_outbox)
next
  case (mark_published now published)
  then show ?thesis using sound_outbox [OF assms(2)] assms(2) by (simp add: sound_def)
next
  case (prune_published before n rows)
  then have "distinct (map ob_key rows)" using assms(2) by (auto simp: prunePublished_def Let_def sound_def)
  then show ?thesis unfolding prune_published(1) by (rule sound_outbox [OF assms(2)])
next
  case (settle i now channel ev status err)
  then show ?thesis using assms(2) sound_settle by blast
next
  case (account_write i g x)
  then show ?thesis using sound_account_write [OF assms(2)] by blast
next
  case (account_insert i now email h u)
  then show ?thesis using sound_account_insert [OF assms(2)] by blast
next
  case (account_delete i)
  show ?thesis unfolding account_delete(1) using assms(2) by (rule sound_account_delete)
next
  case (reset i h x)
  then show ?thesis using sound_reset [OF assms(2)] by blast
next
  case (token_insert r x)
  then show ?thesis using sound_tokens_statements(1) [OF assms(2)] by blast
next
  case (token_revoke p n)
  then show ?thesis using sound_tokens_statements(2) [OF assms(2)] by blast
next
  case (token_sweep now n)
  then show ?thesis using sound_tokens_statements(3) [OF assms(2)] by blast
next
  case (history_delete q n)
  then show ?thesis using sound_log_delete [OF assms(2)] by blast
next
  case (push_upsert i now userId dto z)
  then show ?thesis using sound_push_statements(1) [OF assms(2)] by blast
next
  case (push_delete pp)
  show ?thesis unfolding push_delete(1) using assms(2) by (rule sound_push_statements(2))
next
  case (pin_insert c y)
  then show ?thesis using sound_pin_statements(1) [OF assms(2)] by blast
next
  case (pin_delete pq)
  show ?thesis unfolding pin_delete(1) using assms(2) by (rule sound_pin_statements(2))
next
  case (trigger_insert i ids now userId cdto l row)
  then show ?thesis using sound_trigger_insert [OF assms(2)] by blast
next
  case (trigger_write ids i udto row)
  then show ?thesis using sound_trigger_write [OF assms(2)] by blast
next
  case (trigger_delete pt)
  show ?thesis unfolding trigger_delete(1) using assms(2) by (rule sound_trigger_delete)
next
  case (observe tid obs patch)
  then show ?thesis using sound_writes [OF assms(2)] by blast
qed

lemma path_sound: "path C V d d' \<Longrightarrow> sound C V d \<Longrightarrow> sound C V d'"
  by (induction rule: rtranclp_induct) (auto intro: statement_sound)

lemma sound_refs: "sound C V d \<Longrightarrow> db_refs d"
  by (simp add: sound_def sound_defs shaped_triggers_def db_refs_def)

lemma empty_sound: "sound C V empty_db"
  by (simp add: sound_def sound_defs shaped_triggers_def users_unique_def unique_some_def log_keys_def empty_db_def)

section \<open>Properties\<close>

text \<open>
  C7: the tables stay sound under every interleaving. From the empty database on, whatever statements of
  whatever number of requests, bots, sweeps, watchers, relays and consumers follow one another, the unique
  constraints hold, every trigger, condition, notification, subscription, token and pinned city belongs to a row that exists, and every field
  the watcher and the notifier read passes the checks of the validation pipe: windows that parse, known zones,
  coordinates in range, one to five conditions and one to three distinct channels for each trigger, push
  endpoints at known services. The ids drawn at random for notifications, subscriptions, pinned cities and outbox
  rows are not claimed to differ.
\<close>

theorem system_sound:
  assumes "path C V empty_db d" shows "sound C V d \<and> db_refs d"
  using path_sound [OF assms empty_sound] sound_refs by blast

text \<open>
  C8: every process is a path of the system. A request to the API, all terms of the Telegram bot, the two
  nightly sweeps, a poll cycle of the watcher with its interleaved workers, a pass of the outbox relay and its
  pruning, and a consumer handling a message change the database only by the statements of the system, one
  after the other, whatever fails on the way. The history sweep leaves the database to the other processes
  between its batches; what they do there is a path too.
\<close>

theorem processes_are_paths:
  "path (app_crypto A) (app_validators A) (ap_db s) (ap_db (requested A fq s)) \<and>
   path C V (ap_db (bo_api b)) (ap_db (bo_api (bot_run R K ts b))) \<and>
   path C V (ap_db s) (ap_db (snd (pruneStaleTokens R' env s))) \<and>
   ((\<forall>j d. path C V d (se_others sw j d)) \<longrightarrow>
      (case History.pruneExpired R' days sw s of Some (x, s') \<Rightarrow> path C V (ap_db s) (ap_db s') | None \<Rightarrow> True)) \<and>
   (case runCycle E shard conc re w of Some (x, w') \<Rightarrow> path C V (ww_db w) (ww_db w') | None \<Rightarrow> True) \<and>
   (rl_outbox rw = outbox d \<longrightarrow> path C V d (d\<lparr>outbox := rl_outbox (runRelay R batch p rw)\<rparr>)) \<and>
   path C V d (d\<lparr>outbox := pruneRelayed now (outbox d)\<rparr>) \<and>
   path C V (nw_db (cs_world st)) (nw_db (cs_world (handle parse cc he channel msg st)))"
proof (intro conjI impI)
  show "path (app_crypto A) (app_validators A) (ap_db s) (ap_db (requested A fq s))" by (rule api_path.requested_obeys) simp_all
  show "path C V (ap_db s) (ap_db (snd (pruneStaleTokens R' env s)))" using api_path.keeps_pruneStaleTokens by (simp add: obeys_def)
  show "case History.pruneExpired R' days sw s of Some (x, s') \<Rightarrow> path C V (ap_db s) (ap_db s') | None \<Rightarrow> True"
    if "\<forall>j d. path C V d (se_others sw j d)" using that history_sweep_path [of R' days sw s] by (auto split: option.splits prod.splits)
  show "case runCycle E shard conc re w of Some (x, w') \<Rightarrow> path C V (ww_db w) (ww_db w') | None \<Rightarrow> True"
    by (auto split: option.splits prod.splits dest: runCycle_path)
  show "path C V d (d\<lparr>outbox := rl_outbox (runRelay R batch p rw)\<rparr>)" if "rl_outbox rw = outbox d"
    using flush_path [OF that] by (simp add: runRelay_def)
qed (rule bot_run_path pruneRelayed_path handle_path)+

section \<open>What concurrency breaks\<close>

text \<open>
  The limit of triggers per user is read by one statement and relied on by another. Two requests that both
  find nine triggers both pass the check, and the user ends up with eleven.
\<close>

definition nine :: db where
  "nine = small_db\<lparr>triggers := map (\<lambda>k. heat\<lparr>tr_id := [char_of (k + 48)]\<rparr>) [1..<10], conditions := []\<rparr>"

definition another :: CreateTriggerDto where
  "another = \<lparr>ct_name = ''Heat'', ct_city = ''Berlin'', ct_latitude = 52, ct_longitude = 13, ct_conditions = [\<lparr>cd_metric = TEMPERATURE, cd_operator = GT, cd_threshold = 30\<rparr>], ct_conditionLogic = None,
     ct_channels = [EMAIL], ct_cooldownMin = None, ct_isActive = None\<rparr>"

lemma trigger_limit_raced:
  "valid_create length another \<and> countForUser ''u1'' nine < maxTriggersPerUser API_LIMITS \<and>
   (\<exists>r1 d1 r2 d2. trigger_create ''a'' (\<lambda>_. ''ca'') 0 ''u1'' another LogicAND nine = Inr (r1, d1) \<and>
      trigger_create ''b'' (\<lambda>_. ''cb'') 0 ''u1'' another LogicAND d1 = Inr (r2, d2) \<and> maxTriggersPerUser API_LIMITS < countForUser ''u1'' d2)"
  by (simp add: trigger_create_def nine_def another_def Let_def conditionRows_def find_user_def find_unique_def countForUser_def count_where_def
      API_LIMITS_def valid_create_def small_db_defs upt_rec char_of_def bit_iff_odd)

section \<open>Concrete systems\<close>

lemma api1_sound: "sound (app_crypto app0) (app_validators app0) (ap_db api1)"
  using api1_stored
  by (simp add: sound_def stored_def typed_triggers_def sound_users_def users_unique_def unique_some_def sound_history_def sound_push_def
      sound_tokens_def sound_pins_def log_keys_def trigger_samples)

definition settler :: User where
  "settler = new_user ''u1'' 0 ''a@x.io'' ''h''"

definition settled_db :: db where
  "settled_db = snd (projr (trigger_create ''t1'' (\<lambda>k. ''c'' @ show_nat k) 0 ''u1'' another LogicAND (empty_db\<lparr>users := [settler]\<rparr>)))"

lemmas settled_db_eval = settled_db_def trigger_create_def Let_def conditionRows_def find_user_def find_unique_def settler_def new_user_def
  empty_db_def another_def

lemma settled_path: "path plain_crypto validators0 empty_db settled_db"
proof (rule rtranclp_trans)
  show "path plain_crypto validators0 empty_db (empty_db\<lparr>users := [settler]\<rparr>)"
    by (rule path_step, rule account_insert [of "''u1''" 0 "''a@x.io''" "''h''" _ settler])
      (simp add: users_create_def Let_def settler_def findByEmail_def find_user_def find_unique_def empty_db_def)
  show "path plain_crypto validators0 (empty_db\<lparr>users := [settler]\<rparr>) settled_db"
    by (rule path_step, rule trigger_insert [of "''t1''" "\<lambda>k. ''c'' @ show_nat k" 0 "''u1''" another LogicAND])
      (simp_all add: settled_db_eval valid_create_def API_LIMITS_def validators0_def)
qed

theorem system_sound_witness: "sound plain_crypto validators0 settled_db \<and> db_refs settled_db"
  using settled_path by (rule system_sound)

theorem processes_are_paths_witness:
  "path (app_crypto app0) (app_validators app0) (ap_db api1)
     (ap_db (requested app0 (fates0 2000, asking (Some ''alice'') (TriggersRoute DeleteTriggers)) api1)) \<and>
   path plain_crypto validators0 empty_db (empty_db\<lparr>outbox := rl_outbox (runRelay mem_redis (Fin 10) good_pass
     \<lparr>rl_outbox = [], rl_redis = Map.empty, rl_broker = []\<rparr>)\<rparr>)"
proof
  show "path (app_crypto app0) (app_validators app0) (ap_db api1)
     (ap_db (requested app0 (fates0 2000, asking (Some ''alice'') (TriggersRoute DeleteTriggers)) api1))"
    by (rule processes_are_paths [THEN conjunct1])
  show "path plain_crypto validators0 empty_db (empty_db\<lparr>outbox := rl_outbox (runRelay mem_redis (Fin 10) good_pass
     \<lparr>rl_outbox = [], rl_redis = Map.empty, rl_broker = []\<rparr>)\<rparr>)"
    by (rule processes_are_paths [THEN conjunct2, THEN conjunct2, THEN conjunct2, THEN conjunct2, THEN conjunct2, THEN conjunct1, THEN mp])
      (simp add: empty_db_def)
qed

end
