(* ===== verification/Health.thy ===== *)
theory Health
  imports Consumer Config
begin

text \<open>
  What the three processes are operated by: the probes and the server of \<open>health-server.ts\<close>, the metric
  registry of \<open>metrics.ts\<close>, and the decisions \<open>main.ts\<close> takes from the configuration when a process starts.
\<close>

section \<open>Probes\<close>

text \<open>A check answers or throws.\<close>

datatype probe = Answers bool | Throws

definition prisma_isReachable :: "commit \<Rightarrow> bool" where
  "prisma_isReachable c = (c = Committed)"

definition redis_isConnected :: "string \<Rightarrow> bool" where
  "redis_isConnected status = (status = ''ready'')"

text \<open>\<open>connection?.isConnected() ?? false\<close>: before the module is initialised there is no connection.\<close>

definition publisher_isConnected :: "bool option \<Rightarrow> bool" where
  "publisher_isConnected connection = (case connection of Some c \<Rightarrow> c | None \<Rightarrow> False)"

definition consumer_isConnected :: "bool option \<Rightarrow> bool" where
  "consumer_isConnected connection = (case connection of Some c \<Rightarrow> c | None \<Rightarrow> False)"

type_synonym checks = "(string \<times> probe) list"

definition core_api_checks :: "commit \<Rightarrow> string \<Rightarrow> checks" where
  "core_api_checks sql redis = [(''postgres'', Answers (prisma_isReachable sql)), (''redis'', Answers (redis_isConnected redis))]"

definition watcher_checks :: "bool option \<Rightarrow> string \<Rightarrow> checks" where
  "watcher_checks connection redis = [(''rabbitmq'', Answers (publisher_isConnected connection)), (''redis'', Answers (redis_isConnected redis))]"

definition notifier_checks :: "bool option \<Rightarrow> checks" where
  "notifier_checks connection = [(''rabbitmq'', Answers (consumer_isConnected connection))]"

section \<open>The server (health-server.ts)\<close>

datatype health_body =
    Liveness string
  | Readiness string "(string \<times> bool) list"
  | Exposition string
  | NoBody

record health_reply =
  hp_status :: nat
  hp_body :: health_body

fun probed :: "probe \<Rightarrow> bool" where
  "probed (Answers b) = b"
| "probed Throws = False"

definition reportReadiness :: "checks \<Rightarrow> health_reply" where
  "reportReadiness checks =
     (let details = map (\<lambda>(dependency, check). (dependency, probed check)) checks; ready = list_all snd details
      in \<lparr>hp_status = (if ready then 200 else 503), hp_body = Readiness (if ready then ''ready'' else ''not_ready'') details\<rparr>)"

text \<open>\<open>metrics\<close> is the rendered registry, or nothing when rendering failed.\<close>

definition health_server :: "checks \<Rightarrow> string option \<Rightarrow> string \<Rightarrow> health_reply" where
  "health_server checks metrics url =
     (if url = ''/health'' then \<lparr>hp_status = 200, hp_body = Liveness ''ok''\<rparr>
      else if url = ''/ready'' then reportReadiness checks
      else if url = ''/metrics'' then
        (case metrics of Some text \<Rightarrow> \<lparr>hp_status = 200, hp_body = Exposition text\<rparr> | None \<Rightarrow> \<lparr>hp_status = 500, hp_body = NoBody\<rparr>)
      else \<lparr>hp_status = 404, hp_body = NoBody\<rparr>)"

text \<open>
  A process leaves the rotation exactly when a dependency is down or its check throws, and the liveness
  answer, on which it would be restarted, does not depend on any of them.
\<close>

lemma readiness:
  "hp_status (health_server checks metrics ''/ready'') = 200 \<longleftrightarrow> (\<forall>(n, p) \<in> set checks. p = Answers True)"
  "hp_status (health_server checks metrics ''/ready'') \<in> {200, 503}"
proof -
  have "probed p \<longleftrightarrow> p = Answers True" for p by (cases p) auto
  then show "hp_status (health_server checks metrics ''/ready'') = 200 \<longleftrightarrow> (\<forall>(n, p) \<in> set checks. p = Answers True)"
    by (auto simp: health_server_def reportReadiness_def Let_def list_all_iff split: prod.splits)
  show "hp_status (health_server checks metrics ''/ready'') \<in> {200, 503}" by (simp add: health_server_def reportReadiness_def Let_def)
qed

lemma liveness: "health_server checks metrics ''/health'' = health_server checks' metrics' ''/health''"
  by (simp add: health_server_def)

lemma core_api_ready: "hp_status (reportReadiness (core_api_checks sql redis)) = 200 \<longleftrightarrow> sql = Committed \<and> redis = ''ready''"
  by (simp add: reportReadiness_def core_api_checks_def Let_def prisma_isReachable_def redis_isConnected_def)

section \<open>The metric registry (metrics.ts)\<close>

datatype metric =
    Counter string string "string list"
  | Gauge string string "string list"
  | Histogram string string "rat list option" "string list"

fun metric_name :: "metric \<Rightarrow> string" where
  "metric_name (Counter n _ _) = n"
| "metric_name (Gauge n _ _) = n"
| "metric_name (Histogram n _ _ _) = n"

type_synonym registry = "metric list"

definition getSingleMetric :: "string \<Rightarrow> registry \<Rightarrow> metric option" where
  "getSingleMetric name reg = find (\<lambda>m. metric_name m = name) reg"

text \<open>The lookup or the new metric, with the registry after it.\<close>

definition getOr :: "metric \<Rightarrow> registry \<Rightarrow> metric \<times> registry" where
  "getOr m reg = (case getSingleMetric (metric_name m) reg of Some old \<Rightarrow> (old, reg) | None \<Rightarrow> (m, reg @ [m]))"

definition getCounter :: "string \<Rightarrow> string \<Rightarrow> string list \<Rightarrow> registry \<Rightarrow> metric \<times> registry" where
  "getCounter name help labelNames = getOr (Counter name help labelNames)"

definition getGauge :: "string \<Rightarrow> string \<Rightarrow> string list \<Rightarrow> registry \<Rightarrow> metric \<times> registry" where
  "getGauge name help labelNames = getOr (Gauge name help labelNames)"

definition getHistogram :: "string \<Rightarrow> string \<Rightarrow> rat list option \<Rightarrow> string list \<Rightarrow> registry \<Rightarrow> metric \<times> registry" where
  "getHistogram name help buckets labelNames = getOr (Histogram name help buckets labelNames)"

text \<open>Asking twice yields the same metric, and no name is ever registered twice, on which the client would throw.\<close>

lemma getOr_cases:
  assumes "getOr m reg = (x, reg')"
  obtains (old) "getSingleMetric (metric_name m) reg = Some x" "reg' = reg"
    | (new) "\<forall>y \<in> set reg. metric_name y \<noteq> metric_name m" "x = m" "reg' = reg @ [m]"
proof (cases "getSingleMetric (metric_name m) reg")
  case None
  then have "\<forall>y \<in> set reg. metric_name y \<noteq> metric_name m" by (auto simp: getSingleMetric_def find_None_iff)
  moreover have "x = m" "reg' = reg @ [m]" using None assms by (auto simp: getOr_def)
  ultimately show thesis by (rule new)
next
  case (Some y)
  moreover have "y = x" "reg' = reg" using Some assms by (auto simp: getOr_def)
  ultimately show thesis using old by blast
qed

lemma getOr_again:
  assumes "getOr m reg = (x, reg')" and "metric_name m' = metric_name m" shows "getOr m' reg' = (x, reg')"
  using assms(1)
proof (cases rule: getOr_cases)
  case old
  then show ?thesis by (simp add: getOr_def assms(2))
next
  case new
  then have "find (\<lambda>y. metric_name y = metric_name m) reg = None" by (auto simp: find_None_iff)
  then show ?thesis using new by (simp add: getOr_def getSingleMetric_def find_append assms(2))
qed

lemma getOr_distinct:
  assumes "getOr m reg = (x, reg')" and "distinct (map metric_name reg)" shows "distinct (map metric_name reg')"
  using assms(1) by (cases rule: getOr_cases) (use assms(2) in auto)

section \<open>Starting core-api (main.ts)\<close>

datatype trust = TrustNone | TrustHops rat | TrustList string

text \<open>\<open>TRUST_PROXY\<close>: a finite number is a hop count, anything else an address list; an empty value is none.\<close>

definition trustProxy :: "env \<Rightarrow> trust" where
  "trustProxy config =
     (case config ''TRUST_PROXY'' of
        None \<Rightarrow> TrustNone
      | Some v \<Rightarrow> if v = [] then TrustNone else (case js_Number (Str v) of Fin hops \<Rightarrow> TrustHops hops | _ \<Rightarrow> TrustList v))"

definition corsOrigins :: "env \<Rightarrow> string list" where
  "corsOrigins config =
     filter (\<lambda>origin. origin \<noteq> []) (map js_trim (split_char (CHR '','') (case config ''CORS_ORIGIN'' of Some v \<Rightarrow> v | None \<Rightarrow> ''http://localhost:3001'')))"

definition exposes_docs :: "env \<Rightarrow> bool" where
  "exposes_docs config \<longleftrightarrow> config ''NODE_ENV'' \<noteq> Some ''production''"

lemma last_dropWhile: "dropWhile p xs \<noteq> [] \<Longrightarrow> last (dropWhile p xs) = last xs"
  by (induction xs) auto

lemma trimmed: "js_trim s = [] \<or> \<not> is_ws (hd (js_trim s)) \<and> \<not> is_ws (last (js_trim s))"
proof -
  let ?u = "dropWhile is_ws s" and ?v = "dropWhile is_ws (rev (dropWhile is_ws s))"
  have "\<not> is_ws (last ?v)" if "?v \<noteq> []"
  proof -
    have "?u \<noteq> []" using that by (metis dropWhile.simps(1) rev.simps(1))
    then have "\<not> is_ws (hd ?u)" by (rule hd_dropWhile)
    then show ?thesis using last_dropWhile [OF that] by (simp add: last_rev)
  qed
  moreover have "\<not> is_ws (hd ?v)" if "?v \<noteq> []" using that by (rule hd_dropWhile)
  ultimately show ?thesis by (simp add: js_trim_def hd_rev last_rev) blast
qed

lemma dropWhile_fixed: "xs \<noteq> [] \<Longrightarrow> \<not> p (hd xs) \<Longrightarrow> dropWhile p xs = xs"
  by (cases xs) auto

lemma js_trim_fixed: "s \<noteq> [] \<Longrightarrow> \<not> is_ws (hd s) \<Longrightarrow> \<not> is_ws (last s) \<Longrightarrow> js_trim s = s"
  by (simp add: js_trim_def dropWhile_fixed hd_rev)

lemma js_trim_idem: "js_trim (js_trim s) = js_trim s"
proof (cases "js_trim s")
  case Nil
  have "js_trim [] = []" by (simp add: js_trim_def)
  then show ?thesis by (simp only: Nil)
next
  case (Cons a list)
  then show ?thesis using trimmed [of s] js_trim_fixed [of "js_trim s"] by simp
qed

text \<open>The allow-list holds no empty origin and none with blanks around it.\<close>

lemma corsOrigins_clean: "origin \<in> set (corsOrigins config) \<Longrightarrow> origin \<noteq> [] \<and> js_trim origin = origin"
  by (auto simp: corsOrigins_def js_trim_idem)

end
