(* ===== verification/Publisher.thy ===== *)
theory Publisher
  imports Consumer
begin

text \<open>
  \<open>rabbit-publisher.service.ts\<close>, the adapter through which the watcher's relay and core-api's test sends
  reach the broker. The connection is not modelled; the JSON encoding of the channel (\<open>json: true\<close>) is an
  argument. The broker hands a publication to a consumer as it is.
\<close>

definition rabbit_publish :: "(TriggerFiredEvent \<Rightarrow> string) \<Rightarrow> string \<Rightarrow> TriggerFiredEvent \<Rightarrow> publication" where
  "rabbit_publish stringify routingKey event =
     \<lparr>pb_exchange = NOTIFICATIONS_EXCHANGE, pb_key = routingKey, pb_content = stringify event,
      pb_messageId = Some (ev_eventId event), pb_headers = [(EVENT_ID_HEADER, HStr (ev_eventId event))]\<rparr>"

text \<open>\<open>onModuleInit\<close>: what the publisher declares whenever its channel is (re)opened.\<close>

definition publisher_setup :: "topo_decl list" where
  "publisher_setup = [AssertExchange NOTIFICATIONS_EXCHANGE]"

definition delivered :: "publication \<Rightarrow> message" where
  "delivered p = \<lparr>msg_content = pb_content p, msg_headers = pb_headers p, msg_messageId = pb_messageId p\<rparr>"

lemma published_fresh:
  "attemptCount (delivered (rabbit_publish stringify k ev)) = Fin 0"
  "headerString (delivered (rabbit_publish stringify k ev)) EVENT_ID_HEADER = Some (ev_eventId ev)"
  by (simp_all add: delivered_def rabbit_publish_def attemptCount_def headerString_def ATTEMPTS_HEADER_def EVENT_ID_HEADER_def)

text \<open>What is published under the key of a channel goes to the consumer of that channel and to no other.\<close>

lemma published_lands:
  "lands (setupTopology cc (registeredChannels (CHANNEL_IMPLEMENTATIONS os))) (pb_exchange (rabbit_publish stringify (routingKeyFor c) ev))
     (pb_key (rabbit_publish stringify (routingKeyFor c) ev)) = [Redelivered c]"
  unfolding registered by (simp add: rabbit_publish_def lands_main)

section \<open>What the broker knows\<close>

text \<open>
  Declaring is idempotent: what is there already, with the same arguments, stays as it is. The processes start
  in any order and any number of times, replicas and reconnections included; the consumers of the replicas of
  a channel share its queue and count as one.
\<close>

datatype process_start = PublisherUp | NotifierUp

definition declare_one :: "topo_decl \<Rightarrow> topo_decl list \<Rightarrow> topo_decl list" where
  "declare_one d ds = (if d \<in> set ds then ds else ds @ [d])"

fun declares :: "consumer_cfg \<Rightarrow> process_start \<Rightarrow> topo_decl list" where
  "declares cc PublisherUp = publisher_setup"
| "declares cc NotifierUp = topology cc"

definition broker :: "consumer_cfg \<Rightarrow> process_start list \<Rightarrow> topo_decl list" where
  "broker cc starts = fold declare_one (concat (map (declares cc) starts)) []"

lemma declare_known: "set xs \<subseteq> set ds \<Longrightarrow> fold declare_one xs ds = ds"
  by (induction xs) (auto simp: declare_one_def)

lemma declare_new: "distinct (ds @ xs) \<Longrightarrow> fold declare_one xs ds = ds @ xs"
  by (induction xs arbitrary: ds) (auto simp: declare_one_def)

text \<open>No declaration of the notifier is made twice.\<close>

lemma stages_in: "d \<in> set (stages c k delays) \<Longrightarrow> \<exists>n \<ge> k. n < k + length delays \<and> (\<exists>t. d \<in> set (retry_stage c (n, t)))"
  by (force simp: stages_def in_set_enumerate_eq add.commute)

lemma stages_distinct: "k + length delays \<le> 2 ^ 53 \<Longrightarrow> distinct (stages c k delays)"
proof (induction delays arbitrary: k)
  case (Cons t delays)
  have "d \<notin> set (stages c (Suc k) delays)" if d: "d \<in> set (retry_stage c (k, t))" for d
  proof
    assume "d \<in> set (stages c (Suc k) delays)"
    from stages_in [OF this] obtain n t' where "Suc k \<le> n" "n < Suc k + length delays" "d \<in> set (retry_stage c (n, t'))" by blast
    then show False using d Cons.prems stage_eq [of "Suc k" "Suc n" c c] by (auto simp: retry_stage_att simp del: of_nat_Suc)
  qed
  then show ?case using Cons by (auto simp: topo_simps retry_stage_att)
qed (simp add: topo_simps)

lemma channel_topology_distinct: "length (retryDelaysMs cc) \<le> 2 ^ 53 \<Longrightarrow> distinct (channel_topology cc c)"
  using stages_distinct [of 0 "retryDelaysMs cc" c] stages_in [of _ c 0 "retryDelaysMs cc"]
  by (fastforce simp: channel_topology_stages retry_stage_att)

lemma topology_distinct:
  assumes "length (retryDelaysMs cc) \<le> 2 ^ 53" shows "distinct (topology cc)"
proof -
  have "set (channel_topology cc c) \<inter> set (channel_topology cc c') = {}" if "c \<noteq> c'" for c c'
    using that assms by (auto simp: channel_topology_stages retry_stage_att stage_eq simp del: of_nat_Suc dest!: stages_in)
  moreover have "AssertExchange x \<notin> set (channel_topology cc c)" "Prefetch y \<notin> set (channel_topology cc c)" for x y c
    by (auto simp: channel_topology_stages retry_stage_att dest!: stages_in)
  ultimately show ?thesis using channel_topology_distinct [OF assms] by (auto simp: setupTopology_def)
qed

lemma publisher_setup_redeclared: "topology cc = publisher_setup @ tl (topology cc)"
  by (simp add: publisher_setup_def setupTopology_def)

text \<open>Once a notifier has started, the broker knows the topology of the notifier, whatever started before or after.\<close>

lemma broker_topology:
  assumes "length (retryDelaysMs cc) \<le> 2 ^ 53"
  shows "broker cc starts = (if NotifierUp \<in> set starts then topology cc else if starts = [] then [] else publisher_setup)"
proof (induction starts rule: rev_induct)
  case (snoc x starts)
  have step: "broker cc (starts @ [x]) = fold declare_one (declares cc x) (broker cc starts)" by (simp add: broker_def)
  have d: "distinct (topology cc)" using assms by (rule topology_distinct)
  have up: "fold declare_one (topology cc) publisher_setup = topology cc"
    using declare_new [of publisher_setup "tl (topology cc)"] d publisher_setup_redeclared [of cc] declare_known [of publisher_setup publisher_setup]
    by (metis fold_append o_apply order_refl)
  have "set publisher_setup \<subseteq> set (topology cc)" by (simp add: publisher_setup_def setupTopology_def)
  then show ?case using snoc step d up declare_new [of "[]" "topology cc"] declare_new [of "[]" publisher_setup]
    by (cases x) (auto simp: declare_known, simp add: publisher_setup_def)
qed (simp add: broker_def)

text \<open>
  Until then the messages are lost: published before the first consumer has declared its queues, a message
  reaches none of them, and the broker confirms it, since it is not published as mandatory.
\<close>

lemma published_before_topology:
  assumes "NotifierUp \<notin> set starts" and "length (retryDelaysMs cc) \<le> 2 ^ 53"
  shows "lands (broker cc starts) (pb_exchange (rabbit_publish stringify k ev)) (pb_key (rabbit_publish stringify k ev)) = []"
  using assms by (simp add: broker_topology lands_def routes_def publisher_setup_def)

end
