(* ===== verification/Telemetry.thy ===== *)
theory Telemetry
  imports Health Publisher ApiBase
begin

text \<open>
  What the processes tell about themselves: the log context of \<open>log-context.ts\<close> with the fields the consumer
  opens it with, the last line of defence of \<open>rejection-guard.ts\<close>, the metrics each module registers when it
  is loaded, and the interceptor of core-api that times requests. Rendering lines and metrics belongs to pino
  and prom-client.
\<close>

section \<open>The log context (log-context.ts)\<close>

text \<open>
  \<open>AsyncLocalStorage\<close> gives each asynchronous task the object its scope was opened with: a continuation has
  the object of the task it comes from, the same one and not a copy. Tasks are numbered.
\<close>

datatype logval = LStr string | LNum jsnum | LBool bool

type_synonym LogContext = "string \<rightharpoonup> logval"

record async_storage =
  al_objects :: "LogContext list"
  al_store :: "nat \<Rightarrow> nat option"

definition no_storage :: async_storage where
  "no_storage = \<lparr>al_objects = [], al_store = (\<lambda>_. None)\<rparr>"

definition currentLogContext :: "nat \<Rightarrow> async_storage \<Rightarrow> LogContext" where
  "currentLogContext t s = (case al_store s t of Some a \<Rightarrow> al_objects s ! a | None \<Rightarrow> Map.empty)"

text \<open>The function runs as the task \<open>t\<close>, with a fresh copy of the context.\<close>

definition runWithLogContext :: "nat \<Rightarrow> LogContext \<Rightarrow> async_storage \<Rightarrow> async_storage" where
  "runWithLogContext t context s =
     s\<lparr>al_objects := al_objects s @ [context], al_store := (al_store s)(t \<mapsto> length (al_objects s))\<rparr>"

definition addLogContext :: "nat \<Rightarrow> LogContext \<Rightarrow> async_storage \<Rightarrow> async_storage" where
  "addLogContext t extra s =
     (case al_store s t of Some a \<Rightarrow> s\<lparr>al_objects := (al_objects s)[a := al_objects s ! a ++ extra]\<rparr> | None \<Rightarrow> s)"

definition continues :: "nat \<Rightarrow> nat \<Rightarrow> async_storage \<Rightarrow> async_storage" where
  "continues t u s = s\<lparr>al_store := (al_store s)(u := al_store s t)\<rparr>"

datatype log_event = Run nat LogContext | Continue nat nat | Add nat LogContext | Emit nat string

text \<open>The lines in their order, each with the fields the mixin of \<open>logger.config.ts\<close> stamps on it.\<close>

fun log_lines :: "async_storage \<Rightarrow> log_event list \<Rightarrow> (string \<times> LogContext) list" where
  "log_lines s [] = []"
| "log_lines s (Run t c # es) = log_lines (runWithLogContext t c s) es"
| "log_lines s (Continue t u # es) = log_lines (continues t u s) es"
| "log_lines s (Add t extra # es) = log_lines (addLogContext t extra s) es"
| "log_lines s (Emit t l # es) = (l, currentLogContext t s) # log_lines s es"

text \<open>
  What correlation means: every line carries the fields of the scope it descends from, extended by what was
  added in that scope, and nothing of any other. \<open>scope\<close> says which scope a task is in, \<open>held\<close> what each holds.
\<close>

fun scoped_lines :: "nat \<Rightarrow> (nat \<rightharpoonup> nat) \<Rightarrow> (nat \<Rightarrow> LogContext) \<Rightarrow> log_event list \<Rightarrow> (string \<times> LogContext) list" where
  "scoped_lines n scope held [] = []"
| "scoped_lines n scope held (Run t c # es) = scoped_lines (Suc n) (scope(t \<mapsto> n)) (held(n := c)) es"
| "scoped_lines n scope held (Continue t u # es) = scoped_lines n (scope(u := scope t)) held es"
| "scoped_lines n scope held (Add t c # es) =
     scoped_lines n scope (case scope t of Some a \<Rightarrow> held(a := held a ++ c) | None \<Rightarrow> held) es"
| "scoped_lines n scope held (Emit t l # es) =
     (l, case scope t of Some a \<Rightarrow> held a | None \<Rightarrow> Map.empty) # scoped_lines n scope held es"

lemma log_lines_scoped:
  assumes "\<forall>t a. al_store s t = Some a \<longrightarrow> a < length (al_objects s)" and "\<forall>a < length (al_objects s). held a = al_objects s ! a"
  shows "log_lines s es = scoped_lines (length (al_objects s)) (al_store s) held es"
  using assms
proof (induction es arbitrary: s held)
  case (Cons e es)
  show ?case
  proof (cases e)
    case (Run t c)
    have "log_lines (runWithLogContext t c s) es =
        scoped_lines (length (al_objects (runWithLogContext t c s))) (al_store (runWithLogContext t c s)) (held(length (al_objects s) := c)) es"
      by (rule Cons.IH) (use Cons.prems in \<open>auto simp: runWithLogContext_def nth_append less_Suc_eq\<close>)
    then show ?thesis by (simp add: Run runWithLogContext_def)
  next
    case (Continue t u)
    have "log_lines (continues t u s) es = scoped_lines (length (al_objects (continues t u s))) (al_store (continues t u s)) held es"
      by (rule Cons.IH) (use Cons.prems in \<open>auto simp: continues_def\<close>)
    then show ?thesis by (simp add: Continue continues_def)
  next
    case (Add t c)
    show ?thesis
    proof (cases "al_store s t")
      case None
      then show ?thesis using Cons by (simp add: Add addLogContext_def)
    next
      case (Some a)
      have "log_lines (addLogContext t c s) es =
          scoped_lines (length (al_objects (addLogContext t c s))) (al_store (addLogContext t c s)) (held(a := held a ++ c)) es"
        by (rule Cons.IH) (use Cons.prems Some in \<open>auto simp: addLogContext_def nth_list_update\<close>)
      then show ?thesis by (simp add: Add Some addLogContext_def)
    qed
  next
    case (Emit t l)
    have "currentLogContext t s = (case al_store s t of Some a \<Rightarrow> held a | None \<Rightarrow> Map.empty)"
      using Cons.prems by (auto simp: currentLogContext_def split: option.splits)
    then show ?thesis using Cons by (simp add: Emit)
  qed
qed simp

lemma lines_correlated: "log_lines no_storage es = scoped_lines 0 Map.empty held es"
  using log_lines_scoped [of no_storage held es] by (simp add: no_storage_def)

text \<open>The context in which the consumer handles a message.\<close>

definition handle_context :: "Channel \<Rightarrow> message \<Rightarrow> LogContext" where
  "handle_context channel msg =
     [''eventId'' \<mapsto> LStr (case headerString msg EVENT_ID_HEADER of Some e \<Rightarrow> e | None \<Rightarrow> unknownId msg),
      ''channel'' \<mapsto> LStr (channel_value channel), ''attempt'' \<mapsto> LNum (num_succ (attemptCount msg))]"

text \<open>
  A message keeps its event id through the bounces: the published message has the id of its event, and every
  copy the consumer confirms, for a retry or to the dead queue, has the context of the original but for the
  number of the attempt.
\<close>

lemma published_context:
  "handle_context c (delivered (rabbit_publish stringify k ev)) =
     [''eventId'' \<mapsto> LStr (ev_eventId ev), ''channel'' \<mapsto> LStr (channel_value c), ''attempt'' \<mapsto> LNum (Fin 1)]"
  using mk_num_of_int [of 1] by (simp add: handle_context_def published_fresh)

lemma republish_headers:
  assumes "republish env msg key hs st = (Inr u, st')" and "headerString msg EVENT_ID_HEADER = Some e" "e \<noteq> []"
    and "EVENT_ID_HEADER \<notin> fst ` set hs"
  shows "\<exists>p. cs_published st' = cs_published st @ [p] \<and> headerString (delivered p) EVENT_ID_HEADER = Some e \<and>
    attemptCount (delivered p) = attemptCount \<lparr>msg_content = msg_content msg, msg_headers = hs, msg_messageId = msg_messageId msg\<rparr>"
proof -
  have "map_of hs EVENT_ID_HEADER = None" using assms(4) by (simp add: map_of_eq_None_iff)
  moreover have "EVENT_ID_HEADER \<noteq> ATTEMPTS_HEADER" by (simp add: EVENT_ID_HEADER_def ATTEMPTS_HEADER_def)
  moreover have "cs_published st' = cs_published st @ [\<lparr>pb_exchange = DLX_EXCHANGE, pb_key = key, pb_content = msg_content msg,
      pb_messageId = msg_messageId msg, pb_headers = hs @ [(EVENT_ID_HEADER, HStr e)]\<rparr>]"
    using assms(1-3) by (cases "he_publish env") (auto simp: republish_def Let_def)
  ultimately show ?thesis
    by (simp add: delivered_def headerString_def attemptCount_def map_add_def split: option.split)
qed

lemma retried_context:
  assumes "republish env msg key [(ATTEMPTS_HEADER, HNum n)] st = (Inr u, st')"
    and "headerString msg EVENT_ID_HEADER = Some e" "e \<noteq> []"
  shows "\<exists>p. cs_published st' = cs_published st @ [p] \<and>
    handle_context c (delivered p) = (handle_context c msg)(''attempt'' \<mapsto> LNum (num_succ n))"
proof -
  have "EVENT_ID_HEADER \<notin> fst ` set [(ATTEMPTS_HEADER, HNum n)]" by (simp add: EVENT_ID_HEADER_def ATTEMPTS_HEADER_def)
  from republish_headers [OF assms this] obtain p where "cs_published st' = cs_published st @ [p]"
    "headerString (delivered p) EVENT_ID_HEADER = Some e" "attemptCount (delivered p) = n" by (auto simp: attemptCount_def)
  then show ?thesis using assms(2) by (auto simp: handle_context_def fun_upd_twist)
qed

section \<open>The rejection guard (rejection-guard.ts)\<close>

text \<open>A rejection reason: an \<open>Error\<close> with its optional stack, or any other value by its \<open>String(v)\<close>.\<close>

datatype reason = ErrorReason "string option" string string | OtherReason string

fun stringify_reason :: "reason \<Rightarrow> string" where
  "stringify_reason (ErrorReason (Some stack) name message) = stack"
| "stringify_reason (ErrorReason None name message) = name @ '': '' @ message"
| "stringify_reason (OtherReason s) = s"

text \<open>The listeners of \<open>unhandledRejection\<close>, each logging under the name it was installed with.\<close>

definition installRejectionGuard :: "string \<Rightarrow> string list \<Rightarrow> string list" where
  "installRejectionGuard name listeners = listeners @ [name]"

text \<open>What Node does with a rejection nobody handled: it ends the process unless there is a listener.\<close>

datatype rejection_outcome = Terminates | Logs "(string \<times> string) list"

definition unhandledRejection :: "reason \<Rightarrow> string list \<Rightarrow> rejection_outcome" where
  "unhandledRejection reason listeners =
     (if listeners = [] then Terminates
      else Logs (map (\<lambda>name. (name, ''Unhandled promise rejection '' @ EM_DASH @ '' a failure escaped its handler: '' @ stringify_reason reason)) listeners))"

lemma guarded_survives:
  "unhandledRejection reason (installRejectionGuard name listeners) \<noteq> Terminates"
  "unhandledRejection reason [] = Terminates"
  by (simp_all add: unhandledRejection_def installRejectionGuard_def)

section \<open>Metrics at load time\<close>

type_synonym registration = "registry \<Rightarrow> metric \<times> registry"

definition register_metrics :: "registration list \<Rightarrow> registry \<Rightarrow> registry" where
  "register_metrics ms reg = fold (\<lambda>m r. snd (m r)) ms reg"

definition weather_metrics :: "registration list" where
  "weather_metrics =
     [getCounter ''watcher_weather_cache_total'' ''Weather snapshot lookups by cache result'' [''result''],
      getCounter ''watcher_weather_fetch_failures_total'' ''Failed Open-Meteo snapshot fetches'' []]"

definition outbox_metrics :: "registration list" where
  "outbox_metrics =
     [getCounter ''watcher_outbox_relayed_total'' ''Staged events handed to the broker'' [],
      getCounter ''watcher_outbox_failures_total'' ''Publish attempts that left an event staged for the next pass'' [],
      getGauge ''watcher_outbox_pending'' ''Events staged but not yet handed to the broker'' []]"

definition cycle_metrics :: "registration list" where
  "cycle_metrics =
     [getHistogram ''watcher_cycle_duration_seconds'' ''Duration of a watcher poll cycle in seconds'' None [],
      getCounter ''watcher_triggers_evaluated_total'' ''Total number of trigger evaluations'' [],
      getCounter ''watcher_triggers_fired_total'' ''Total number of triggers fired'' [],
      getCounter ''watcher_suppressed_total'' ''Total number of matched triggers whose delivery was withheld'' [''reason'']]"

definition dispatch_metrics :: "registration list" where
  "dispatch_metrics =
     [getCounter ''notifier_notifications_total'' ''Total notifications logged by channel and status'' [''channel'', ''status''],
      getHistogram ''notifier_delivery_duration_seconds'' ''Time spent delivering a notification through a channel''
        (Some [5/100, 1/10, 1/4, 1/2, 1, 2, 5, 10, 30]) [''channel'', ''outcome''],
      getCounter ''notifier_duplicates_skipped_total'' ''Redelivered events that were already sent on this channel'' [''channel'']]"

definition consumer_metrics :: "registration list" where
  "consumer_metrics =
     [getCounter ''notifier_retries_total'' ''Total notification delivery retries by channel'' [''channel''],
      getCounter ''notifier_dead_lettered_total'' ''Messages parked in the dead queue by channel and reason'' [''channel'', ''reason''],
      getCounter ''notifier_handler_failures_total''
        ''Deliveries left unacked because the handler could not record their outcome'' [''channel'']]"

definition forecast_metrics :: "registration list" where
  "forecast_metrics = [getCounter ''core_api_forecast_total'' ''Forecast lookups by cache result'' [''result'']]"

definition geocode_metrics :: "registration list" where
  "geocode_metrics = [getCounter ''core_api_geocode_total'' ''City lookups by cache result'' [''result'']]"

definition MetricsService :: "registration list" where
  "MetricsService =
     [getCounter ''core_api_auth_events_total'' ''Authentication events by type'' [''type''],
      getHistogram ''core_api_http_request_duration_seconds'' ''HTTP request duration in seconds''
        (Some [1/100, 5/100, 1/10, 3/10, 1, 3]) [''method'', ''route'', ''status'']]"

lemmas load_metrics = weather_metrics_def outbox_metrics_def cycle_metrics_def dispatch_metrics_def consumer_metrics_def
  forecast_metrics_def geocode_metrics_def MetricsService_def getCounter_def getGauge_def getHistogram_def

text \<open>
  The modules of a process may be loaded in any order, and a module may be loaded twice: the registry ends
  with each metric once, under the type and the labels of the module that owns it.
\<close>

lemma getOr_present: "\<lbrakk>m \<in> set reg; distinct (map metric_name reg)\<rbrakk> \<Longrightarrow> snd (getOr m reg) = reg"
  by (auto simp: getOr_def getSingleMetric_def find_None_iff split: option.splits)

lemma register_all:
  assumes "set ls \<subseteq> set ms" and "distinct (map metric_name ms)" and "distinct (map metric_name reg)" "set reg \<subseteq> set ms"
  shows "set (register_metrics (map getOr ls) reg) = set reg \<union> set ls \<and> distinct (map metric_name (register_metrics (map getOr ls) reg))"
  using assms(1,3,4)
proof (induction ls arbitrary: reg)
  case (Cons m ls)
  have "set (snd (getOr m reg)) = insert m (set reg) \<and> distinct (map metric_name (snd (getOr m reg)))"
  proof (cases "m \<in> set reg")
    case True
    then show ?thesis using Cons.prems getOr_present by (simp add: insert_absorb)
  next
    case False
    have "\<forall>y \<in> set reg. metric_name y \<noteq> metric_name m"
    proof
      fix y assume "y \<in> set reg"
      then have "y \<in> set ms" "m \<in> set ms" "y \<noteq> m" using Cons.prems False by auto
      then show "metric_name y \<noteq> metric_name m" using assms(2) by (auto simp: distinct_map dest: inj_onD)
    qed
    then have "getSingleMetric (metric_name m) reg = None" by (auto simp: getSingleMetric_def find_None_iff)
    then show ?thesis using Cons.prems(2) \<open>\<forall>y \<in> set reg. _\<close> by (auto simp: getOr_def)
  qed
  then show ?case using Cons.IH [of "snd (getOr m reg)"] Cons.prems by (auto simp: register_metrics_def)
qed (simp add: register_metrics_def)

definition program_metrics :: "metric list" where
  "program_metrics = register_metrics (weather_metrics @ outbox_metrics @ cycle_metrics @ dispatch_metrics @ consumer_metrics @
     forecast_metrics @ geocode_metrics @ MetricsService) []"

lemma program_metrics_distinct: "distinct (map metric_name program_metrics)" "length program_metrics = 19"
  by (simp_all add: program_metrics_def register_metrics_def load_metrics getOr_def getSingleMetric_def)

lemma loaded_metrics:
  "weather_metrics @ outbox_metrics @ cycle_metrics @ dispatch_metrics @ consumer_metrics @ forecast_metrics @ geocode_metrics @
     MetricsService = map getOr program_metrics"
  by (simp add: program_metrics_def register_metrics_def load_metrics getOr_def [of _ "[]"] getOr_def [of _ "_ # _"] getSingleMetric_def)

lemma any_load_order:
  assumes "set ls \<subseteq> set program_metrics"
  shows "set (register_metrics (map getOr ls) []) = set ls" "distinct (map metric_name (register_metrics (map getOr ls) []))"
  using register_all [OF assms program_metrics_distinct(1), of "[]"] by simp_all

section \<open>Timing requests (metrics.interceptor.ts)\<close>

record observation =
  ob_method :: string
  ob_route :: string
  ob_status :: nat
  ob_seconds :: rat

text \<open>
  The interceptor wraps the handler: \<open>statusCode\<close> is the status of the response when the handler's result
  passes through it, by a value or by an error, and the timer runs from its entry until then.
\<close>

definition intercept ::
  "string \<Rightarrow> string \<Rightarrow> string option \<Rightarrow> string \<Rightarrow> nat \<Rightarrow> rat \<Rightarrow> (http_error, 'a) result \<Rightarrow> (http_error, 'a) result \<times> observation list" where
  "intercept kind method routePath path statusCode elapsed result =
     (result, if kind \<noteq> ''http'' then []
              else [\<lparr>ob_method = method, ob_route = (case routePath of Some p \<Rightarrow> p | None \<Rightarrow> path), ob_status = statusCode, ob_seconds = elapsed\<rparr>])"

text \<open>
  The framework sets the status of a success before the interceptors run, and its exception filter, which
  turns an error into the status of the answer, runs after them.
\<close>

fun http_status :: "http_error \<Rightarrow> nat" where
  "http_status (BadRequest _) = 400"
| "http_status ValidationFailed = 400"
| "http_status (Unauthorized _) = 401"
| "http_status (Forbidden _) = 403"
| "http_status (NotFound _) = 404"
| "http_status (Conflict _) = 409"
| "http_status (TooManyRequests _) = 429"
| "http_status (ServiceUnavailable _) = 503"
| "http_status (DatabaseError _) = 500"
| "http_status CacheError = 500"

definition exception_filter :: "nat \<Rightarrow> (http_error, 'a) result \<Rightarrow> nat" where
  "exception_filter success result = (case result of Inl e \<Rightarrow> http_status e | Inr _ \<Rightarrow> success)"

text \<open>
  Each request is observed once and its answer is left as it is. The status label of a success is the status
  of the answer; that of a failure is not: it is the status the success would have had.
\<close>

lemma request_observed:
  assumes "intercept ''http'' method routePath path success elapsed result = (result', obs)"
  shows "result' = result" and "\<exists>ob. obs = [ob] \<and> ob_status ob = success \<and> ob_seconds ob = elapsed"
    and "exception_filter success (Inr v) = success"
  using assms by (auto simp: intercept_def exception_filter_def)

lemma failure_mislabelled:
  assumes "intercept ''http'' method routePath path success elapsed (Inl e) = (result', obs)" and "success < 400"
  shows "\<forall>ob \<in> set obs. ob_status ob \<noteq> exception_filter success result'"
  using assms by (cases e) (auto simp: intercept_def exception_filter_def)

end
