(* ===== verification/Denial.thy ===== *)
theory Denial
  imports Policy
begin

text \<open>
  The deny marker of a deleted account (\<open>revokeUserTokens\<close>, ADR 0011): a key in Redis that \<open>JwtAuthGuard\<close> looks up
  for every authenticated request. Shown here is that no request the API serves, whatever it does with Redis,
  takes the marker away before its time, and what follows for the tokens of a deleted account.
\<close>

section \<open>Redis through a request\<close>

text \<open>An action keeps a property of the store.\<close>

definition shields :: "('r \<Rightarrow> bool) \<Rightarrow> ('r, 'a) act \<Rightarrow> 'r api \<Rightarrow> bool" where
  "shields P m s \<longleftrightarrow> (P (ap_redis s) \<longrightarrow> P (ap_redis (snd (m s))))"

named_theorems shield \<open>actions that keep a property of the store\<close>

lemma shields_pure [shield]:
  "shields P (yields x) s" "shields P (rejects e) s" "shields P (reads f q) s" "shields P (query f q') s" "shields P (rethrow y) s"
  by (auto simp: shields_def act_simps split: prod.splits sum.splits)

lemma shields_andThen [shield]: "shields P m s \<Longrightarrow> (\<And>x t. shields P (k x) t) \<Longrightarrow> shields P (andThen m k) s"
  unfolding shields_def andThen_def by (auto split: prod.splits sum.splits)

lemma shields_executes [shield]: "shields P (executes f q) s"
  unfolding executes_def by (intro shield)

lemma shields_asks: "(\<And>r. P r \<Longrightarrow> P (snd (c r))) \<Longrightarrow> shields P (asks c) s"
  by (simp add: shields_def asks_eq)

text \<open>The operations that do not use Redis at all.\<close>

lemma shields_users [shield]:
  "shields P (getProfile f userId) s" "shields P (updateProfile env userId dto) s" "shields P (createTelegramLink C env userId b) s"
  "shields P (unlinkTelegram env userId) s" "shields P (listPushSubscriptions env userId) s"
  "shields P (addPushSubscription env userId pdto) s" "shields P (user_removePushSubscription env userId e) s"
proof -
  show get: "shields P (getProfile f userId) s" for f s
    unfolding getProfile_def by (auto intro!: shield split: option.split)
  show "shields P (updateProfile env userId dto) s" unfolding updateProfile_def by (intro shield get)
  show "shields P (createTelegramLink C env userId b) s" unfolding createTelegramLink_def Let_def by (intro shield)
  show "shields P (unlinkTelegram env userId) s" unfolding unlinkTelegram_def by (intro shield)
  show "shields P (listPushSubscriptions env userId) s" unfolding listPushSubscriptions_def by (intro shield)
  show "shields P (addPushSubscription env userId pdto) s" unfolding addPushSubscription_def by (auto intro!: shield)
  show "shields P (user_removePushSubscription env userId e) s" unfolding user_removePushSubscription_def by (auto intro!: shield)
qed

lemma shields_findOwned [shield]: "shields P (findOwned f userId i) s"
  unfolding findOwned_def by (auto intro!: shield split: option.split)

lemma shields_triggers [shield]:
  "shields P (CreateTriggerHandler env userId dto) s" "shields P (UpdateTriggerHandler env userId i udto) s"
  "shields P (DeleteTriggerHandler env userId i) s" "shields P (ClearTriggersHandler env userId) s"
  "shields P (GetTriggerHandler env userId i) s" "shields P (ListTriggersHandler env userId pg) s"
  unfolding CreateTriggerHandler_def UpdateTriggerHandler_def DeleteTriggerHandler_def ClearTriggersHandler_def GetTriggerHandler_def
    ListTriggersHandler_def Let_def
  by (auto intro!: shield split: prod.split)

lemma shields_rows [shield]:
  "shields P (findAll env userId pg) s" "shields P (clear env userId) s" "shields P (remove_notification env userId i) s"
  "shields P (pinned_findAll env userId) s" "shields P (pinned_create env userId dto) s" "shields P (pinned_remove env userId i) s"
  "shields P (getUser f i) s" "shields P (assertExists f i) s" "shields P (assertNotTheLastAdmin f i) s" "shields P (admin_deleteTrigger env i) s"
  unfolding findAll_def clear_def remove_notification_def pinned_findAll_def pinned_create_def pinned_remove_def getUser_def assertExists_def
    assertNotTheLastAdmin_def admin_deleteTrigger_def Let_def
  by (auto intro!: shield split: option.split sum.split db_error.split)

lemma shields_mail [shield]: "shields P (sendDetached a to subject html) s"
  by (simp add: shields_def sendDetached_def)

lemma shields_tokens [shield]:
  "shields P (issueTokens C J a env n k userId email) s" "shields P (sendVerificationEmail C a env n k userId email) s" "shields P (revokeFamily f i) s"
  unfolding issueTokens_def sendVerificationEmail_def revokeFamily_def Let_def by (auto intro!: shield)

lemma shields_auth [shield]:
  "shields P (register C J a env email password) s" "shields P (verifyEmail C env token) s" "shields P (resendVerification C a env userId) s"
  "shields P (forgotPassword C a env email) s" "shields P (resetPassword C env token password) s" "shields P (refresh C J a env token) s"
  "shields P (logout J a env token) s"
  unfolding register_def verifyEmail_def resendVerification_def forgotPassword_def resetPassword_def refresh_def logout_def Let_def
  by (auto intro!: shield split: option.split)

lemma shields_publish_test [shield]: "shields P (publish_test pub k cs ev) s"
  unfolding shields_def by (induction pub k cs ev s rule: publish_test.induct) auto

section \<open>The marker\<close>

text \<open>The deny marker of \<open>u\<close> is there and lasts at least until \<open>e\<close>.\<close>

definition denied_until :: "('r \<Rightarrow> string \<Rightarrow> entry option) \<Rightarrow> ident \<Rightarrow> instant \<Rightarrow> 'r \<Rightarrow> bool" where
  "denied_until view u e r \<longleftrightarrow> (\<exists>x t. view r (revokedKey u) = Some (x, Some t) \<and> e \<le> t)"

lemma keys_differ:
  "revokedKey u \<noteq> loginFailureKey C email" "revokedKey u \<noteq> ''trigger-test:'' @ i" "revokedKey u \<noteq> forecast_key lat lon"
  "revokedKey u \<noteq> geocode_key C q" "revokedKey u \<noteq> hitKeyFor name key" "revokedKey u \<noteq> hitKeyFor name key @ '':blocked''"
  by (simp_all add: revokedKey_def loginFailureKey_def forecast_key_def geocode_key_def hitKeyFor_def)

text \<open>
  A command touches the key it names and no other; for \<open>INCR\<close> this also holds of a value that is not a number,
  on which it fails.
\<close>

locale redis_isolated = redis_spec +
  assumes incr_other: "k' \<noteq> k \<Longrightarrow> view (snd (rincr R s now k)) k' = view s k'"
begin

lemma pexpire_other: "k' \<noteq> k \<Longrightarrow> 0 < p \<Longrightarrow> view (snd (rpexpire R s now k p)) k' = view s k'"
  using pexpire_live [of now s k] pexpire_dead [of now s k p] by (cases "live now (view s k)") (auto simp del: pexpire_dead)

lemma set_other: "k' \<noteq> k \<Longrightarrow> 0 < p \<Longrightarrow> view (snd (rset R s now k v (Some p) nx)) k' = view s k'"
  using set_effect [of "Some p" s now k v nx] by (simp add: set_view_def)

lemma issue_other: "view (snd q) k' = view s k' \<Longrightarrow> view (snd (issue c s q)) k' = view s k'"
  by (cases c; cases q) simp_all

lemma service_other:
  assumes "k' \<noteq> key"
  shows "0 < ttlSec \<Longrightarrow> view (snd (setJson R c stringify s now key x ttlSec)) k' = view s k'"
    and "0 < ttlSec \<Longrightarrow> view (snd (consumeCooldown R c c' s now now' key ttlSec)) k' = view s k'"
    and "view (snd (clearCooldown R c s now key)) k' = view s k'" and "view (clearFailures R c s now key) k' = view s k'"
    and "0 < windowSec \<Longrightarrow> view (snd (recordFailure R c s now key windowSec)) k' = view s k'"
proof -
  show "view (snd (setJson R c stringify s now key x ttlSec)) k' = view s k'" if "0 < ttlSec"
    using issue_other [of "rset R s now key (stringify x) (Some (1000 * ttlSec)) False" k' s c] set_other assms that by (simp add: setJson_def)
  show "view (snd (clearCooldown R c s now key)) k' = view s k'" "view (clearFailures R c s now key) k' = view s k'"
    using issue_other [of "rdel R s now key" k' s c] assms by (simp_all add: clearCooldown_def clearFailures_def del_effect)
  show "view (snd (consumeCooldown R c c' s now now' key ttlSec)) k' = view s k'" if "0 < ttlSec"
  proof -
    obtain y s1 where y: "issue c s (rset R s now key ''1'' (Some (1000 * ttlSec)) True) = (y, s1)" by force
    have "view s1 k' = view s k'"
      using issue_other [of "rset R s now key ''1'' (Some (1000 * ttlSec)) True" k' s c] set_other assms that y by simp
    then show ?thesis using y issue_other [of "(rttl R s1 now' key, s1)" k' s1 c']
      by (auto simp: consumeCooldown_def split: sum.splits prod.splits)
  qed
  show "view (snd (recordFailure R c s now key windowSec)) k' = view s k'" if "0 < windowSec"
  proof -
    have "view (snd (RECORD_FAILURE R s now key windowSec)) k' = view s k'"
      using assms that incr_other pexpire_other by (auto simp: RECORD_FAILURE_def Let_def split: prod.splits) (metis snd_conv)+
    then show ?thesis using issue_other [of "RECORD_FAILURE R s now key windowSec" k' s c]
      by (auto simp: recordFailure_def split: sum.splits prod.splits)
  qed
qed

lemma increment_other:
  assumes "k' \<noteq> hitKeyFor name key" "k' \<noteq> hitKeyFor name key @ '':blocked''" and "0 < ttl" "0 \<le> block"
  shows "view (snd (increment R c s now key ttl limit block name)) k' = view s k'"
proof -
  let ?hk = "hitKeyFor name key" and ?bk = "hitKeyFor name key @ '':blocked''" and ?b = "if block \<noteq> 0 then block else ttl"
  obtain n s1 where i: "rincr R s now ?hk = (n, s1)" by force
  have "view s1 k' = view s k'" using incr_other [OF assms(1)] i by (metis snd_conv)
  moreover have "view (snd (rpexpire R s1 now ?hk ttl)) k' = view s1 k'" using assms by (simp add: pexpire_other)
  moreover have "view (snd (rset R w now ?bk ''1'' (Some ?b) False)) k' = view w k'" for w using assms by (intro set_other) auto
  ultimately have "view (snd (INCREMENT R s now ?hk ?bk ttl limit ?b)) k' = view s k'" by (auto simp: INCREMENT_def Let_def i)
  then show ?thesis using issue_other [of "INCREMENT R s now ?hk ?bk ttl limit ?b" k' s c]
    by (auto simp: increment_def Let_def split: sum.splits prod.splits)
qed

text \<open>Writing a marker, the same or another, only makes it last longer.\<close>

lemma revoke_keeps:
  assumes "denied_until view u e s" and "0 < ttl" and "e \<le> now + 1000 * ttl"
  shows "denied_until view u e (snd (revokeUserTokens R c s now i ttl))"
proof -
  let ?q = "rset R s now (revokedKey i) ''1'' (Some (1000 * ttl)) False"
  have "view (snd ?q) = set_view (view s) now (revokedKey i) ''1'' (Some (1000 * ttl))" using set_effect [of "Some (1000 * ttl)"] assms(2) by simp
  then have "denied_until view u e (snd ?q)" using assms by (auto simp: denied_until_def set_view_def revokedKey_def)
  moreover have "snd (revokeUserTokens R c s now i ttl) = snd (issue c s ?q)" by (simp add: revokeUserTokens_def split: prod.splits sum.splits)
  ultimately show ?thesis using assms(1) by (cases c; cases ?q) simp_all
qed

lemma denied_other: "denied_until view u e s \<Longrightarrow> view s' (revokedKey u) = view s (revokedKey u) \<Longrightarrow> denied_until view u e s'"
  by (simp add: denied_until_def)

end

interpretation mem_isolated: redis_isolated mem_redis "\<lambda>m. m"
  by unfold_locales (auto simp: mem_redis_def split: option.splits)

section \<open>Every request keeps it\<close>

definition route_shields :: "('r \<Rightarrow> bool) \<Rightarrow> ('r, 'a) route \<Rightarrow> 'r api \<Rightarrow> bool" where
  "route_shields P m s \<longleftrightarrow> (P (ap_redis s) \<longrightarrow> P (ap_redis (snd (snd (m s)))))"

lemma route_shields_simps:
  "route_shields P (answers b m) s \<longleftrightarrow> shields P m s"
  "route_shields P (replies b n) s \<longleftrightarrow> route_shields P n s"
  "route_shields P (with_tokens a base t) s \<longleftrightarrow> shields P t s"
  "route_shields P (delete_me R K ttl base env userId p) s \<longleftrightarrow> shields P (deleteAccount R K ttl env userId p) s"
  by (auto simp: route_shields_def shields_def answers_def replies_def with_tokens_def delete_me_def split: prod.splits sum.splits)

lemma cookie_shields:
  "route_shields P (post_refresh K J a base env cookies) s" "route_shields P (post_logout J a base env cookies) s"
proof -
  show "route_shields P (post_refresh K J a base env cookies) s"
    using shields_auth(6) route_shields_simps(3) [of P a base "refresh K J a env token" s for token]
    by (auto simp: post_refresh_def route_shields_def split: option.splits list.splits)
  show "route_shields P (post_logout J a base env cookies) s"
    using shields_auth(7) [of P J a env "the (readRefreshCookie cookies)" s]
    by (auto simp: post_logout_def route_shields_def shields_def split: option.splits list.splits prod.splits)
qed

context redis_isolated
begin

lemma shields_revokes:
  assumes "0 < accessTtlSec ttlMs" and "e \<le> rq_now env + 1000 * accessTtlSec ttlMs"
  shows "shields (denied_until view u e) (deleteAccount R C ttlMs env userId p) s"
    and "shields (denied_until view u e) (updateUser R ttlMs env i dto) s"
    and "shields (denied_until view u e) (deleteUser R ttlMs env acting i) s"
proof -
  have ask [shield]: "shields (denied_until view u e) (asks (\<lambda>r. revokeUserTokens R c r (rq_now env) j (accessTtlSec ttlMs))) s" for c j s
    by (rule shields_asks) (use revoke_keeps assms in blast)
  show "shields (denied_until view u e) (deleteAccount R C ttlMs env userId p) s"
    unfolding deleteAccount_def by (auto intro!: shield ask split: option.split)
  show "shields (denied_until view u e) (updateUser R ttlMs env i dto) s" unfolding updateUser_def by (auto intro!: shield ask)
  show "shields (denied_until view u e) (deleteUser R ttlMs env acting i) s" unfolding deleteUser_def by (auto intro!: shield ask)
qed

lemma shields_cached:
  "shields (denied_until view u e) (login R C J a env email password) s"
  "shields (denied_until view u e) (SendTestNotificationHandler R pub env userId i) s"
  "shields (denied_until view u e) (forecast_get R parse stringify http env lat lon) s"
  "shields (denied_until view u e) (geocode_search R C parse' stringify' http' env q) s"
proof -
  have ask: "shields (denied_until view u e) (asks c) s" if "\<And>r. view (snd (c r)) (revokedKey u) = view r (revokedKey u)" for c s
    by (rule shields_asks) (use denied_other that in blast)
  show "shields (denied_until view u e) (login R C J a env email password) s" unfolding login_def Let_def
    by (auto intro!: shield ask service_other simp: keys_differ LOGIN_LOCKOUT_SEC_def split: option.split)
  show "shields (denied_until view u e) (SendTestNotificationHandler R pub env userId i) s" unfolding SendTestNotificationHandler_def Let_def
    by (auto intro!: shield ask service_other simp: revokedKey_def API_LIMITS_def split: sum.split)
  have store: "denied_until view u e (snd (setJson R c str r now key x ttl))" if "denied_until view u e r" "revokedKey u \<noteq> key" "0 < ttl"
    for c str r now key x ttl by (rule denied_other [OF that(1) service_other(1) [OF that(2,3)]])
  show "shields (denied_until view u e) (forecast_get R parse stringify http env lat lon) s"
    unfolding shields_def forecast_get_def Let_def
    by (auto simp: FORECAST_CACHE_TTL_SEC_def keys_differ store split: sum.splits option.splits prod.splits)
      (metis keys_differ(3) snd_conv store zero_less_numeral)+
  show "shields (denied_until view u e) (geocode_search R C parse' stringify' http' env q) s"
    unfolding shields_def geocode_search_def Let_def
    by (auto simp: GEOCODE_CACHE_TTL_SEC_def keys_differ store split: sum.splits option.splits prod.splits)
      (metis keys_differ(4) snd_conv store zero_less_numeral)+
qed

lemma shields_handler:
  assumes "R = app_redis A" and "0 < accessTtlSec (as_accessTtlMs (app_auth A))"
    and "e \<le> rq_now (ft_env f) + 1000 * accessTtlSec (as_accessTtlMs (app_auth A))"
  shows "route_shields (denied_until view u e) (handler A f cookies user ep) s"
proof (cases ep)
  case (AuthRoute r)
  then show ?thesis using shields_cached(1) assms(1)
    by (cases r) (auto intro!: shield simp: route_shields_simps post_register_def post_login_def cookie_shields)
next
  case (UsersRoute r)
  then show ?thesis using shields_revokes(1) [OF assms(2,3)] assms(1) by (cases r) (auto intro!: shield simp: route_shields_simps)
next
  case (TriggersRoute r)
  then show ?thesis using shields_cached(2) assms(1) by (cases r) (auto intro!: shield simp: route_shields_simps)
next
  case (AdminRoute r)
  then show ?thesis using shields_revokes(2,3) [OF assms(2,3)] assms(1) by (cases r) (auto intro!: shield simp: route_shields_simps)
next
  case (NotificationsRoute r)
  then show ?thesis by (cases r) (auto intro!: shield simp: route_shields_simps)
next
  case (PinnedRoute r)
  then show ?thesis by (cases r) (auto intro!: shield simp: route_shields_simps)
qed (use shields_cached(3,4) assms(1) in \<open>auto intro!: shield simp: route_shields_simps ForecastController_def GeocodeController_def\<close>)

lemma admit_other:
  assumes "R = app_redis A" shows "view (snd (admit A f q r)) (revokedKey u) = view r (revokedKey u)"
proof -
  have "view (snd (increment R c r now key THROTTLE_TTL limit THROTTLE_TTL ''default'')) (revokedKey u) = view r (revokedKey u)" for c now key limit
    by (rule increment_other) (simp_all add: keys_differ THROTTLE_TTL_def del: append.simps)
  then show ?thesis unfolding assms by (auto simp: admit_def Let_def split: prod.splits) (metis snd_conv)+
qed

text \<open>No request takes the marker away, nor makes it end earlier.\<close>

lemma requested_keeps:
  assumes "R = app_redis A" and "0 < accessTtlSec (as_accessTtlMs (app_auth A))"
    and "e \<le> rq_now (ft_env (fst fq)) + 1000 * accessTtlSec (as_accessTtlMs (app_auth A))" and "denied_until view u e (ap_redis s)"
  shows "denied_until view u e (ap_redis (requested A fq s))"
proof -
  obtain f q where fq: "fq = (f, q)" by force
  obtain y r where y: "admit A f q (ap_redis s) = (y, r)" by force
  have r: "denied_until view u e r" using admit_other [OF assms(1), of f q "ap_redis s" u] y assms(4) by (simp add: denied_until_def)
  show ?thesis
  proof (cases y)
    case Inl then show ?thesis using r y by (simp add: fq requested_def serve_refused)
  next
    case (Inr me)
    then show ?thesis using r y shields_handler [OF assms(1,2), where f = f and e = e] assms(3)
      by (simp add: fq requested_def serve_admitted route_shields_def)
  qed
qed

lemma requests_keep:
  assumes "R = app_redis A" and "0 < accessTtlSec (as_accessTtlMs (app_auth A))"
    and "\<forall>(f, q) \<in> set fqs. e \<le> rq_now (ft_env f) + 1000 * accessTtlSec (as_accessTtlMs (app_auth A))" and "denied_until view u e (ap_redis s)"
  shows "denied_until view u e (ap_redis (fold (requested A) fqs s))"
  using assms(3,4)
proof (induction fqs arbitrary: s)
  case (Cons fq fqs)
  then have "denied_until view u e (ap_redis (requested A fq s))" by (intro requested_keeps [OF assms(1,2)]) auto
  then show ?case using Cons by simp
qed simp

lemma denied_until_revoked:
  assumes "denied_until view u e s" and "now < e" shows "isUserRevoked R Replied s now u"
  using assms by (auto simp: denied_until_def isUserRevoked_def exists_key)

lemma revoke_denied_until:
  assumes "0 < ttl" and "c = Replied \<or> c = LostAfter"
  shows "denied_until view u (now + 1000 * ttl) (snd (revokeUserTokens R c s now u ttl))"
proof -
  let ?q = "rset R s now (revokedKey u) ''1'' (Some (1000 * ttl)) False"
  have "view (snd ?q) = set_view (view s) now (revokedKey u) ''1'' (Some (1000 * ttl))" using set_effect [of "Some (1000 * ttl)"] assms(1) by simp
  then have "denied_until view u (now + 1000 * ttl) (snd ?q)" by (simp add: denied_until_def set_view_def)
  moreover have "snd (revokeUserTokens R c s now u ttl) = snd ?q"
    using assms(2) by (cases ?q) (auto simp: revokeUserTokens_def split: prod.splits sum.splits)
  ultimately show ?thesis by simp
qed

text \<open>A request with a token of a denied user is refused, by the throttler or by the guard.\<close>

lemma denied_refused:
  assumes "R = app_redis A" and "denied_until view u e (ap_redis s)" and "rq_now (ft_env f) < e" and "ft_guard f = Replied"
    and "\<not> public (hr_endpoint q)" and "map_option au_userId (passport A (rq_now (ft_env f)) q) = Some u" and "u \<noteq> ''''"
  shows "\<exists>x. fst (serve A f q s) = Inl x \<and> (x = Unauthorized ''This session is no longer valid'' \<or> x \<in> range TooManyRequests) \<and>
    ap_db (snd (snd (serve A f q s))) = ap_db s"
proof -
  let ?de = "decorators_of (hr_endpoint q)"
  obtain rec r where i: "increment R (ft_throttle f) (ap_redis s) (rq_now (ft_env f)) (app_throttleKey A (de_handler ?de) (hr_ip q)) THROTTLE_TTL
      (de_limit ?de) THROTTLE_TTL ''default'' = (rec, r)" by force
  have "snd (admit A f q (ap_redis s)) = r" using i assms(1) by (simp add: admit_def Let_def)
  then have "denied_until view u e r" using admit_other [OF assms(1), of f q "ap_redis s" u] assms(2) by (simp add: denied_until_def)
  then have "isUserRevoked R Replied r (rq_now (ft_env f)) u" using assms(3) by (rule denied_until_revoked)
  then have "run_guards A f q r None (de_guards ?de) = Inl (Unauthorized ''This session is no longer valid'')"
    using assms by (auto simp: guards_of jwt_canActivate_def)
  then show ?thesis using i assms(1) by (simp add: serve_def admit_def Let_def)
qed

end

section \<open>The deletion\<close>

lemma deleteAccount_revokes:
  "deleteAccount R C ttlMs env userId password s = (Inr b, s') \<Longrightarrow>
   \<exists>r. ap_redis s' = snd (revokeUserTokens R (rq_io env 0) r (rq_now env) userId (accessTtlSec ttlMs))"
  by (auto simp: deleteAccount_def andThen_Inr asks_eq split: option.splits if_splits)

lemma deleteUser_revokes:
  "deleteUser R ttlMs env acting i s = (Inr b, s') \<Longrightarrow>
   \<exists>r. ap_redis s' = snd (revokeUserTokens R (rq_io env 0) r (rq_now env) i (accessTtlSec ttlMs))"
  by (auto simp: deleteUser_def andThen_Inr asks_eq split: if_splits)

text \<open>The request that deletes the account of \<open>u\<close>: the owner's, or an administrator's.\<close>

definition deletes :: "'r app \<Rightarrow> fates \<Rightarrow> http_request \<Rightarrow> ident \<Rightarrow> bool" where
  "deletes A f q u \<longleftrightarrow>
     (case hr_endpoint q of
        UsersRoute (DeleteMe _) \<Rightarrow> map_option au_userId (passport A (rq_now (ft_env f)) q) = Some u
      | AdminRoute (DeleteUser i) \<Rightarrow> i = u
      | _ \<Rightarrow> False)"

lemma answers_Inr: "answers b m s = (Inr x, ops, s') \<Longrightarrow> \<exists>y. m s = (Inr y, s')"
  by (cases "fst (m s)") (auto simp: answers_def split: prod.splits)

lemma replies_Inr: "replies b m s = (Inr x, ops, s') \<Longrightarrow> \<exists>y ops'. m s = (Inr y, ops', s')"
  by (cases "fst (m s)") (auto simp: replies_def split: prod.splits)

lemma deletion_revokes:
  assumes "serve A f q s = (Inr b, ops, s')" and "deletes A f q u"
  shows "\<exists>r. ap_redis s' = snd (revokeUserTokens (app_redis A) (rq_io (ft_env f) 0) r (rq_now (ft_env f)) u (accessTtlSec (as_accessTtlMs (app_auth A))))"
proof -
  obtain y r where y: "admit A f q (ap_redis s) = (y, r)" by force
  then obtain me where me: "y = Inr me" using assms(1) by (cases y) (auto simp: serve_def)
  have h: "handler A f (hr_cookies q) me (hr_endpoint q) (s\<lparr>ap_redis := r\<rparr>) = (Inr b, ops, s')" using assms(1) y me by (simp add: serve_def)
  note admitted = admit_Inr [OF y [unfolded me]]
  consider (own) p where "hr_endpoint q = UsersRoute (DeleteMe p)" "au_userId me = u" | (admin) "hr_endpoint q = AdminRoute (DeleteUser u)"
    using assms(2) admitted by (auto simp: deletes_def caller_def split: endpoint.splits users_route.splits admin_route.splits)
  then show ?thesis
  proof cases
    case own
    then obtain c where "deleteAccount (app_redis A) (app_crypto A) (as_accessTtlMs (app_auth A)) (ft_env f) u p (s\<lparr>ap_redis := r\<rparr>) = (Inr c, s')"
      using h by (auto simp: delete_me_def dest!: replies_Inr split: prod.splits sum.splits)
    then show ?thesis by (rule deleteAccount_revokes)
  next
    case admin
    then obtain i where "deleteUser (app_redis A) (as_accessTtlMs (app_auth A)) (ft_env f) (au_userId me) u (s\<lparr>ap_redis := r\<rparr>) = (Inr i, s')"
      using h by (auto dest!: answers_Inr)
    then show ?thesis by (rule deleteUser_revokes)
  qed
qed

text \<open>
  C18: a deleted account is locked out. After a request that deletes an account has succeeded, by its owner or
  by an administrator, with the deny marker taken by Redis, and after any further requests of anybody have been
  served, a request that carries an access token of that user to a route that needs one is refused, with the
  database untouched, for the whole lifetime an access token can have. The one proviso on the request itself is
  that Redis answers the guard's look-up: where it does not, the guard lets the token through (ADR 0011).
\<close>

theorem deleted_user_locked_out:
  assumes "redis_isolated (app_redis A) view" and "serve A f q s = (Inr b, ops, s')" and "deletes A f q u"
    and "rq_io (ft_env f) 0 = Replied \<or> rq_io (ft_env f) 0 = LostAfter" and "0 < accessTtlSec (as_accessTtlMs (app_auth A))"
    and "\<forall>(g, _) \<in> set fqs. rq_now (ft_env f) \<le> rq_now (ft_env g)" and "s1 = fold (requested A) fqs s'"
    and "\<not> public (hr_endpoint q')" and "map_option au_userId (passport A (rq_now (ft_env f')) q') = Some u" and "u \<noteq> ''''"
    and "ft_guard f' = Replied" and "rq_now (ft_env f') < rq_now (ft_env f) + 1000 * accessTtlSec (as_accessTtlMs (app_auth A))"
  shows "\<exists>e. fst (serve A f' q' s1) = Inl e \<and> (e = Unauthorized ''This session is no longer valid'' \<or> e \<in> range TooManyRequests) \<and>
    ap_db (snd (snd (serve A f' q' s1))) = ap_db s1"
proof -
  let ?e = "rq_now (ft_env f) + 1000 * accessTtlSec (as_accessTtlMs (app_auth A))"
  have "denied_until view u ?e (ap_redis s')"
    using deletion_revokes [OF assms(2,3)] redis_isolated.revoke_denied_until [OF assms(1,5,4)] by auto
  then have "denied_until view u ?e (ap_redis s1)" unfolding assms(7)
    using assms(6) by (intro redis_isolated.requests_keep [OF assms(1) refl assms(5)]) auto
  then show ?thesis using assms by (intro redis_isolated.denied_refused [OF assms(1) refl, where e = ?e]) auto
qed

definition leaving :: "http_request" where
  "leaving = asking (Some ''alice'') (UsersRoute (DeleteMe ''h''))"

definition left :: "(string \<Rightarrow> entry option) api" where
  "left = snd (snd (serve app0 (fates0 2000) leaving api1))"

lemma leaving_admitted:
  "\<exists>r. admit app0 (fates0 2000) leaving Map.empty = (Inr \<lparr>au_userId = ''u1'', au_email = ''a@x.io'', au_role = USER\<rparr>, r)"
proof -
  let ?k = "''UsersControllerdeleteMe10.0.0.1''"
  obtain rec r where i: "increment mem_redis Replied Map.empty 2000 ?k THROTTLE_TTL 5 THROTTLE_TTL ''default'' = (rec, r)" by force
  have b: "\<not> t_isBlocked rec" using mem.increment_fresh [OF _ _ _ i] by (simp add: THROTTLE_TTL_def mem_redis_def)
  have "r (revokedKey ''u1'') = None"
    using mem.increment_frame [OF i] by (simp add: THROTTLE_TTL_def revokedKey_def hitKeyFor_def)
  then have "\<not> isUserRevoked mem_redis Replied r 2000 ''u1''" using mem.exists_key by (simp add: isUserRevoked_def)
  then show ?thesis using i b passport0(2) [of 2000 "UsersRoute (DeleteMe ''h'')"]
    by (simp add: admit_def leaving_def asking_def app0_def fates0_def done_env_def on_def jwt_canActivate_def)
qed

lemma left_run: "\<exists>b ops. serve app0 (fates0 2000) leaving api1 = (Inr b, ops, left)"
proof -
  obtain r where r: "admit app0 (fates0 2000) leaving Map.empty = (Inr \<lparr>au_userId = ''u1'', au_email = ''a@x.io'', au_role = USER\<rparr>, r)"
    using leaving_admitted by blast
  have r1: "ap_redis api1 = Map.empty" by (simp add: trigger_samples)
  show ?thesis using r r1 unfolding left_def
    by (simp add: serve_def leaving_def app0_def fates0_def auth0_def delete_me_def replies_def deleteAccount_def act_simps
        revokeUserTokens_def mem_redis_def set_view_def trigger_samples plain_crypto_def find_user_def find_unique_def delete_user_row_def)
qed

text \<open>The same request twice: one that was served in between, and one after it.\<close>

theorem deleted_user_locked_out_witness:
  "let q' = asking (Some ''alice'') (TriggersRoute DeleteTriggers); s1 = fold (requested app0) [(fates0 2500, q')] left in
   \<exists>e. fst (serve app0 (fates0 3000) q' s1) = Inl e \<and> (e = Unauthorized ''This session is no longer valid'' \<or> e \<in> range TooManyRequests) \<and>
    ap_db (snd (snd (serve app0 (fates0 3000) q' s1))) = ap_db s1"
  unfolding Let_def
proof -
  let ?q' = "asking (Some ''alice'') (TriggersRoute DeleteTriggers)"
  obtain b ops where run: "serve app0 (fates0 2000) leaving api1 = (Inr b, ops, left)" using left_run by blast
  have ttl: "accessTtlSec (as_accessTtlMs (app_auth app0)) = 900" using rnd64_of_int [of 900] by (simp add: app0_def auth0_def accessTtlSec_def)
  have "redis_isolated (app_redis app0) (\<lambda>m. m)" using mem_isolated.redis_isolated_axioms by (simp add: app0_def)
  from this run show "\<exists>e. fst (serve app0 (fates0 3000) ?q' (fold (requested app0) [(fates0 2500, ?q')] left)) = Inl e \<and>
      (e = Unauthorized ''This session is no longer valid'' \<or> e \<in> range TooManyRequests) \<and>
      ap_db (snd (snd (serve app0 (fates0 3000) ?q' (fold (requested app0) [(fates0 2500, ?q')] left)))) =
      ap_db (fold (requested app0) [(fates0 2500, ?q')] left)"
  proof (rule deleted_user_locked_out [where u = "''u1''" and fqs = "[(fates0 2500, ?q')]"])
    show "deletes app0 (fates0 2000) leaving ''u1''" by (simp add: deletes_def leaving_def passport0)
    show "rq_io (ft_env (fates0 2000)) 0 = Replied \<or> rq_io (ft_env (fates0 2000)) 0 = LostAfter" by (simp add: fates0_def done_env_def)
    show "0 < accessTtlSec (as_accessTtlMs (app_auth app0))" by (simp add: ttl)
    show "rq_now (ft_env (fates0 3000)) < rq_now (ft_env (fates0 2000)) + 1000 * accessTtlSec (as_accessTtlMs (app_auth app0))"
      by (simp add: fates0_def done_env_def ttl)
  qed (simp_all add: passport0, simp_all add: fates0_def done_env_def asking_def)
qed

end
