(* ===== verification/Spec2Isabelle.thy ===== *)
theory Spec2Isabelle
  imports System Telemetry Denial
begin

text \<open>
  A verification development of the weather-alert backend under \<open>src/\<close>.

  \<^bold>\<open>The program.\<close> Three processes share a PostgreSQL database, a Redis server and a RabbitMQ broker. The
  \<^emph>\<open>watcher\<close> (\<open>apps/watcher\<close>) polls Open-Meteo for the location of every active trigger, evaluates its
  conditions, decides whether it fires, and commits the firing together with one outbox row per channel;
  its relay hands the rows to the broker. The \<^emph>\<open>notifier\<close> (\<open>apps/notifier\<close>) consumes them, claims each
  delivery, sends it by e-mail, Telegram or Web Push, and retries or parks what fails. The \<^emph>\<open>API\<close>
  (\<open>apps/core-api\<close>) serves accounts, sessions, triggers, history, administration, the weather proxies and
  the Telegram bot. \<open>libs/domain\<close> holds the rules, \<open>libs/contracts\<close> the messages, \<open>libs/common\<close> the
  Redis service, mailer, publisher and configuration.

  \<^bold>\<open>The theories\<close>, in the order they build on each other.
  \<^item> \<open>Prelude\<close>: results, instants, tables as lists of rows, decimal printing. \<open>JsNumber\<close>: doubles as
    rationals with the rounding of every operation, \<open>Number(s)\<close> and number printing.
  \<^item> \<open>Conditions\<close>, \<open>QuietHours\<close>, \<open>TriggerMachine\<close>, \<open>Location\<close>: \<open>libs/domain/src\<close> and \<open>sharding.ts\<close> with
    the backfill migration. Shown: the evaluator matches exactly when some or every condition holds;
    the quiet window is a cyclic interval; firings respect the cooldown under every sequence of polls and
    a new crossing fires; every location belongs to exactly one shard and the migration computes the same bucket.
  \<^item> \<open>Contracts\<close>, \<open>Schema\<close>: events, broker names, the tables of \<open>prisma/schema.prisma\<close> with their keys,
    foreign keys and cascades, the outcomes of a transaction, and the guard that keeps the enums of the domain
    and of the schema the same.
  \<^item> \<open>RedisStore\<close>, \<open>RedisSpec\<close>: \<open>redis.service.ts\<close> and the throttler storage over a record of Redis
    commands. Locale \<open>redis_spec\<close> is the documented behaviour of the server and \<open>lock_service\<close> the contract
    of the lock, a sublocale of it. Shown: mutual exclusion and recovery of the lock, exact failure and
    throttle windows. The in-memory store interprets \<open>redis_spec\<close>.
  \<^item> \<open>WatchedTriggers\<close>, \<open>Outbox\<close>, \<open>WeatherProvider\<close>, \<open>Watcher\<close>: the watcher's repositories, relay, weather
    cache and poll cycle. Shown: a firing commits with all its deliveries or not at all; no staged message
    is lost; a relay pass is a run of the interleaved system and drains the backlog; under every
    interleaving of workers and lock renewals each location is polled once and none after the lock is lost.
  \<^item> \<open>DeliveryLog\<close>, \<open>Channels\<close>, \<open>Notifier\<close>, \<open>Consumer\<close>, \<open>Publisher\<close>: the notifier and the publisher in front
    of it. Locale \<open>lease_log\<close> is the contract of the claims. Shown: one sender at a time under every
    interleaving of consumers; \<open>dispatch\<close> is a path of that system; a device is pushed again only after an answer or a
    record was lost; the mail body is free of markup; a message is acknowledged only when it is safe, and the count
    in flight is kept, whatever fails; shutdown ends. What the broker does with a message is computed from the
    declarations of the processes that have started.
  \<^item> \<open>ApiBase\<close>, \<open>Users\<close>, \<open>Auth\<close>, \<open>Config\<close>, \<open>Sessions\<close>: requests as actions that may fail at every statement,
    accounts, tokens, environment validation, and the routes of a session with their cookie. Shown: account
    deletion leaves no row that references the user; a refresh token is spent once, its reuse detected, and the sweep changes no answer;
    lockout; reset links; what a validated watcher is given to do.
  \<^item> \<open>TriggersApi\<close>, \<open>Admin\<close>, \<open>History\<close>, \<open>TelegramBot\<close>, \<open>Proxy\<close>: the rest of the API. Shown: users touch only
    their own triggers and the trigger table stays sound; an administrator is always left; the history
    sweep ends and removes exactly what is old; no update is skipped however the replicas of the bot overlap and
    die, and none is handled twice while their terms are undisturbed; the bot never spins and renews its lease in time; outages of the upstream.
  \<^item> \<open>Routes\<close>: the controllers, their decorators and DTO checks, and \<open>serve\<close>, the way of a request through
    throttler, guards, validation and handler. Shown: no handler runs for a caller it should not run for.
    \<open>Policy\<close>: locale \<open>policed_system\<close> (a step spares every account outside its authority), interpreted on
    \<open>serve\<close> over the statement logic \<open>db_preorder\<close> of \<open>ApiBase\<close>. Shown: under any sequence of requests an account
    changes only by requests with authority over it, and answers depend on the caller's own account.
    \<open>Denial\<close>: locale \<open>redis_isolated\<close> (a command touches the key it names), a property of the store that every request
    keeps, and what it gives for the tokens of a deleted account.
  \<^item> \<open>Statements\<close>: locale \<open>api_statements\<close>, a relation on databases that every writing statement of the API obeys; in
    it, every handler obeys the relation too. It is interpreted twice. \<open>Stored\<close> takes it for a typing of the tables
    and \<open>invariant_system\<close> for \<open>serve\<close>. Shown: whatever is requested, request by request, what is stored passes the
    checks the watcher and the notifier rely on, limits per user included. \<open>System\<close> takes it for the paths of
    \<open>statement\<close>, a step relation with one rule per writing statement of all three processes. Shown: every process,
    whole cycles and passes included, is such a path, and under every interleaving of statements keys, foreign
    keys and field types hold. The limits per user do not: they are read and relied on by separate statements,
    and two requests at once exceed them (\<open>trigger_limit_raced\<close>).
  \<^item> \<open>Health\<close>: probes, the health server, the metric registry and the start-up decisions of \<open>main.ts\<close>.
    \<open>Telemetry\<close>: the log context, the rejection guard, the metrics of each module and the request interceptor.
    Shown: lines of concurrent handlers carry the fields of their own message, which keeps its event id through
    every retry; modules may load in any order; a failed request is timed under the status of a success.
  \<^item> This theory: properties across components, from a stored trigger to the watcher that polls it, from a firing
    to the end of its deliveries, and from a sign-in to the refusal of its token after the sign-out.

  \<^bold>\<open>How code becomes definitions.\<close> A service method is a function of the same name on explicit state; a
  rejected promise is \<open>Inl\<close>. Every database statement and Redis command has a fate given by an
  argument (committed, failed before it, or answer lost after it), every send to a third party is accepted,
  refused or loses its answer, and an acknowledgement may throw or get lost, so every theorem ranges over partial
  failures. Clock readings and random ids are arguments; an API request reads the clock once. Where
  processes interleave, a step relation takes single statements in any order. Strings are their UTF-8
  bytes; \<open>trim\<close> and \<open>\s\<close> know the ASCII blanks. Third parties are arguments with documented
  behaviour as hypotheses: Redis, SMTP, Telegram, push services, Open-Meteo, JSON codecs, JWT, bcrypt,
  SHA-256, case folding, the URL parser, \<open>Intl\<close>.

  \<^bold>\<open>Bounds.\<close> Loops that end are total functions. \<open>drain_loop\<close> and \<open>prune_loop\<close> are partial functions whose
  termination is proved. The unbounded loops of the bot and the life of a message are followed over the list of
  passes or attempts they go through; for messages the configured number of attempts is proved enough.

  \<^bold>\<open>Not modelled\<close>: modules (wiring), the rest of \<open>main.ts\<close> (bootstrap of the framework), the matching of
  paths to routes, log lines and metric increments at their call sites (observation only: nothing of the program
  reads them), Swagger metadata, the connections of \<open>prisma.service.ts\<close> and of the broker client (third-party
  code), scripts, and the front end, which is not part of this source.
\<close>

section \<open>From a firing to the end of its deliveries\<close>

text \<open>
  C1: every alert a trigger fires comes to an end on its own channel. Provided a notifier has started, so that
  the broker has its queues, each message the watcher stages for a firing is, once the relay has published
  it, routed to the consumer of exactly the channel it was staged for, and it arrives there as a first attempt.
  Within the configured attempts it and every copy made of it come to one of these ends, whatever fails on the way
  and whatever other processes do between the attempts: \<open>dispatch\<close> returned, the alert being sent or found to be
  a duplicate; it is parked in the dead queue of that channel; or it is left unacknowledged for redelivery. None is
  acknowledged and forgotten, none is published where no queue is bound.
\<close>

theorem alert_ends:
  assumes "m \<in> set (fired_messages event channels)" and "NotifierUp \<in> set starts"
    and "length (retryDelaysMs cc) < 2 ^ 53" and "length envs = length (retryDelaysMs cc) + 1"
    and "p = rabbit_publish stringify (m_routingKey m) (m_event m)"
  shows "\<exists>c. c \<in> set channels \<and> lands (broker cc starts) (pb_exchange p) (pb_key p) = [Redelivered c] \<and>
    follow parse cc (broker cc starts) envs c (delivered p) st \<noteq> [] \<and>
    set (follow parse cc (broker cc starts) envs c (delivered p) st) \<subseteq>
      {Handled DispatchOutcome.sent, Handled DispatchOutcome.skipped, Parked (deadQueueNameFor c), Unacked}"
proof -
  obtain c where c: "c \<in> set channels" "m_routingKey m = routingKeyFor c" "m_event m = event"
    using assms(1) by (auto simp: fired_messages_def)
  have t: "broker cc starts = topology cc" using broker_topology [of cc starts] assms(2,3) by simp
  have "attemptCount (delivered p) = att 0" using assms(5) published_fresh(1) by simp
  then have "ends_well c (follow parse cc (topology cc) envs c (delivered p) st)"
    using follow_bounded [of "delivered p" 0 cc envs c parse st] assms(3,4) by simp
  then show ?thesis using c t assms(5) lands_main by (auto simp: ends_well_def rabbit_publish_def)
qed

theorem alert_ends_witness:
  "\<exists>c. c \<in> set [EMAIL, TELEGRAM] \<and>
    lands (broker cc0 [PublisherUp, NotifierUp]) NOTIFICATIONS_EXCHANGE (routingKeyFor TELEGRAM) = [Redelivered c] \<and>
    set (follow (\<lambda>_. Some heat_event) cc0 (broker cc0 [PublisherUp, NotifierUp]) (map (\<lambda>t. alone (busy_env t)) [0, 6000, 37000, 340000]) c
      (delivered (rabbit_publish (\<lambda>_. ''{}'') (routingKeyFor TELEGRAM) heat_event)) cs0) \<subseteq>
      {Handled DispatchOutcome.sent, Handled DispatchOutcome.skipped, Parked (deadQueueNameFor c), Unacked}"
proof -
  let ?m = "\<lparr>m_eventId = ''e1'', m_routingKey = routingKeyFor TELEGRAM, m_event = heat_event\<rparr>"
  have m: "?m \<in> set (fired_messages heat_event [EMAIL, TELEGRAM])" by (simp add: fired_messages_def heat_event_def)
  have d: "length (retryDelaysMs cc0) = 3" by (simp add: cc0_delays)
  have "NotifierUp \<in> set [PublisherUp, NotifierUp]" by simp
  from alert_ends [OF m this, of cc0 "map (\<lambda>t. alone (busy_env t)) [0, 6000, 37000, 340000]"
      "rabbit_publish (\<lambda>_. ''{}'') (routingKeyFor TELEGRAM) heat_event" "\<lambda>_. ''{}''" "\<lambda>_. Some heat_event" cs0] d
  show ?thesis by (simp add: rabbit_publish_def) blast
qed

section \<open>From a stored trigger to the watcher that polls it\<close>

text \<open>What an instance polls: the locations of its cycle with their triggers, as \<open>pollCycle\<close> groups them.\<close>

definition rounds :: "db \<Rightarrow> nat \<Rightarrow> nat \<Rightarrow> (string \<times> WatchedTrigger list) list" where
  "rounds d n i = groupByLocation (findActive d (shardBuckets (shardFromEnv (Str (show_nat n)) (Str (show_nat i)))))"

text \<open>A trigger the cycle can evaluate and deliver: with conditions, channels and a window that parses.\<close>

definition evaluable :: "WatchedTrigger \<Rightarrow> bool" where
  "evaluable w \<longleftrightarrow> w_conditions w \<noteq> [] \<and> w_channels w \<noteq> [] \<and>
     (case w_quietHours w of None \<Rightarrow> True
      | Some q \<Rightarrow> optional (\<lambda>x. parseHHMM x \<noteq> None) (qh_start q) \<and> optional (\<lambda>x. parseHHMM x \<noteq> None) (qh_end q))"

definition polls :: "db \<Rightarrow> nat \<Rightarrow> nat \<Rightarrow> Trigger \<Rightarrow> bool" where
  "polls d n i t \<longleftrightarrow>
     (\<exists>grp w. map_of (rounds d n i) (locationKey (tr_latitude t) (tr_longitude t)) = Some grp \<and> w \<in> set grp \<and> w_id w = tr_id t \<and> evaluable w)"

lemma rounds_lookup:
  "(\<exists>grp. map_of (rounds d n i) k = Some grp \<and> w \<in> set grp) \<longleftrightarrow>
   w \<in> set (findActive d (shardBuckets (shardFromEnv (Str (show_nat n)) (Str (show_nat i))))) \<and> trigger_key w = k"
  by (auto simp: rounds_def groupByLocation_lookup Let_def filter_empty_conv)

lemma sound_evaluable:
  assumes "sound C V d" and "t \<in> set (triggers d)" and "u \<in> set (users d)"
  shows "evaluable (watched_trigger d t u)"
proof -
  have "1 \<le> conditions_of d (tr_id t)" using assms(1,2) by (simp add: sound_def shaped_triggers_def sound_users_def)
  then have "sort_key tc_order (find_many (\<lambda>c. tc_triggerId c = tr_id t) (conditions d)) \<noteq> []"
    by (simp flip: length_greater_0_conv add: conditions_of_def count_where_def find_many_def)
  moreover have "typed_user V u" "typed_trigger V t"
    using assms by (auto simp: sound_def shaped_triggers_def sound_users_def list_all_iff)
  ultimately show ?thesis
    by (auto simp: evaluable_def watched_trigger_def typed_user_def typed_trigger_def optional_def HHMM_iff_parseHHMM split: option.splits)
qed

lemma polls_iff:
  assumes "sound C V d" and "t \<in> set (triggers d)" and "tr_isActive t" and "0 < n" "n \<le> 2 ^ 53" "i < n"
  shows "polls d n i t \<longleftrightarrow> tr_locationBucket t mod n = i"
proof -
  let ?b = "shardBuckets (shardFromEnv (Str (show_nat n)) (Str (show_nat i)))"
  have typed: "tr_locationBucket t < LOCATION_BUCKETS" "tr_userId t \<in> u_id ` set (users d)" "distinct (map tr_id (triggers d))"
    using assms(1,2) by (auto simp: sound_def shaped_triggers_def sound_users_def typed_trigger_def list_all_iff)
  have sel: "selects ?b (tr_locationBucket t) \<longleftrightarrow> tr_locationBucket t mod n = i"
    using selects_shardBuckets [OF assms(4) typed(1), of i] assms(4-6) by (auto simp: shardFromEnv_numerals)
  obtain u where u: "find_unique (\<lambda>u. u_id u = tr_userId t) (users d) = Some u" "u \<in> set (users d)"
    using typed(2) by (cases "find_unique (\<lambda>u. u_id u = tr_userId t) (users d)") (auto simp: find_unique_None dest: find_unique_Some)
  show ?thesis
  proof
    assume "polls d n i t"
    then obtain w where "w \<in> set (findActive d ?b)" "w_id w = tr_id t" using rounds_lookup unfolding polls_def by blast
    then obtain t' where t': "t' \<in> set (triggers d)" "tr_id t' = tr_id t" "selects ?b (tr_locationBucket t')"
      by (auto simp: findActive_iff watched_trigger_def)
    then have "t' = t" using typed(3) assms(2) by (auto simp: distinct_map inj_on_def)
    then show "tr_locationBucket t mod n = i" using t'(3) sel by simp
  next
    assume "tr_locationBucket t mod n = i"
    then have "watched_trigger d t u \<in> set (findActive d ?b)" using sel u(1) assms(2,3) by (auto simp: findActive_iff)
    moreover have "trigger_key (watched_trigger d t u) = locationKey (tr_latitude t) (tr_longitude t)"
      by (simp add: trigger_key_def watched_trigger_def)
    moreover have "w_id (watched_trigger d t u) = tr_id t" by (simp add: watched_trigger_def)
    ultimately show "polls d n i t"
      using rounds_lookup [of d n i] sound_evaluable [OF assms(1,2) u(2)] unfolding polls_def by metis
  qed
qed

text \<open>
  C6: every active trigger is polled, by one watcher. Whatever statements of the API, the watchers, the
  notifiers and the sweeps have come one after the other, in a deployment of \<open>n\<close> watchers each active trigger
  is in the cycle of exactly one of them, in the group of its own location, with conditions to evaluate, channels
  to deliver on and quiet hours that parse.
\<close>

theorem active_trigger_polled:
  assumes "sound C V d0" and "path C V d0 d" and "t \<in> set (triggers d)" and "tr_isActive t" and "0 < n" and "n \<le> 2 ^ 53"
  shows "\<exists>!i. i < n \<and> polls d n i t"
proof -
  have "sound C V d" using assms(2,1) by (rule path_sound)
  from polls_iff [OF this assms(3-6)] have "i < n \<and> polls d n i t \<longleftrightarrow> i = tr_locationBucket t mod n" for i
    using assms(5) mod_less_divisor by auto
  then show ?thesis by simp
qed

theorem active_trigger_polled_witness:
  "\<exists>!i. i < 4 \<and> polls settled_db 4 i (hd (triggers settled_db))"
proof (rule active_trigger_polled [OF empty_sound settled_path])
  show "hd (triggers settled_db) \<in> set (triggers settled_db)" "tr_isActive (hd (triggers settled_db))"
    by (simp_all add: settled_db_eval)
qed simp_all

section \<open>From sign-in to sign-out\<close>

text \<open>Statements of any process, in any order, none of which draws the id \<open>j\<close> of a refresh token again.\<close>

definition goes_on :: "crypto \<Rightarrow> validators \<Rightarrow> ident \<Rightarrow> db \<Rightarrow> db \<Rightarrow> bool" where
  "goes_on C V j = (\<lambda>d d'. statement C V d d' \<and> (j \<in> rt_id ` set (refreshTokens d') \<longrightarrow> j \<in> rt_id ` set (refreshTokens d)))\<^sup>*\<^sup>*"

text \<open>No statement makes a spent token fresh again: an unrevoked row is one that was there, or has a new id.\<close>

lemma writes_tokens: "writes tid obs patch d = Inr d' \<Longrightarrow> refreshTokens d' = refreshTokens d"
  by (auto simp: writes_def split: sum.splits)

lemma statement_tokens:
  assumes "statement C V d d'" and "r \<in> set (refreshTokens d')" and "\<not> rt_revoked r"
  shows "r \<in> set (refreshTokens d) \<or> rt_id r \<notin> rt_id ` set (refreshTokens d)"
  using assms
proof (cases rule: statement.cases)
  case (token_insert r' x)
  then show ?thesis using assms(2) by (auto simp: create_refresh_def find_unique_None split: if_splits)
next
  case (observe tid obs patch)
  then show ?thesis using assms(2) writes_tokens by auto
next
  case (stage tid obs patch e ims now)
  then show ?thesis using assms(2) writes_tokens by auto
qed (auto simp: update_user_def users_create_def delete_user_def reset_transaction_def revoke_where_def prune_expired_def delete_notifications_def
    upsert_push_def pinned_insert_def trigger_create_def trigger_update_def delete_triggers_def claim_create_def create_notification_def
    claim_update_def releaseClaim_row_def settle_row_def markDelivered_def set_update_many set_delete_many Let_def
    split: if_splits option.splits sum.splits prod.splits)

lemma goes_on_spent:
  assumes "goes_on C V j d d'" and "\<forall>r \<in> set (refreshTokens d). rt_id r = j \<longrightarrow> rt_revoked r"
  shows "\<forall>r \<in> set (refreshTokens d'). rt_id r = j \<longrightarrow> rt_revoked r"
  using assms unfolding goes_on_def
proof (induction rule: rtranclp_induct)
  case (step d1 d2)
  then show ?case using statement_tokens [of C V d1 d2] by blast
qed simp

text \<open>
  C19: a session lasts from sign-in to sign-out. When core-api started on a validated environment, a successful
  sign-in answers with one cookie, under the path of the authentication routes and \<open>Secure\<close> whenever it is
  \<open>SameSite=None\<close>. A request that presents its value within its lifetime, as long as the row of the token is
  as the sign-in left it and the accounts are there, is answered by \<open>/auth/refresh\<close> with new tokens and a new cookie
  of the same attributes, and by \<open>/auth/logout\<close> with the clearing of the cookie, under the name, the path and
  the attributes it was set with. After the sign-out the token is refused, whoever kept a copy and whatever statements any
  process has run in the meantime. The database answers these requests, ids are not drawn twice, and tokens behave as
  documented.
\<close>

theorem session_lifecycle:
  assumes "coreApiEnvSchema cfg" and "base = cookie_base cfg" and "honest J"
    and "post_login R K J a base env email password s = (Inr access, ops, s1)"
    and "rq_now env \<le> rq_now env'" and "rq_now env' div 1000 < rq_now env div 1000 + expiresIn (as_refreshTtlMs a)"
    and "of_int (rq_now env') < of_int (rq_now env) + as_refreshTtlMs a"
    and "committed env'" and "find_unique (\<lambda>r. rt_id r = rq_uuid env' 0) (refreshTokens (ap_db s1')) = None"
    and "find_unique (\<lambda>r. rt_id r = rq_uuid env 0) (refreshTokens (ap_db s1')) = find_unique (\<lambda>r. rt_id r = rq_uuid env 0) (refreshTokens (ap_db s1))"
    and "u_id ` set (users (ap_db s1)) \<subseteq> u_id ` set (users (ap_db s1'))"
  shows "ck_path base = ''/auth'' \<and> (ck_sameSite base = ''none'' \<longrightarrow> ck_secure base) \<and>
    (\<exists>tok. ops = [SetCookie REFRESH_COOKIE tok base (as_refreshTtlMs a)] \<and>
      (\<forall>cookies. cookies REFRESH_COOKIE = Some tok \<longrightarrow>
        (\<exists>access' tok' s2. post_refresh K J a base env' cookies s1' = (Inr access', [SetCookie REFRESH_COOKIE tok' base (as_refreshTtlMs a)], s2)) \<and>
        (\<exists>s2. post_logout J a base env' cookies s1' = (Inr True, [ClearCookie REFRESH_COOKIE base], s2) \<and>
          (\<forall>s3 env''. goes_on C V (rq_uuid env 0) (ap_db s2) (ap_db s3) \<longrightarrow> committed env'' \<longrightarrow>
             fst (refresh K J a env'' tok s3) = Inl (Unauthorized ''Invalid refresh token'')))))"
proof -
  obtain u :: User and tok row where ops: "ops = [SetCookie REFRESH_COOKIE tok base (as_refreshTtlMs a)]"
    and tok: "tok = jw_signRefresh J (as_refreshSecret a) (u_id u, u_email u, rq_uuid env 0) (rq_now env) (expiresIn (as_refreshTtlMs a))"
    and row: "row = \<lparr>rt_id = rq_uuid env 0, rt_userId = u_id u, rt_tokenHash = hashToken K tok, rt_expiresAt = rq_now env + \<lfloor>as_refreshTtlMs a\<rfloor>, rt_revoked = False\<rparr>"
    and found: "find_unique (\<lambda>r. rt_id r = rq_uuid env 0) (refreshTokens (ap_db s1)) = Some row" and user: "find_user (u_id u) (ap_db s1) \<noteq> None"
    by (rule post_login_Inr [OF assms(4)]) blast
  let ?p = "\<lparr>rp_sub = u_id u, rp_jti = rq_uuid env 0, rp_email = Some (u_email u)\<rparr>"
  have v: "jw_verify J (as_refreshSecret a) (rq_now env') tok = Some ?p" and ne: "tok \<noteq> []"
    using assms(3,5,6) tok by (auto simp: honest_def)
  obtain c cs where cs: "tok = c # cs" using ne by (cases tok) auto
  have "rq_now env' - rq_now env \<le> \<lfloor>as_refreshTtlMs a\<rfloor>" using assms(7) by (simp add: le_floor_iff)
  then have live: "rq_now env' \<le> rt_expiresAt row" using row by simp
  have "find_user (u_id u) (ap_db s1') \<noteq> None" using user assms(11) by (auto simp: find_user_def find_unique_None) (metis image_eqI image_iff subsetD)
  then have "\<exists>t s2. refresh K J a env' tok s1' = (Inr t, s2)"
    using found assms(10) row by (intro issued_refreshes [OF v _ _ _ live assms(8,9)]) simp_all
  then obtain t s2 where t: "refresh K J a env' tok s1' = (Inr t, s2)" by blast
  have A: "post_refresh K J a base env' cookies s1' = (Inr (tk_accessToken t), [SetCookie REFRESH_COOKIE (tk_refreshToken t) base (as_refreshTtlMs a)], s2)"
    if "cookies REFRESH_COOKIE = Some tok" for cookies
    using that t cs by (simp add: post_refresh_def readRefreshCookie_def with_tokens_def respondWithTokens_def)
  define s2' where "s2' = s1'\<lparr>ap_db := snd (revoke_where (\<lambda>r. rt_id r = rq_uuid env 0) (ap_db s1'))\<rparr>"
  have B: "post_logout J a base env' cookies s1' = (Inr True, [ClearCookie REFRESH_COOKIE base], s2')" if "cookies REFRESH_COOKIE = Some tok" for cookies
    using that cs v assms(8) by (simp add: post_logout_def readRefreshCookie_def logout_def s2'_def committed_def query_ok yields_def)
  have spent: "\<forall>r \<in> set (refreshTokens (ap_db s2')). rt_id r = rq_uuid env 0 \<longrightarrow> rt_revoked r"
    by (auto simp: s2'_def revoke_where_def set_update_many)
  have D: "fst (refresh K J a env'' tok s3) = Inl (Unauthorized ''Invalid refresh token'')"
    if "goes_on C V (rq_uuid env 0) (ap_db s2') (ap_db s3)" "committed env''" for s3 env''
    using spent_refused [of J a env'' tok ?p s3 K] honest_claims [OF assms(3)] tok that(2) goes_on_spent [OF that(1) spent] by simp
  show ?thesis using validated_cookie [OF assms(1)] assms(2) ops A B D by blast
qed

theorem session_lifecycle_witness:
  "let base = cookie_base core_env; env' = done_env 3000 (\<lambda>_. ''ef'') in
   \<exists>tok s2. (\<exists>access' tok' s2. post_refresh plain_crypto open_jwt auth0 base env' [REFRESH_COOKIE \<mapsto> tok] hello =
       (Inr access', [SetCookie REFRESH_COOKIE tok' base (as_refreshTtlMs auth0)], s2)) \<and>
     post_logout open_jwt auth0 base env' [REFRESH_COOKIE \<mapsto> tok] hello = (Inr True, [ClearCookie REFRESH_COOKIE base], s2) \<and>
     fst (refresh plain_crypto open_jwt auth0 env' tok s2) = Inl (Unauthorized ''Invalid refresh token'')"
proof -
  obtain access ops where l: "post_login mem_redis plain_crypto open_jwt auth0 (cookie_base core_env) (later 2000) ''a@x.io'' ''h'' signed_in = (Inr access, ops, hello)"
    using hello_login by blast
  let ?e = "done_env 3000 (\<lambda>_. ''ef'')"
  have now: "rq_now (later 2000) = 2000" "rq_now ?e = 3000" "rq_uuid ?e 0 = ''ef''" by (simp_all add: later_def done_env_def)
  have "expiresIn (as_refreshTtlMs auth0) = 604800" using rnd64_of_int [of 604800] by (simp add: expiresIn_def auth0_def)
  then have t: "rq_now (later 2000) \<le> rq_now ?e" "rq_now ?e div 1000 < rq_now (later 2000) div 1000 + expiresIn (as_refreshTtlMs auth0)"
    "of_int (rq_now ?e) < of_int (rq_now (later 2000)) + as_refreshTtlMs auth0" by (simp_all add: now auth0_def)
  have new: "find_unique (\<lambda>r. rt_id r = rq_uuid ?e 0) (refreshTokens (ap_db hello)) = None" unfolding now by (simp add: hello_def login_eval)
  have c: "committed ?e" by (simp add: committed_def done_env_def)
  have refl_on: "goes_on C V j d d" for C V j d by (simp add: goes_on_def)
  note session = session_lifecycle [where C = plain_crypto and V = "app_validators app0", OF core_env_ok refl open_jwt_honest l t c new refl order_refl]
  obtain tok where tok: "\<forall>cookies. cookies REFRESH_COOKIE = Some tok \<longrightarrow>
       (\<exists>access' tok' s2. post_refresh plain_crypto open_jwt auth0 (cookie_base core_env) ?e cookies hello =
          (Inr access', [SetCookie REFRESH_COOKIE tok' (cookie_base core_env) (as_refreshTtlMs auth0)], s2)) \<and>
       (\<exists>s2. post_logout open_jwt auth0 (cookie_base core_env) ?e cookies hello = (Inr True, [ClearCookie REFRESH_COOKIE (cookie_base core_env)], s2) \<and>
          (\<forall>(s3 :: (string \<Rightarrow> entry option) api) env''. goes_on plain_crypto (app_validators app0) (rq_uuid (later 2000) 0) (ap_db s2) (ap_db s3) \<longrightarrow> committed env'' \<longrightarrow>
             fst (refresh plain_crypto open_jwt auth0 env'' tok s3) = Inl (Unauthorized ''Invalid refresh token'')))"
    using session by (elim conjE exE) (rule that)
  have "[REFRESH_COOKIE \<mapsto> tok] REFRESH_COOKIE = Some tok" by simp
  note both = mp [OF spec [OF tok, of "[REFRESH_COOKIE \<mapsto> tok]"] this]
  from conjunct2 [OF both] obtain s2 where
    "post_logout open_jwt auth0 (cookie_base core_env) ?e [REFRESH_COOKIE \<mapsto> tok] hello = (Inr True, [ClearCookie REFRESH_COOKIE (cookie_base core_env)], s2)"
    "fst (refresh plain_crypto open_jwt auth0 ?e tok s2) = Inl (Unauthorized ''Invalid refresh token'')"
    using refl_on c by blast
  then show ?thesis unfolding Let_def using conjunct1 [OF both] by blast
qed

section \<open>History and idempotency\<close>

text \<open>
  The delivery log is both the history a user may clear and the record that makes redelivery safe.
  Clearing it between two deliveries of the same event makes the second one go out again.
\<close>

lemma cleared_history_resends:
  "fst (dispatch (good_dispatch 9) (CHANNEL_IMPLEMENTATIONS healthy) TELEGRAM heat_event
     (told_world\<lparr>nw_db := snd (delete_notifications (\<lambda>n. n_userId n = ''u1'') (nw_db told_world))\<rparr>)) = Inr DispatchOutcome.sent"
  by code_simp

end
